(* ===== verification/Prelude.thy ===== *)
theory Prelude
  imports Main "HOL-Library.Word"
begin

text \<open>
  What every theory of the development shares: bytes, the outcome type of Go functions
  (a value, an error return or a panic), checked slice and index expressions, the
  big-endian reads and writes of \<^verbatim>\<open>encoding/binary\<close>, and the two contracts that the
  parsers of the BACnet wire format keep, stated as locales: a decoder never panics and never
  consumes more than it was given, and a codec decodes what it encoded.
\<close>

unbundle bit_operations_syntax

named_theorems safe_intros \<open>rules showing that a computation does not panic\<close>
named_theorems decoder_specs \<open>facts that a decoder is safe and stays within its input\<close>

type_synonym byte = "8 word"
type_synonym u16 = "16 word"
type_synonym u32 = "32 word"
type_synonym u64 = "64 word"

section \<open>Outcomes\<close>

text \<open>
  A Go function that returns \<^verbatim>\<open>(T, error)\<close> ends in one of three ways: it returns a value
  with a nil error, it returns a non-nil error, or it panics. A panic is not an error value:
  no \<^verbatim>\<open>if err != nil\<close> sees it.
\<close>

datatype ('e, 'a) res = Ok 'a | Err 'e | Panic

fun res_bind :: "('e, 'a) res \<Rightarrow> ('a \<Rightarrow> ('e, 'b) res) \<Rightarrow> ('e, 'b) res" where
  "res_bind (Ok x) f = f x"
| "res_bind (Err e) f = Err e"
| "res_bind Panic f = Panic"

definition safe :: "('e, 'a) res \<Rightarrow> bool" where
  "safe m \<longleftrightarrow> m \<noteq> Panic"

lemma safe_simps [simp]: "safe (Ok x)" "safe (Err e)" "\<not> safe Panic"
  by (simp_all add: safe_def)

lemma res_bind_cong [fundef_cong]:
  assumes "m = m'" and "\<And>x. m' = Ok x \<Longrightarrow> f x = g x"
  shows "res_bind m f = res_bind m' g"
  using assms by (cases m') auto

lemma res_bind_Ok_iff: "res_bind m f = Ok y \<longleftrightarrow> (\<exists>x. m = Ok x \<and> f x = Ok y)"
  by (cases m) auto

lemma res_bind_Err_iff:
  "res_bind m f = Err e \<longleftrightarrow> m = Err e \<or> (\<exists>x. m = Ok x \<and> f x = Err e)"
  by (cases m) auto

lemma res_bind_Panic_iff:
  "res_bind m f = Panic \<longleftrightarrow> m = Panic \<or> (\<exists>x. m = Ok x \<and> f x = Panic)"
  by (cases m) auto

lemma res_bind_OkE:
  assumes "res_bind m f = Ok y"
  obtains x where "m = Ok x" and "f x = Ok y"
  using assms by (auto simp: res_bind_Ok_iff)

lemma res_bind_assoc: "res_bind (res_bind m f) g = res_bind m (\<lambda>x. res_bind (f x) g)"
  by (cases m) auto

lemma safe_bind [safe_intros]:
  assumes "safe m" and "\<And>x. m = Ok x \<Longrightarrow> safe (f x)"
  shows "safe (res_bind m f)"
  using assms by (cases m) auto

text \<open>A loop that fills a fresh slice, one element at a time, and leaves at the first failure.\<close>

fun mapR :: "('a \<Rightarrow> ('e, 'b) res) \<Rightarrow> 'a list \<Rightarrow> ('e, 'b list) res" where
  "mapR f [] = Ok []"
| "mapR f (x # xs) = res_bind (f x) (\<lambda>y. res_bind (mapR f xs) (\<lambda>ys. Ok (y # ys)))"

lemma safe_mapR [safe_intros]: "(\<And>x. x \<in> set xs \<Longrightarrow> safe (f x)) \<Longrightarrow> safe (mapR f xs)"
  by (induction xs) (auto intro!: safe_bind)

lemma mapR_Ok: "(\<And>x. x \<in> set xs \<Longrightarrow> f x = Ok (g x)) \<Longrightarrow> mapR f xs = Ok (map g xs)"
  by (induction xs) auto

lemma mapR_length: "mapR f xs = Ok ys \<Longrightarrow> length ys = length xs"
  by (induction xs arbitrary: ys) (auto simp: res_bind_Ok_iff)

lemma safe_prod [safe_intros]:
  "(\<And>a b. p = (a, b) \<Longrightarrow> safe (f a b)) \<Longrightarrow> safe (case p of (a, b) \<Rightarrow> f a b)"
  by (cases p) simp

lemma safe_option [safe_intros]:
  "(v = None \<Longrightarrow> safe m) \<Longrightarrow> (\<And>x. v = Some x \<Longrightarrow> safe (f x))
    \<Longrightarrow> safe (case v of None \<Rightarrow> m | Some x \<Rightarrow> f x)"
  by (cases v) simp_all

lemma safe_return [safe_intros]: "safe (Ok x)" "safe (Err e)"
  by simp_all

lemma safe_if [safe_intros]:
  assumes "b \<Longrightarrow> safe m" and "\<not> b \<Longrightarrow> safe m'"
  shows "safe (if b then m else m')"
  using assms by simp

section \<open>Slice expressions\<close>

text \<open>
  \<^verbatim>\<open>buf[i]\<close>, \<^verbatim>\<open>buf[a:]\<close> and \<^verbatim>\<open>buf[a:b]\<close> panic when the index or a bound is outside the
  slice. (Go lets \<^verbatim>\<open>b\<close> go up to the capacity; panicking already beyond the length is
  stricter, and the safety theorems show that neither limit is ever reached.)
\<close>

definition index :: "'a list \<Rightarrow> nat \<Rightarrow> ('e, 'a) res" where
  "index xs i = (if i < length xs then Ok (xs ! i) else Panic)"

definition sliceFrom :: "'a list \<Rightarrow> nat \<Rightarrow> ('e, 'a list) res" where
  "sliceFrom xs a = (if a \<le> length xs then Ok (drop a xs) else Panic)"

definition slice :: "'a list \<Rightarrow> nat \<Rightarrow> nat \<Rightarrow> ('e, 'a list) res" where
  "slice xs a b = (if a \<le> b \<and> b \<le> length xs then Ok (take (b - a) (drop a xs)) else Panic)"

text \<open>\<open>decAt buf pos d\<close> is the call \<^verbatim>\<open>d(buf[pos:])\<close>.\<close>

definition decAt :: "'a list \<Rightarrow> nat \<Rightarrow> ('a list \<Rightarrow> ('e, 'b) res) \<Rightarrow> ('e, 'b) res" where
  "decAt buf pos d = res_bind (sliceFrom buf pos) d"

lemma safe_index [safe_intros]: "i < length xs \<Longrightarrow> safe (index xs i)"
  by (simp add: index_def)

lemma safe_sliceFrom [safe_intros]: "a \<le> length xs \<Longrightarrow> safe (sliceFrom xs a)"
  by (simp add: sliceFrom_def)

lemma safe_slice [safe_intros]: "a \<le> b \<Longrightarrow> b \<le> length xs \<Longrightarrow> safe (slice xs a b)"
  by (simp add: slice_def)

lemma index_Ok: "i < length xs \<Longrightarrow> index xs i = Ok (xs ! i)"
  by (simp add: index_def)

lemma index_Cons [simp]: "index (x # xs) 0 = Ok x" "index (x # xs) (Suc i) = index xs i"
  by (simp_all add: index_def)

lemma index_Cons_numeral [simp]: "index (x # xs) (numeral k) = index xs (pred_numeral k)"
  by (simp add: numeral_eq_Suc)

lemma index_Cons_one [simp]: "index (x # xs) 1 = index xs 0"
  by (simp add: index_def)

lemma sliceFrom_zero [simp]: "sliceFrom xs 0 = Ok xs"
  by (simp add: sliceFrom_def)

lemma sliceFrom_length [simp]: "sliceFrom (xs @ ys) (length xs) = Ok ys"
  by (simp add: sliceFrom_def)

lemma sliceFrom_append [simp]: "sliceFrom (xs @ ys) (length xs + n) = sliceFrom ys n"
  by (simp add: sliceFrom_def)

lemma sliceFrom_all [simp]: "sliceFrom xs (length xs) = Ok []"
  by (simp add: sliceFrom_def)

lemma sliceFrom_Cons [simp]: "sliceFrom (x # xs) (Suc n) = sliceFrom xs n"
  by (simp add: sliceFrom_def)

lemma sliceFrom_Cons_numeral [simp]:
  "sliceFrom (x # xs) (numeral k) = sliceFrom xs (pred_numeral k)"
  by (simp add: sliceFrom_def numeral_eq_Suc)

lemma slice_append [simp]: "slice (xs @ ys @ zs) (length xs) (length xs + length ys) = Ok ys"
  by (simp add: slice_def)

lemma decAt_zero [simp]: "decAt buf 0 d = d buf"
  by (simp add: decAt_def)

lemma decAt_append [simp]: "decAt (xs @ ys) (length xs + n) d = decAt ys n d"
  by (simp add: decAt_def)

lemma decAt_length [simp]: "decAt (xs @ ys) (length xs) d = d ys"
  by (simp add: decAt_def)

lemma decAt_append_Suc [simp]: "decAt (xs @ y # ys) (Suc (length xs)) d = d ys"
  by (simp add: decAt_def sliceFrom_def)

lemma decAt_drop: "pos \<le> length buf \<Longrightarrow> decAt buf pos d = d (drop pos buf)"
  by (simp add: decAt_def sliceFrom_def)

lemma safe_decAtI [safe_intros]:
  "pos \<le> length buf \<Longrightarrow> safe (d (drop pos buf)) \<Longrightarrow> safe (decAt buf pos d)"
  by (simp add: decAt_drop)

lemma decAt_cong [fundef_cong]:
  assumes "buf = buf'" and "pos = pos'" and "\<And>b. b = drop pos' buf' \<Longrightarrow> d b = d' b"
  shows "decAt buf pos d = decAt buf' pos' d'"
  using assms by (simp add: decAt_def sliceFrom_def)

section \<open>Decoders and codecs\<close>

text \<open>
  Most parsing functions return the decoded value and the number of octets they consumed.
  Their callers advance by that number and slice the buffer again, which is safe because of
  two promises: no panic, and no more octets consumed than there are.
\<close>

definition decoder :: "(byte list \<Rightarrow> ('e, 'a \<times> nat) res) \<Rightarrow> bool" where
  "decoder d \<longleftrightarrow> (\<forall>b. safe (d b) \<and> (\<forall>x n. d b = Ok (x, n) \<longrightarrow> n \<le> length b))"

lemma decoderI:
  assumes "\<And>b. safe (d b)" and "\<And>b x n. d b = Ok (x, n) \<Longrightarrow> n \<le> length b"
  shows "decoder d"
  using assms by (auto simp: decoder_def)

lemma decoder_safe: "decoder d \<Longrightarrow> safe (d b)"
  by (simp add: decoder_def)

lemma decoder_bound: "decoder d \<Longrightarrow> d b = Ok (x, n) \<Longrightarrow> n \<le> length b"
  by (auto simp: decoder_def)

lemma decAt_bound:
  "decoder d \<Longrightarrow> decAt buf pos d = Ok (x, n) \<Longrightarrow> pos + n \<le> length buf"
  by (auto simp: decAt_def sliceFrom_def split: if_splits dest!: decoder_bound)

lemma safe_decAt: "pos \<le> length buf \<Longrightarrow> decoder d \<Longrightarrow> safe (decAt buf pos d)"
  by (simp add: decAt_drop decoder_safe)

text \<open>
  \<open>advance buf pos d k\<close> is the code's \<^verbatim>\<open>x, n, err := d(buf[pos:])\<close>, the return of a
  non-nil \<^verbatim>\<open>err\<close>, and \<^verbatim>\<open>pos += n\<close>, followed by \<open>k\<close>; \<open>only n\<close> is a decoder that returns
  nothing but the number of octets.
\<close>

definition advance ::
  "byte list \<Rightarrow> nat \<Rightarrow> (byte list \<Rightarrow> ('e, 'a \<times> nat) res) \<Rightarrow> ('a \<Rightarrow> nat \<Rightarrow> ('e, 'b) res) \<Rightarrow> ('e, 'b) res" where
  "advance buf pos d k = res_bind (decAt buf pos d) (\<lambda>(x, n). k x (pos + n))"

definition only :: "(byte list \<Rightarrow> ('e, nat) res) \<Rightarrow> byte list \<Rightarrow> ('e, unit \<times> nat) res" where
  "only d b = res_bind (d b) (\<lambda>n. Ok ((), n))"

lemma only_Ok [simp]: "only d b = Ok (u, n) \<longleftrightarrow> d b = Ok n"
  by (cases "d b") (simp_all add: only_def)

lemma only_safe: "safe (only d b) \<longleftrightarrow> safe (d b)"
  by (cases "d b") (simp_all add: only_def)

lemma safe_advance [safe_intros]:
  assumes "pos \<le> length buf" and "decoder d"
    and "\<And>x n. d (drop pos buf) = Ok (x, n) \<Longrightarrow> pos + n \<le> length buf \<Longrightarrow> safe (k x (pos + n))"
  shows "safe (advance buf pos d k)"
  unfolding advance_def
  by (intro safe_bind safe_prod safe_decAt assms(1,2)) (use assms(1) decAt_bound [OF assms(2)] assms(3) in \<open>auto simp: decAt_drop\<close>)

lemma advance_Ok_iff:
  "advance buf pos d k = Ok y
    \<longleftrightarrow> pos \<le> length buf \<and> (\<exists>x n. d (drop pos buf) = Ok (x, n) \<and> k x (pos + n) = Ok y)"
  by (auto simp: advance_def decAt_def sliceFrom_def res_bind_Ok_iff split: if_splits)

lemma advance_cong [fundef_cong]:
  assumes "buf = buf'" and "pos = pos'" and "d = d'"
    and "\<And>x p. pos' \<le> length buf' \<and> (\<exists>n. d' (drop pos' buf') = Ok (x, n) \<and> p = pos' + n)
      \<Longrightarrow> k x p = k' x p"
  shows "advance buf pos d k = advance buf' pos' d' k'"
  using assms(4) unfolding advance_def assms(1-3) decAt_def sliceFrom_def
  by (cases "d' (drop pos' buf')") (auto split: prod.splits)

lemma advance_step:
  "d rest = Ok (x, n) \<Longrightarrow> advance (pre @ rest) (length pre) d k = k x (length pre + n)"
  by (simp add: advance_def)

locale decoder_contract =
  fixes dec :: "byte list \<Rightarrow> ('e, 'a \<times> nat) res"
  assumes no_panic: "safe (dec b)"
    and in_bounds: "dec b = Ok (x, n) \<Longrightarrow> n \<le> length b"
begin

lemma is_decoder: "decoder dec"
  by (rule decoderI) (auto simp: no_panic dest: in_bounds)

lemma at_safe: "pos \<le> length buf \<Longrightarrow> safe (decAt buf pos dec)"
  by (rule safe_decAt [OF _ is_decoder])

lemma at_in_bounds: "decAt buf pos dec = Ok (x, n) \<Longrightarrow> pos + n \<le> length buf"
  by (rule decAt_bound [OF is_decoder])

end

text \<open>
  A codec is a decoder with an encoder: decoding the encoding of a valid value, whatever
  follows it in the buffer, returns the value and the length of its encoding. Lengths on the
  wire are 32-bit, so the law is stated for buffers of less than 4 GiB.
\<close>

definition fits :: "byte list \<Rightarrow> bool" where
  "fits b \<longleftrightarrow> length b < 2 ^ 32"

lemma fits_append: "fits (a @ b) \<Longrightarrow> fits a \<and> fits b"
  by (simp add: fits_def)

lemma fits_drop: "fits b \<Longrightarrow> fits (drop n b)"
  by (simp add: fits_def)

locale codec = decoder_contract dec
  for dec :: "byte list \<Rightarrow> ('e, 'a \<times> nat) res" +
  fixes enc :: "'a \<Rightarrow> byte list" and valid :: "'a \<Rightarrow> bool"
  assumes roundtrip: "valid x \<Longrightarrow> fits (enc x @ rest) \<Longrightarrow> dec (enc x @ rest) = Ok (x, length (enc x))"
begin

lemma roundtrip_end: "valid x \<Longrightarrow> fits (enc x) \<Longrightarrow> dec (enc x) = Ok (x, length (enc x))"
  using roundtrip [of x "[]"] by simp

lemma roundtrip_at:
  "valid x \<Longrightarrow> fits (enc x @ rest) \<Longrightarrow> decAt (pre @ enc x @ rest) (length pre) dec = Ok (x, length (enc x))"
  by (simp add: roundtrip)

text \<open>No valid encoding is a proper prefix of another: encodings can be concatenated.\<close>

lemma enc_prefix_free:
  assumes "valid x" and "valid y" and eq: "enc x @ u = enc y @ v" and fits: "fits (enc x @ u)"
  shows "x = y \<and> u = v"
proof -
  have "dec (enc x @ u) = Ok (y, length (enc y))"
    using roundtrip [OF assms(2), of v] fits by (simp add: eq)
  with roundtrip [OF assms(1) fits] have "x = y" by simp
  with eq show ?thesis by simp
qed

lemma enc_inj: "valid x \<Longrightarrow> valid y \<Longrightarrow> fits (enc x) \<Longrightarrow> enc x = enc y \<Longrightarrow> x = y"
  using enc_prefix_free [of x y "[]" "[]"] by simp

end

section \<open>Big-endian integers\<close>

text \<open>\<^verbatim>\<open>binary.BigEndian.PutUint16/32/64\<close> into a fresh array, and the reads, which panic on short input.\<close>

definition putUint16 :: "u16 \<Rightarrow> byte list" where
  "putUint16 w = [ucast (drop_bit 8 w), ucast w]"

definition putUint32 :: "u32 \<Rightarrow> byte list" where
  "putUint32 w = [ucast (drop_bit 24 w), ucast (drop_bit 16 w), ucast (drop_bit 8 w), ucast w]"

definition putUint64 :: "u64 \<Rightarrow> byte list" where
  "putUint64 w = [ucast (drop_bit 56 w), ucast (drop_bit 48 w), ucast (drop_bit 40 w),
     ucast (drop_bit 32 w), ucast (drop_bit 24 w), ucast (drop_bit 16 w), ucast (drop_bit 8 w), ucast w]"

definition be_fold :: "'a::len word \<Rightarrow> byte list \<Rightarrow> 'a word" where
  "be_fold v bs = foldl (\<lambda>v b. push_bit 8 v OR ucast b) v bs"

definition getUint16 :: "byte list \<Rightarrow> ('e, u16) res" where
  "getUint16 b = (if length b < 2 then Panic else Ok (be_fold 0 (take 2 b)))"

definition getUint32 :: "byte list \<Rightarrow> ('e, u32) res" where
  "getUint32 b = (if length b < 4 then Panic else Ok (be_fold 0 (take 4 b)))"

definition getUint64 :: "byte list \<Rightarrow> ('e, u64) res" where
  "getUint64 b = (if length b < 8 then Panic else Ok (be_fold 0 (take 8 b)))"

lemma safe_getUint [safe_intros]:
  "2 \<le> length b \<Longrightarrow> safe (getUint16 b)"
  "4 \<le> length b \<Longrightarrow> safe (getUint32 b)"
  "8 \<le> length b \<Longrightarrow> safe (getUint64 b)"
  by (auto simp: getUint16_def getUint32_def getUint64_def)

lemma length_putUint [simp]:
  "length (putUint16 w2) = 2" "length (putUint32 w4) = 4" "length (putUint64 w8) = 8"
  by (simp_all add: putUint16_def putUint32_def putUint64_def)

lemma be_fold_simps [simp]:
  "be_fold v [] = v"
  "be_fold v (b # bs) = be_fold (push_bit 8 v OR ucast b) bs"
  by (simp_all add: be_fold_def)

lemma be_step: "push_bit 8 (drop_bit (8 + k) w) OR ucast (ucast (drop_bit k w) :: byte) = drop_bit k w"
  by (rule bit_word_eqI) (auto simp: bit_simps dest: bit_imp_le_length)

lemma drop_bit_beyond: "LENGTH('a) \<le> k \<Longrightarrow> drop_bit k (w :: 'a::len word) = 0"
  by (rule bit_word_eqI) (auto simp: bit_simps dest: bit_imp_le_length)

lemma be_fold_put16: "be_fold 0 (putUint16 w) = w"
  using be_step [of 8 w] be_step [of 0 w] by (simp add: putUint16_def drop_bit_beyond)

lemma be_fold_put32: "be_fold 0 (putUint32 w) = w"
  using be_step [of 24 w] be_step [of 16 w] be_step [of 8 w] be_step [of 0 w]
  by (simp add: putUint32_def drop_bit_beyond)

lemma be_fold_put64: "be_fold 0 (putUint64 w) = w"
  using be_step [of 56 w] be_step [of 48 w] be_step [of 40 w] be_step [of 32 w]
    be_step [of 24 w] be_step [of 16 w] be_step [of 8 w] be_step [of 0 w]
  by (simp add: putUint64_def drop_bit_beyond)

lemma getUint_putUint [simp]:
  "getUint16 (putUint16 w2 @ r) = Ok w2"
  "getUint32 (putUint32 w4 @ r) = Ok w4"
  "getUint64 (putUint64 w8 @ r) = Ok w8"
  by (simp_all add: getUint16_def getUint32_def getUint64_def be_fold_put16 be_fold_put32 be_fold_put64)

lemma getUint_putUint_end [simp]:
  "getUint16 (putUint16 w2) = Ok w2"
  "getUint32 (putUint32 w4) = Ok w4"
  "getUint64 (putUint64 w8) = Ok w8"
  by (simp_all add: getUint16_def getUint32_def getUint64_def be_fold_put16 be_fold_put32 be_fold_put64)

lemma be_fold_split: "be_fold (v :: 'a::len word) bs = push_bit (8 * length bs) v OR be_fold 0 bs"
proof (induction bs arbitrary: v)
  case Nil
  show ?case by simp
next
  case (Cons b bs)
  have "be_fold v (b # bs) = push_bit (8 * length bs) (push_bit 8 v OR ucast b) OR be_fold 0 bs"
    using Cons.IH [of "push_bit 8 v OR ucast b"] by simp
  also have "\<dots> = push_bit (8 * length (b # bs)) v OR (push_bit (8 * length bs) (ucast b) OR be_fold 0 bs)"
    by (simp add: push_bit_or or.assoc add.commute)
  also have "push_bit (8 * length bs) (ucast b) OR be_fold 0 bs = (be_fold 0 (b # bs) :: 'a word)"
    by (simp add: Cons.IH [of "ucast b"])
  finally show ?case .
qed

end
