(* ===== verification/Bacnet_Errors.thy ===== *)
theory Bacnet_Errors
  imports Prelude
begin

text \<open>
  The error values of \<^verbatim>\<open>internal/bacnet\<close> (\<^verbatim>\<open>errors.go\<close> and the \<^verbatim>\<open>fmt.Errorf\<close> calls of the
  package). Each \<^verbatim>\<open>fmt.Errorf\<close> call site is a constructor that carries the arguments of its
  format string, so two errors are equal exactly when the code reports the same text.
\<close>

section \<open>Protocol errors reported by a peer\<close>

type_synonym ErrorClass = u32
type_synonym ErrorCode = u32

definition ErrorClassObject :: ErrorClass where "ErrorClassObject = 1"
definition ErrorClassProperty :: ErrorClass where "ErrorClassProperty = 2"

definition ErrorCodeTimeout :: ErrorCode where "ErrorCodeTimeout = 30"
definition ErrorCodeUnknownObject :: ErrorCode where "ErrorCodeUnknownObject = 31"
definition ErrorCodeUnknownProperty :: ErrorCode where "ErrorCodeUnknownProperty = 32"
definition ErrorCodeValueOutOfRange :: ErrorCode where "ErrorCodeValueOutOfRange = 37"
definition ErrorCodeWriteAccessDenied :: ErrorCode where "ErrorCodeWriteAccessDenied = 39"
definition ErrorCodeInvalidArrayIndex :: ErrorCode where "ErrorCodeInvalidArrayIndex = 42"

lemmas ErrorCode_defs = ErrorCodeTimeout_def ErrorCodeUnknownObject_def
  ErrorCodeUnknownProperty_def ErrorCodeValueOutOfRange_def ErrorCodeWriteAccessDenied_def
  ErrorCodeInvalidArrayIndex_def

definition AbortReasonSegmentationNotSupported :: byte where
  "AbortReasonSegmentationNotSupported = 4"
definition RejectReasonUnrecognizedService :: byte where
  "RejectReasonUnrecognizedService = 9"

record BACnetError =
  Class :: ErrorClass
  Code :: ErrorCode

section \<open>Errors of the decoders\<close>

datatype tag_error =
    TruncatedTagHeader
  | TruncatedExtendedTagNumber
  | TruncatedExtendedLength
  | TruncatedTwoByteLength
  | TruncatedFourByteLength

datatype value_error =
    EmptyBitString
  | InvalidUnusedBits
  | DateLength nat
  | TimeLength nat
  | ObjectIDLength nat
  | ExpectedApplicationTag byte
  | TruncatedValueData
  | RealLength nat
  | DoubleLength nat
  | EmptyCharacterString
  | UnsupportedApplicationTag byte
  | NestedTooDeep
  | TruncatedContextTagValue byte
  | UCS2OddLength nat
  | UCS4BadLength nat
  | UnsupportedCharset byte

datatype service_error =
    ExpectedContextTag byte bool byte
  | ExpectedOpeningTag byte
  | ExpectedClosingTag byte
  | ExpectedOpening4or5 bool byte
  | UnexpectedResultTag byte
  | IAmValueCount nat
  | IAmWrongTag
  | MalformedErrorSequence nat

datatype pdu_error =
    EmptyAPDU
  | SegmentedRequest
  | SegmentedComplexACK
  | TruncatedConfirmedRequest
  | TruncatedUnconfirmedRequest
  | TruncatedSimpleACK
  | TruncatedComplexACK
  | TruncatedErrorPDU
  | TruncatedReject
  | TruncatedAbort
  | UnsupportedAPDUType byte
  | TruncatedNPDUHeader
  | NetworkLayerMessage
  | TruncatedNPDUDestination
  | TruncatedNPDUSource
  | NPDUWithoutAPDU
  | TruncatedBVLCHeader
  | UnsupportedBVLCType byte
  | UnsupportedBVLCFunction byte
  | BVLCLengthMismatch nat nat

section \<open>All errors\<close>

text \<open>
  \<open>Wrap\<close> is \<^verbatim>\<open>fmt.Errorf("context: %w", err)\<close> and \<open>WrapBoth\<close> the one call with two
  \<^verbatim>\<open>%w\<close> verbs. \<open>ContextError\<close> is what \<^verbatim>\<open>ctx.Err()\<close> returns, \<open>SystemError\<close> an error
  of the operating system's socket calls.
\<close>

datatype error =
    TagErr tag_error
  | ValueErr value_error
  | ServiceErr service_error
  | PduErr pdu_error
  | BACnetErr BACnetError
  | RejectErr byte
  | AbortErr byte
  | ErrTimeout
  | ContextError
  | SystemError
  | TooManyOutstanding
  | UnexpectedAPDUType byte byte
  | UnexpectedListLength
  | UnexpectedDeviceObjectID error
  | Wrap string error
  | WrapBoth error error

type_synonym 'a result = "(error, 'a) res"

text \<open>\<^verbatim>\<open>errors.As\<close> and \<^verbatim>\<open>errors.Is\<close>: the first error of the tree, in preorder, that matches.\<close>

fun errorChain :: "error \<Rightarrow> error list" where
  "errorChain (Wrap c e) = Wrap c e # errorChain e"
| "errorChain (WrapBoth e f) = WrapBoth e f # errorChain e @ errorChain f"
| "errorChain (UnexpectedDeviceObjectID e) = UnexpectedDeviceObjectID e # errorChain e"
| "errorChain e = [e]"

fun firstSome :: "('a \<Rightarrow> 'b option) \<Rightarrow> 'a list \<Rightarrow> 'b option" where
  "firstSome f [] = None"
| "firstSome f (x # xs) = (case f x of None \<Rightarrow> firstSome f xs | Some y \<Rightarrow> Some y)"

definition asBACnetError :: "error \<Rightarrow> BACnetError option" where
  "asBACnetError e = firstSome (\<lambda>x. case x of BACnetErr b \<Rightarrow> Some b | _ \<Rightarrow> None) (errorChain e)"

definition asRejectError :: "error \<Rightarrow> byte option" where
  "asRejectError e = firstSome (\<lambda>x. case x of RejectErr r \<Rightarrow> Some r | _ \<Rightarrow> None) (errorChain e)"

definition asAbortError :: "error \<Rightarrow> byte option" where
  "asAbortError e = firstSome (\<lambda>x. case x of AbortErr r \<Rightarrow> Some r | _ \<Rightarrow> None) (errorChain e)"

definition isErrTimeout :: "error \<Rightarrow> bool" where
  "isErrTimeout e \<longleftrightarrow> ErrTimeout \<in> set (errorChain e)"

text \<open>Adding context to an error never hides what \<^verbatim>\<open>errors.As\<close> and \<^verbatim>\<open>errors.Is\<close> find in it.\<close>

lemma wrap_transparent [simp]:
  "asBACnetError (Wrap c e) = asBACnetError e"
  "asRejectError (Wrap c e) = asRejectError e"
  "asAbortError (Wrap c e) = asAbortError e"
  "isErrTimeout (Wrap c e) = isErrTimeout e"
  by (simp_all add: asBACnetError_def asRejectError_def asAbortError_def isErrTimeout_def)

lemma as_simps [simp]:
  "asBACnetError (BACnetErr b) = Some b"
  "asRejectError (RejectErr r) = Some r"
  "asAbortError (AbortErr r) = Some r"
  "isErrTimeout ErrTimeout"
  by (simp_all add: asBACnetError_def asRejectError_def asAbortError_def isErrTimeout_def)

end
