(* ===== verification/Bacnet_Tag.thy ===== *)
theory Bacnet_Tag
  imports Bacnet_Errors
begin

text \<open>
  \<^verbatim>\<open>internal/bacnet/tag.go\<close>: the tag headers of the BACnet encoding, the opening and closing
  markers of constructed data, and the minimal big-endian integers. The lemmas show that the
  header decoder never panics and stays within its buffer, that it inverts the encoder for
  every tag number, class and length, and that the minimal integers keep their value.
\<close>

section \<open>Constants\<close>

definition TagNull :: byte where "TagNull = 0"
definition TagBoolean :: byte where "TagBoolean = 1"
definition TagUnsignedInt :: byte where "TagUnsignedInt = 2"
definition TagSignedInt :: byte where "TagSignedInt = 3"
definition TagReal :: byte where "TagReal = 4"
definition TagDouble :: byte where "TagDouble = 5"
definition TagOctetString :: byte where "TagOctetString = 6"
definition TagCharacterString :: byte where "TagCharacterString = 7"
definition TagBitString :: byte where "TagBitString = 8"
definition TagEnumerated :: byte where "TagEnumerated = 9"
definition TagDate :: byte where "TagDate = 10"
definition TagTime :: byte where "TagTime = 11"
definition TagObjectID :: byte where "TagObjectID = 12"

lemmas Tag_defs = TagNull_def TagBoolean_def TagUnsignedInt_def TagSignedInt_def TagReal_def
  TagDouble_def TagOctetString_def TagCharacterString_def TagBitString_def TagEnumerated_def
  TagDate_def TagTime_def TagObjectID_def

definition openingLVT :: u32 where "openingLVT = 6"
definition closingLVT :: u32 where "closingLVT = 7"

section \<open>Encoding\<close>

definition appendTagHeader :: "byte list \<Rightarrow> byte \<Rightarrow> bool \<Rightarrow> u32 \<Rightarrow> byte list" where
  "appendTagHeader buf tagNumber context len =
    (let first = (if context then 0x08 else 0);
         first = (if tagNumber < 15 then first OR push_bit 4 tagNumber else first OR 0xF0);
         buf = (if len \<le> 4 then buf @ [first OR ucast len] else buf @ [first OR 0x05]);
         buf = (if tagNumber \<ge> 15 then buf @ [tagNumber] else buf)
     in if len > 4
        then if len \<le> 253 then buf @ [ucast len]
             else if len \<le> 65535 then (buf @ [254]) @ putUint16 (ucast len)
             else (buf @ [255]) @ putUint32 len
        else buf)"

definition appendMarkerTag :: "byte list \<Rightarrow> byte \<Rightarrow> u32 \<Rightarrow> byte list" where
  "appendMarkerTag buf tagNumber lvt =
    (if tagNumber < 15 then buf @ [push_bit 4 tagNumber OR 0x08 OR ucast lvt]
     else buf @ [0xF0 OR 0x08 OR ucast lvt, tagNumber])"

definition appendOpeningTag :: "byte list \<Rightarrow> byte \<Rightarrow> byte list" where
  "appendOpeningTag buf tagNumber = appendMarkerTag buf tagNumber openingLVT"

definition appendClosingTag :: "byte list \<Rightarrow> byte \<Rightarrow> byte list" where
  "appendClosingTag buf tagNumber = appendMarkerTag buf tagNumber closingLVT"

section \<open>Decoding\<close>

record tagInfo =
  Number :: byte
  Context :: bool
  LVT :: u32
  Header :: nat

definition IsOpening :: "tagInfo \<Rightarrow> bool" where
  "IsOpening t \<longleftrightarrow> Context t \<and> LVT t = openingLVT"

definition IsClosing :: "tagInfo \<Rightarrow> bool" where
  "IsClosing t \<longleftrightarrow> Context t \<and> LVT t = closingLVT"

text \<open>The length part of a header: \<open>first\<close> is its first octet, \<open>pos\<close> where the length would follow.\<close>

definition decodeLVT :: "byte list \<Rightarrow> tagInfo \<Rightarrow> byte \<Rightarrow> nat \<Rightarrow> tagInfo result" where
  "decodeLVT buf t first pos =
    (let lvt = ucast (first AND 0x07) :: u32
     in if lvt = 6 \<or> lvt = 7 then Ok (t\<lparr>LVT := lvt, Header := pos\<rparr>)
        else if lvt = 5 then
          if length buf < pos + 1 then Err (TagErr TruncatedExtendedLength)
          else res_bind (index buf pos) (\<lambda>lenByte. let pos = pos + 1 in
            if lenByte < 254 then Ok (t\<lparr>LVT := ucast lenByte, Header := pos\<rparr>)
            else if lenByte = 254 then
              if length buf < pos + 2 then Err (TagErr TruncatedTwoByteLength)
              else res_bind (decAt buf pos getUint16) (\<lambda>n.
                Ok (t\<lparr>LVT := ucast n, Header := pos + 2\<rparr>))
            else
              if length buf < pos + 4 then Err (TagErr TruncatedFourByteLength)
              else res_bind (decAt buf pos getUint32) (\<lambda>n.
                Ok (t\<lparr>LVT := n, Header := pos + 4\<rparr>)))
        else Ok (t\<lparr>LVT := lvt, Header := pos\<rparr>))"

definition decodeTagHeader :: "byte list \<Rightarrow> tagInfo result" where
  "decodeTagHeader buf =
    (if length buf < 1 then Err (TagErr TruncatedTagHeader)
     else res_bind (index buf 0) (\<lambda>first.
       let t = \<lparr>Number = drop_bit 4 first, Context = (first AND 0x08 \<noteq> 0), LVT = 0, Header = 0\<rparr>
       in if Number t = 0x0F then
            if length buf < 2 then Err (TagErr TruncatedExtendedTagNumber)
            else res_bind (index buf 1) (\<lambda>n. decodeLVT buf (t\<lparr>Number := n\<rparr>) first 2)
          else decodeLVT buf t first 1))"

text \<open>\<open>tag_of\<close> is the decoder in the shape of the others: the header and the octets it took.\<close>

definition tag_of :: "byte list \<Rightarrow> (tagInfo \<times> nat) result" where
  "tag_of b = res_bind (decodeTagHeader b) (\<lambda>t. Ok (t, Header t))"

lemma decodeLVT_bound:
  assumes "decodeLVT buf t first pos = Ok t'" and "pos \<le> length buf"
  shows "pos \<le> Header t' \<and> Header t' \<le> length buf \<and> Number t' = Number t \<and> Context t' = Context t"
  using assms
  by (auto simp: decodeLVT_def Let_def res_bind_Ok_iff split: if_splits)

lemma decodeLVT_safe: "pos \<le> length buf \<Longrightarrow> safe (decodeLVT buf t first pos)"
  by (auto simp: decodeLVT_def Let_def decAt_drop intro!: safe_intros)

lemma decodeTagHeader_safe [safe_intros]: "safe (decodeTagHeader buf)"
  by (auto simp: decodeTagHeader_def Let_def Suc_le_eq intro!: safe_intros decodeLVT_safe)

lemma decodeTagHeader_bound:
  assumes "decodeTagHeader buf = Ok t"
  shows "1 \<le> Header t \<and> Header t \<le> length buf"
  using assms
  by (auto simp: decodeTagHeader_def Let_def res_bind_Ok_iff Suc_le_eq split: if_splits
      dest!: decodeLVT_bound)

lemma decodeTagHeader_pos: "decodeTagHeader buf = Ok t \<Longrightarrow> 0 < Header t"
  by (auto dest: decodeTagHeader_bound)

interpretation tag: decoder_contract tag_of
proof
  show "safe (tag_of b)" for b
    by (auto simp: tag_of_def intro!: safe_intros)
  show "n \<le> length b" if "tag_of b = Ok (t, n)" for b t n
    using that by (auto simp: tag_of_def res_bind_Ok_iff dest: decodeTagHeader_bound)
qed


section \<open>Round trips\<close>

text \<open>The first octet of a header: tag number, class and length field can be read back from it.\<close>

definition packOctet :: "byte \<Rightarrow> bool \<Rightarrow> u32 \<Rightarrow> byte" where
  "packOctet n c l = push_bit 4 n OR push_bit 3 (of_bool c) OR ucast l"

lemma and_8_iff_bit: "(x :: byte) AND 8 \<noteq> 0 \<longleftrightarrow> bit x 3"
  using and_exp_eq_0_iff_not_bit [of x 3] by simp

lemma and_7_take_bit: "(x :: byte) AND 7 = take_bit 3 x"
  by (simp add: take_bit_eq_mask mask_eq_exp_minus_1)

lemma take_bit_less: "(x :: 'a::len word) < 2 ^ n \<Longrightarrow> take_bit n x = x"
  by (simp add: less_mask_eq take_bit_eq_mask)

lemma packOctet_number:
  assumes "n < 16" and "l < 8"
  shows "drop_bit 4 (packOctet n c l) = n"
proof -
  have n: "take_bit 4 n = n" and l: "take_bit 3 l = l"
    using assms take_bit_less [of n 4] take_bit_less [of l 3] by simp_all
  have "drop_bit 4 (packOctet (take_bit 4 n) c (take_bit 3 l)) = take_bit 4 n"
    by (rule bit_word_eqI) (auto simp: packOctet_def bit_simps)
  then show ?thesis by (simp add: n l)
qed

lemma packOctet_context:
  assumes "n < 16" and "l < 8"
  shows "(packOctet n c l AND 8 \<noteq> 0) = c"
proof -
  have l: "take_bit 3 l = l" using assms take_bit_less [of l 3] by simp
  have "bit (packOctet n c (take_bit 3 l)) 3 = c"
    by (auto simp: packOctet_def bit_simps)
  then show ?thesis by (simp add: and_8_iff_bit l)
qed

lemma packOctet_lvt:
  assumes "n < 16" and "l < 8"
  shows "ucast (packOctet n c l AND 7) = l"
proof -
  have l: "take_bit 3 l = l" using assms take_bit_less [of l 3] by simp
  have "ucast (take_bit 3 (packOctet n c (take_bit 3 l))) = take_bit 3 l"
    by (rule bit_word_eqI) (auto simp: packOctet_def bit_simps)
  then show ?thesis by (simp add: and_7_take_bit l)
qed

lemmas packOctet_simps = packOctet_number packOctet_context packOctet_lvt

text \<open>The header as the octets it appends, whatever the buffer holds already.\<close>

definition lengthOctets :: "u32 \<Rightarrow> byte list" where
  "lengthOctets l =
    (if l \<le> 4 then [] else if l \<le> 253 then [ucast l]
     else if l \<le> 65535 then 254 # putUint16 (ucast l) else 255 # putUint32 l)"

definition tagHeader :: "byte \<Rightarrow> bool \<Rightarrow> u32 \<Rightarrow> byte list" where
  "tagHeader t c l =
    packOctet (if t < 15 then t else 15) c (if l \<le> 4 then l else 5)
      # (if t < 15 then [] else [t]) @ lengthOctets l"

lemma appendTagHeader_eq: "appendTagHeader buf t c l = buf @ tagHeader t c l"
proof -
  have neg: "4 < l \<longleftrightarrow> \<not> l \<le> 4" "15 \<le> t \<longleftrightarrow> \<not> t < 15" by auto
  show ?thesis
    by (cases c; cases "t < 15"; cases "l \<le> 4")
      (simp_all add: appendTagHeader_def tagHeader_def lengthOctets_def packOctet_def Let_def
        neg or.assoc or.commute [of 8 "push_bit 4 t"]
        or.left_commute [of 8 "push_bit 4 t"] or.left_commute [of 8 240])
qed

lemma tagHeader_not_Nil [simp]: "tagHeader t c l \<noteq> []"
  by (simp add: tagHeader_def)

lemma ucast_ucast_small:
  assumes "(l :: u32) \<le> 253"
  shows "ucast (ucast l :: byte) = l" and "(ucast l :: byte) < 254"
proof -
  have "unat l \<le> 253" using assms by (simp add: word_le_nat_alt)
  then show "ucast (ucast l :: byte) = l" and "(ucast l :: byte) < 254"
    by (simp_all add: word_unat_eq_iff word_less_nat_alt unsigned_ucast_eq take_bit_eq_mod unat_mod)
qed

lemma ucast_ucast_16:
  assumes "(l :: u32) \<le> 65535"
  shows "ucast (ucast l :: u16) = l"
proof -
  have "unat l \<le> 65535" using assms by (simp add: word_le_nat_alt)
  then show ?thesis by (simp add: word_unat_eq_iff unsigned_ucast_eq take_bit_eq_mod unat_mod)
qed

lemma decodeLVT_roundtrip:
  assumes "ucast (first AND 7) = (if l \<le> 4 then l else 5)"
  shows "decodeLVT (pre @ lengthOctets l @ r) t first (length pre)
    = Ok (t\<lparr>LVT := l, Header := length pre + length (lengthOctets l)\<rparr>)"
proof (cases "l \<le> 4")
  case True
  then have "l \<noteq> 5" "l \<noteq> 6" "l \<noteq> 7" by auto
  with True assms show ?thesis by (simp add: decodeLVT_def lengthOctets_def Let_def)
next
  case False
  with assms show ?thesis
    using ucast_ucast_small [of l] ucast_ucast_16 [of l]
    by (auto simp: decodeLVT_def lengthOctets_def Let_def index_def nth_append)
qed

lemma decodeTagHeader_roundtrip:
  "decodeTagHeader (tagHeader t c l @ r)
    = Ok \<lparr>Number = t, Context = c, LVT = l, Header = length (tagHeader t c l)\<rparr>"
proof -
  let ?n = "if t < 15 then t else 15" and ?l = "if l \<le> 4 then l else 5"
  let ?f = "packOctet ?n c ?l"
  have n: "?n < 16" by (auto simp: less_trans [of t 15 16])
  have l: "?l < 8" by (auto simp: le_less_trans [of l 4 8])
  note f = packOctet_simps [OF n l]
  show ?thesis
  proof (cases "t < 15")
    case True
    then have "t \<noteq> 15" by auto
    with True f decodeLVT_roundtrip [of ?f l "[?f]" r] show ?thesis
      by (simp add: decodeTagHeader_def tagHeader_def Let_def)
  next
    case False
    with f decodeLVT_roundtrip [of ?f l "[?f, t]" r] show ?thesis
      by (simp add: decodeTagHeader_def tagHeader_def Let_def numeral_2_eq_2)
  qed
qed

section \<open>Markers\<close>

definition markerTag :: "byte \<Rightarrow> u32 \<Rightarrow> byte list" where
  "markerTag t lvt = packOctet (if t < 15 then t else 15) True lvt # (if t < 15 then [] else [t])"

abbreviation "openingTag t \<equiv> markerTag t openingLVT"
abbreviation "closingTag t \<equiv> markerTag t closingLVT"

lemma markerTag_not_Nil [simp]: "markerTag t l \<noteq> []"
  by (simp add: markerTag_def)

lemma appendMarker_eq:
  "appendOpeningTag buf t = buf @ openingTag t"
  "appendClosingTag buf t = buf @ closingTag t"
  by (simp_all add: appendOpeningTag_def appendClosingTag_def appendMarkerTag_def markerTag_def
      packOctet_def)

lemma decodeTagHeader_marker:
  assumes "lvt = openingLVT \<or> lvt = closingLVT"
  shows "decodeTagHeader (markerTag t lvt @ r)
    = Ok \<lparr>Number = t, Context = True, LVT = lvt, Header = length (markerTag t lvt)\<rparr>"
proof -
  let ?n = "if t < 15 then t else 15"
  let ?f = "packOctet ?n True lvt"
  have n: "?n < 16" by (auto simp: less_trans [of t 15 16])
  have l: "lvt < 8" using assms by (auto simp: openingLVT_def closingLVT_def)
  note f = packOctet_simps [OF n l]
  have lvt: "lvt = 6 \<or> lvt = 7" using assms by (simp add: openingLVT_def closingLVT_def)
  show ?thesis
  proof (cases "t < 15")
    case True
    then have "t \<noteq> 15" by auto
    with True f lvt show ?thesis
      by (auto simp: decodeTagHeader_def decodeLVT_def markerTag_def Let_def)
  next
    case False
    with f lvt show ?thesis
      by (auto simp: decodeTagHeader_def decodeLVT_def markerTag_def Let_def numeral_2_eq_2)
  qed
qed

lemma IsOpening_marker [simp]:
  "IsOpening \<lparr>Number = t, Context = c, LVT = openingLVT, Header = h\<rparr> = c"
  "IsClosing \<lparr>Number = t, Context = c, LVT = closingLVT, Header = h\<rparr> = c"
  "\<not> IsClosing \<lparr>Number = t, Context = c, LVT = openingLVT, Header = h\<rparr>"
  "\<not> IsOpening \<lparr>Number = t, Context = c, LVT = closingLVT, Header = h\<rparr>"
  by (simp_all add: IsOpening_def IsClosing_def openingLVT_def closingLVT_def)

section \<open>Minimal integers\<close>

text \<open>
  The loops of \<^verbatim>\<open>minUnsignedBytes\<close> and \<^verbatim>\<open>minSignedBytes\<close> advance \<^verbatim>\<open>i\<close> over the eight
  octets in \<^verbatim>\<open>tmp\<close> while \<^verbatim>\<open>i < 7\<close>; here the argument is \<^verbatim>\<open>tmp[i:]\<close>, and \<^verbatim>\<open>i < 7\<close>
  says that at least two octets are left.
\<close>

fun skipZeros :: "byte list \<Rightarrow> byte list" where
  "skipZeros (b # c # bs) = (if b = 0 then skipZeros (c # bs) else b # c # bs)"
| "skipZeros bs = bs"

definition minUnsignedBytes :: "u64 \<Rightarrow> byte list" where
  "minUnsignedBytes v = skipZeros (putUint64 v)"

fun skipSign :: "byte list \<Rightarrow> byte list" where
  "skipSign (b # next # bs) =
    (if (b = 0x00 \<and> next AND 0x80 = 0) \<or> (b = 0xFF \<and> next AND 0x80 \<noteq> 0)
     then skipSign (next # bs) else b # next # bs)"
| "skipSign bs = bs"

definition minSignedBytes :: "u64 \<Rightarrow> byte list" where
  "minSignedBytes v = skipSign (putUint64 v)"

definition be_signed :: "byte list \<Rightarrow> u64" where
  "be_signed bs = (case bs of [] \<Rightarrow> 0 | b # bs \<Rightarrow> be_fold (scast b) bs)"

lemma skipZeros_value: "be_fold (0 :: u64) (skipZeros bs) = be_fold 0 bs"
  by (induction bs rule: skipZeros.induct) auto

lemma skipZeros_length: "length (skipZeros bs) \<le> length bs"
  by (induction bs rule: skipZeros.induct) auto

lemma skipZeros_Nil_iff: "skipZeros bs = [] \<longleftrightarrow> bs = []"
  by (induction bs rule: skipZeros.induct) auto

lemma skipSign_length: "length (skipSign bs) \<le> length bs"
  by (induction bs rule: skipSign.induct) auto

lemma skipSign_Nil_iff: "skipSign bs = [] \<longleftrightarrow> bs = []"
  by (induction bs rule: skipSign.induct) auto

lemma minUnsignedBytes_length: "1 \<le> length (minUnsignedBytes v) \<and> length (minUnsignedBytes v) \<le> 8"
proof -
  have "minUnsignedBytes v \<noteq> []"
    by (simp add: minUnsignedBytes_def skipZeros_Nil_iff putUint64_def)
  then show ?thesis
    using skipZeros_length [of "putUint64 v"] by (simp add: minUnsignedBytes_def Suc_le_eq)
qed

lemma minSignedBytes_length: "1 \<le> length (minSignedBytes v) \<and> length (minSignedBytes v) \<le> 8"
proof -
  have "minSignedBytes v \<noteq> []"
    by (simp add: minSignedBytes_def skipSign_Nil_iff putUint64_def)
  then show ?thesis
    using skipSign_length [of "putUint64 v"] by (simp add: minSignedBytes_def Suc_le_eq)
qed

lemma minUnsignedBytes_value: "be_fold 0 (minUnsignedBytes v) = v"
  by (simp add: minUnsignedBytes_def skipZeros_value be_fold_put64)

lemma and_0x80_iff_bit: "(x :: byte) AND 0x80 = 0 \<longleftrightarrow> \<not> bit x 7"
  using and_exp_eq_0_iff_not_bit [of x 7] by simp

lemma sign_extend_step:
  assumes "(b = 0 \<and> \<not> bit c 7) \<or> (b = 0xFF \<and> bit c 7)"
  shows "push_bit 8 (scast (b :: byte)) OR ucast (c :: byte) = (scast c :: u64)"
proof (rule bit_word_eqI)
  fix n assume n: "n < LENGTH(64)"
  have "bit (push_bit 8 (scast b :: u64)) n \<longleftrightarrow> 8 \<le> n \<and> bit b (min 7 (n - 8))"
    using n by (auto simp: bit_simps)
  moreover have "bit b k \<longleftrightarrow> bit c 7" if "k \<le> 7" for k
  proof -
    have "(0xFF :: byte) = - 1" by simp
    with assms that show ?thesis by (auto simp: bit_simps)
  qed
  ultimately show "bit (push_bit 8 (scast b) OR ucast c :: u64) n = bit (scast c :: u64) n"
    using n by (cases "n = 7") (auto simp: bit_simps min_def not_le dest: bit_imp_le_length)
qed

lemma skipSign_value: "be_signed (skipSign bs) = be_signed bs"
  by (induction bs rule: skipSign.induct)
    (auto simp: be_signed_def and_0x80_iff_bit sign_extend_step split: list.splits)

lemma be_signed_put64: "be_signed (putUint64 v) = v"
proof -
  obtain b bs where put: "putUint64 v = b # bs" and len: "length bs = 7"
    by (simp add: putUint64_def)
  have "push_bit 56 (scast b :: u64) = push_bit 56 (ucast b)"
    by (rule bit_word_eqI) (auto simp: bit_simps)
  then have "be_signed (putUint64 v) = be_fold 0 (putUint64 v)"
    using be_fold_split [of "scast b :: u64" bs] be_fold_split [of "ucast b :: u64" bs]
    by (simp add: put len be_signed_def)
  then show ?thesis by (simp add: be_fold_put64)
qed

lemma minSignedBytes_value: "be_signed (minSignedBytes v) = v"
  by (simp add: minSignedBytes_def skipSign_value be_signed_put64)

end
