(* ===== verification/Bacnet_Objects.thy ===== *)
theory Bacnet_Objects
  imports Bacnet_Errors Go_Strings
begin

text \<open>
  \<^verbatim>\<open>internal/bacnet/objects.go\<close>: object types and property identifiers, their names in the
  REST interface, and parsing of both. The lemmas show that the printed form of a type or
  property is always accepted again and denotes the same number.
\<close>

type_synonym ObjectType = u32
type_synonym PropertyIdentifier = u32

definition ObjectAnalogInput :: ObjectType where "ObjectAnalogInput = 0"
definition ObjectAnalogOutput :: ObjectType where "ObjectAnalogOutput = 1"
definition ObjectAnalogValue :: ObjectType where "ObjectAnalogValue = 2"
definition ObjectBinaryInput :: ObjectType where "ObjectBinaryInput = 3"
definition ObjectBinaryOutput :: ObjectType where "ObjectBinaryOutput = 4"
definition ObjectBinaryValue :: ObjectType where "ObjectBinaryValue = 5"
definition ObjectDevice :: ObjectType where "ObjectDevice = 8"
definition ObjectMultiStateInput :: ObjectType where "ObjectMultiStateInput = 13"
definition ObjectMultiStateOutput :: ObjectType where "ObjectMultiStateOutput = 14"
definition ObjectMultiStateValue :: ObjectType where "ObjectMultiStateValue = 19"

lemmas Object_defs = ObjectAnalogInput_def ObjectAnalogOutput_def ObjectAnalogValue_def
  ObjectBinaryInput_def ObjectBinaryOutput_def ObjectBinaryValue_def ObjectDevice_def
  ObjectMultiStateInput_def ObjectMultiStateOutput_def ObjectMultiStateValue_def

definition DeviceInstanceWildcard :: u32 where "DeviceInstanceWildcard = 4194303"

definition objectTypeNames :: "string list" where
  "objectTypeNames =
    [''analog-input'', ''analog-output'', ''analog-value'', ''binary-input'',
     ''binary-output'', ''binary-value'', ''calendar'', ''command'', ''device'',
     ''event-enrollment'', ''file'', ''group'', ''loop'', ''multi-state-input'',
     ''multi-state-output'', ''notification-class'', ''program'', ''schedule'',
     ''averaging'', ''multi-state-value'', ''trend-log'', ''life-safety-point'',
     ''life-safety-zone'', ''accumulator'', ''pulse-converter'', ''event-log'',
     ''global-group'', ''trend-log-multiple'', ''load-control'',
     ''structured-view'', ''access-door'', ''timer'', ''access-credential'',
     ''access-point'', ''access-rights'', ''access-user'', ''access-zone'',
     ''credential-data-input'', ''network-security'', ''bitstring-value'',
     ''characterstring-value'', ''datepattern-value'', ''date-value'',
     ''datetimepattern-value'', ''datetime-value'', ''integer-value'',
     ''large-analog-value'', ''octetstring-value'', ''positive-integer-value'',
     ''timepattern-value'', ''time-value'', ''notification-forwarder'',
     ''alert-enrollment'', ''channel'', ''lighting-output'',
     ''binary-lighting-output'', ''network-port'', ''elevator-group'',
     ''escalator'', ''lift'', ''staging'', ''audit-log'', ''audit-reporter'',
     ''color'', ''color-temperature'']"

text \<open>
  The two Go maps of each kind, from number to name and back, as association lists; the
  second is built by swapping the first, as the code does.
\<close>

definition objectTypeTable :: "(ObjectType \<times> string) list" where
  "objectTypeTable = map (\<lambda>i. (word_of_nat i, objectTypeNames ! i)) [0..<length objectTypeNames]"

definition PropObjectID :: PropertyIdentifier where "PropObjectID = 75"
definition PropObjectName :: PropertyIdentifier where "PropObjectName = 77"
definition PropPresentValue :: PropertyIdentifier where "PropPresentValue = 85"
definition PropDescription :: PropertyIdentifier where "PropDescription = 28"
definition PropStatusFlags :: PropertyIdentifier where "PropStatusFlags = 111"
definition PropUnits :: PropertyIdentifier where "PropUnits = 117"
definition PropObjectList :: PropertyIdentifier where "PropObjectList = 76"
definition PropVendorName :: PropertyIdentifier where "PropVendorName = 121"
definition PropModelName :: PropertyIdentifier where "PropModelName = 70"

lemmas Prop_defs = PropObjectID_def PropObjectName_def PropPresentValue_def PropDescription_def
  PropStatusFlags_def PropUnits_def PropObjectList_def PropVendorName_def PropModelName_def

definition propertyNames :: "(PropertyIdentifier \<times> string) list" where
  "propertyNames =
    [(75, ''object-identifier''), (77, ''object-name''), (79, ''object-type''),
     (85, ''present-value''), (28, ''description''), (111, ''status-flags''),
     (36, ''event-state''), (81, ''out-of-service''), (117, ''units''),
     (87, ''priority-array''), (104, ''relinquish-default''), (76, ''object-list''),
     (121, ''vendor-name''), (70, ''model-name''), (44, ''firmware-revision''),
     (12, ''application-software-version''), (74, ''number-of-states''),
     (4, ''active-text''), (23, ''date-list''), (32, ''effective-period''),
     (38, ''exception-schedule''), (46, ''inactive-text''), (56, ''local-date''),
     (57, ''local-time''), (103, ''reliability''), (110, ''state-text''),
     (112, ''system-status''), (120, ''vendor-identifier''), (123, ''weekly-schedule''),
     (130, ''event-time-stamps''), (131, ''log-buffer''), (139, ''protocol-revision''),
     (174, ''schedule-default'')]"

definition swapTable :: "('a \<times> 'b) list \<Rightarrow> ('b \<times> 'a) list" where
  "swapTable t = map (\<lambda>(a, b). (b, a)) t"

definition objectTypeByName :: "string \<rightharpoonup> ObjectType" where
  "objectTypeByName = map_of (swapTable objectTypeTable)"

definition propertyByName :: "string \<rightharpoonup> PropertyIdentifier" where
  "propertyByName = map_of (swapTable propertyNames)"

definition numbered :: "string \<Rightarrow> u32 \<Rightarrow> string" where
  "numbered prefix n = prefix @ ''('' @ showNat (unat n) @ '')''"

definition ObjectType_String :: "ObjectType \<Rightarrow> string" where
  "ObjectType_String t =
    (case map_of objectTypeTable t of Some name \<Rightarrow> name | None \<Rightarrow> numbered ''object-type'' t)"

definition PropertyIdentifier_String :: "PropertyIdentifier \<Rightarrow> string" where
  "PropertyIdentifier_String p =
    (case map_of propertyNames p of Some name \<Rightarrow> name | None \<Rightarrow> numbered ''property'' p)"

definition parseNumbered :: "string \<Rightarrow> string \<Rightarrow> nat \<Rightarrow> u32 option" where
  "parseNumbered s prefix limit =
    (let number = (\<lambda>s. case ParseUint s 32 of None \<Rightarrow> None
        | Some n \<Rightarrow> if n > limit then None else Some (word_of_nat n))
     in case CutPrefix s (prefix @ ''('') of
          Some inner \<Rightarrow> (case CutSuffix inner '')'' of None \<Rightarrow> None | Some s \<Rightarrow> number s)
        | None \<Rightarrow> number s)"

text \<open>\<open>None\<close> is the error "unknown object type" or "unknown property" of the given name.\<close>

definition ParseObjectType :: "string \<Rightarrow> ObjectType option" where
  "ParseObjectType name =
    (case objectTypeByName name of Some t \<Rightarrow> Some t
     | None \<Rightarrow> parseNumbered name ''object-type'' 1023)"

definition ParsePropertyIdentifier :: "string \<Rightarrow> PropertyIdentifier option" where
  "ParsePropertyIdentifier name =
    (case propertyByName name of Some p \<Rightarrow> Some p
     | None \<Rightarrow> parseNumbered name ''property'' 4194303)"

definition Commandable :: "ObjectType \<Rightarrow> PropertyIdentifier \<Rightarrow> bool" where
  "Commandable objType prop \<longleftrightarrow> prop = PropPresentValue \<and>
    objType \<in> {ObjectAnalogOutput, ObjectBinaryOutput, ObjectMultiStateOutput,
      ObjectAnalogValue, ObjectBinaryValue, ObjectMultiStateValue}"

section \<open>Names are unique and never look like a number\<close>

definition plainName :: "string \<Rightarrow> bool" where
  "plainName s \<longleftrightarrow> s \<noteq> [] \<and> CHR ''('' \<notin> set s \<and> \<not> isDigit (hd s)"

lemma objectTypeNames_ok: "distinct objectTypeNames \<and> list_all plainName objectTypeNames"
  by code_simp

lemma propertyNames_ok:
  "distinct (map snd propertyNames) \<and> distinct (map fst propertyNames) \<and> list_all plainName (map snd propertyNames)"
  by code_simp

lemma length_objectTypeNames: "length objectTypeNames = 65"
  by (simp add: objectTypeNames_def)

section \<open>Parsing what was printed\<close>

lemma swapTable_lookup:
  assumes "distinct (map snd t)" and "map_of t a = Some b"
  shows "map_of (swapTable t) b = Some a"
proof -
  have "(b, a) \<in> set (swapTable t)"
    using map_of_SomeD [OF assms(2)] by (force simp: swapTable_def)
  moreover have "distinct (map fst (swapTable t))"
    using assms(1) by (simp add: swapTable_def comp_def case_prod_beta)
  ultimately show ?thesis by simp
qed

lemma swapTable_None: "b \<notin> snd ` set t \<Longrightarrow> map_of (swapTable t) b = None"
  by (force simp: map_of_eq_None_iff swapTable_def)

lemma objectTypeTable_names: "map snd objectTypeTable = objectTypeNames"
  by (simp add: objectTypeTable_def comp_def map_nth)

lemma numbered_not_plain: "\<not> plainName (numbered prefix n)"
  by (simp add: plainName_def numbered_def)

lemma showNat_not_plain: "\<not> plainName (showNat n)"
  using showNat_digits [of n] by (cases "showNat n") (auto simp: plainName_def)

lemma byName_None:
  assumes "\<not> plainName s"
  shows "objectTypeByName s = None" and "propertyByName s = None"
proof -
  have "s \<notin> snd ` set objectTypeTable"
    using assms objectTypeNames_ok objectTypeTable_names
    by (metis list.pred_set set_map)
  then show "objectTypeByName s = None" unfolding objectTypeByName_def by (rule swapTable_None)
  have "s \<notin> snd ` set propertyNames"
    using assms propertyNames_ok by (metis list.pred_set set_map)
  then show "propertyByName s = None" unfolding propertyByName_def by (rule swapTable_None)
qed

lemma parseNumbered_numbered:
  assumes "unat n \<le> limit"
  shows "parseNumbered (numbered prefix n) prefix limit = Some n"
proof -
  have n: "ParseUint (showNat (unat n)) 32 = Some (unat n)"
    using unsigned_less [of n, where ?'a = nat] by (simp add: ParseUint_showNat)
  have "CutPrefix (numbered prefix n) (prefix @ ''('') = Some (showNat (unat n) @ '')'')"
    using CutPrefix_append [of "prefix @ ''(''"] by (simp add: numbered_def)
  then show ?thesis using assms n by (simp add: parseNumbered_def Let_def)
qed

lemma parseNumbered_bare:
  assumes "unat n \<le> limit" and "prefix \<noteq> []" and "\<not> isDigit (hd prefix)"
  shows "parseNumbered (showNat (unat n)) prefix limit = Some n"
proof -
  have n: "ParseUint (showNat (unat n)) 32 = Some (unat n)"
    using unsigned_less [of n, where ?'a = nat] by (simp add: ParseUint_showNat)
  have "CutPrefix (showNat (unat n)) (prefix @ ''('') = None"
  proof (rule ccontr)
    assume "CutPrefix (showNat (unat n)) (prefix @ ''('') \<noteq> None"
    then obtain r where "showNat (unat n) = (prefix @ ''('') @ r"
      using CutPrefix_SomeD by blast
    with showNat_digits [of "unat n"] assms(2,3) show False by (cases prefix) auto
  qed
  then show ?thesis using assms(1) n by (simp add: parseNumbered_def Let_def)
qed

lemma parseNumbered_bound: "parseNumbered s prefix limit = Some n \<Longrightarrow> unat n \<le> limit"
  by (auto simp: parseNumbered_def Let_def unat_of_nat split: option.splits if_splits
      intro: order_trans [OF mod_less_eq_dividend])

lemma parse_named:
  "map_of objectTypeTable t = Some name \<Longrightarrow> objectTypeByName name = Some t"
  "map_of propertyNames p = Some name \<Longrightarrow> propertyByName name = Some p"
  using objectTypeNames_ok propertyNames_ok
  by (auto simp: objectTypeByName_def propertyByName_def objectTypeTable_names intro: swapTable_lookup)

lemma ParseObjectType_String: "unat t \<le> 1023 \<Longrightarrow> ParseObjectType (ObjectType_String t) = Some t"
  by (cases "map_of objectTypeTable t")
    (auto simp: ParseObjectType_def ObjectType_String_def parse_named byName_None
      numbered_not_plain parseNumbered_numbered)

lemma ParsePropertyIdentifier_String:
  "unat p \<le> 4194303 \<Longrightarrow> ParsePropertyIdentifier (PropertyIdentifier_String p) = Some p"
  by (cases "map_of propertyNames p")
    (auto simp: ParsePropertyIdentifier_def PropertyIdentifier_String_def parse_named byName_None
      numbered_not_plain parseNumbered_numbered)

lemma ParseObjectType_bare: "unat t \<le> 1023 \<Longrightarrow> ParseObjectType (showNat (unat t)) = Some t"
  by (simp add: ParseObjectType_def byName_None showNat_not_plain parseNumbered_bare isDigit_def)

lemma ParsePropertyIdentifier_bare:
  "unat p \<le> 4194303 \<Longrightarrow> ParsePropertyIdentifier (showNat (unat p)) = Some p"
  by (simp add: ParsePropertyIdentifier_def byName_None showNat_not_plain parseNumbered_bare isDigit_def)

text \<open>A parsed type fits the 10-bit, a parsed property the 22-bit field it is sent in.\<close>

lemma objectTypeTable_bound: "(t, name) \<in> set objectTypeTable \<Longrightarrow> unat t \<le> 1023"
  using length_objectTypeNames
  by (auto simp: objectTypeTable_def unat_of_nat intro: order_trans [OF mod_less_eq_dividend])

lemma ParseObjectType_bound: "ParseObjectType s = Some t \<Longrightarrow> unat t \<le> 1023"
  by (auto simp: ParseObjectType_def objectTypeByName_def swapTable_def
      dest!: map_of_SomeD dest: objectTypeTable_bound parseNumbered_bound split: option.splits)

lemma propertyNames_bound: "list_all (\<lambda>(p, _). p \<le> 4194303) propertyNames"
  by code_simp

lemma ParsePropertyIdentifier_bound:
  "ParsePropertyIdentifier s = Some p \<Longrightarrow> unat p \<le> 4194303"
  using propertyNames_bound
  by (auto simp: ParsePropertyIdentifier_def propertyByName_def swapTable_def list_all_iff
      word_le_nat_alt dest!: map_of_SomeD dest: parseNumbered_bound split: option.splits)

end
