(* ===== verification/Go_Text.thy ===== *)
theory Go_Text
  imports Prelude
begin

text \<open>
  The text functions of the Go standard library that the decoders rely on: UTF-8 decoding and
  encoding of one rune, \<^verbatim>\<open>strings.ToValidUTF8\<close>, \<^verbatim>\<open>utf16.Decode\<close> and the conversion of a
  slice of runes to a string. A Go string is a sequence of octets, which is what \<open>string\<close> is
  in HOL. The lemmas show that whatever comes out of these functions is valid UTF-8 and that
  valid UTF-8 is left alone.
\<close>

section \<open>Octets and characters\<close>

definition byte_of_char :: "char \<Rightarrow> byte" where
  "byte_of_char c = word_of_nat (of_char c)"

definition char_of_byte :: "byte \<Rightarrow> char" where
  "char_of_byte b = char_of (unat b)"

lemma byte_of_char_inverse [simp]: "char_of_byte (byte_of_char c) = c"
  by (simp add: char_of_byte_def byte_of_char_def unat_of_nat)

lemma char_of_byte_inverse [simp]: "byte_of_char (char_of_byte b) = b"
proof -
  have "unat b < 256" using unsigned_less [of b, where ?'a = nat] by simp
  then show ?thesis by (simp add: char_of_byte_def byte_of_char_def)
qed

definition bytesOf :: "string \<Rightarrow> byte list" where
  "bytesOf s = map byte_of_char s"

definition stringOf :: "byte list \<Rightarrow> string" where
  "stringOf bs = map char_of_byte bs"

lemma stringOf_bytesOf [simp]: "stringOf (bytesOf s) = s"
  by (simp add: stringOf_def bytesOf_def comp_def)

lemma bytesOf_stringOf [simp]: "bytesOf (stringOf bs) = bs"
  by (simp add: stringOf_def bytesOf_def comp_def)

lemma length_bytesOf [simp]: "length (bytesOf s) = length s"
  by (simp add: bytesOf_def)

lemma length_stringOf [simp]: "length (stringOf bs) = length bs"
  by (simp add: stringOf_def)

section \<open>One rune\<close>

type_synonym rune = int

definition RuneError :: rune where "RuneError = 0xFFFD"

definition cont :: "byte \<Rightarrow> bool" where
  "cont b \<longleftrightarrow> 0x80 \<le> b \<and> b \<le> 0xBF"

definition low6 :: "byte \<Rightarrow> int" where
  "low6 b = uint b mod 64"

text \<open>\<^verbatim>\<open>utf8.DecodeRune\<close>: the rune and its width; width 1 with \<open>RuneError\<close> marks an invalid octet.\<close>

fun decodeRune :: "byte list \<Rightarrow> rune \<times> nat" where
  "decodeRune [] = (RuneError, 0)"
| "decodeRune (b0 # bs) =
    (if b0 < 0x80 then (uint b0, 1)
     else if 0xC2 \<le> b0 \<and> b0 \<le> 0xDF then
       (case bs of b1 # _ \<Rightarrow>
          if cont b1 then ((uint b0 - 0xC0) * 64 + low6 b1, 2) else (RuneError, 1)
        | _ \<Rightarrow> (RuneError, 1))
     else if 0xE0 \<le> b0 \<and> b0 \<le> 0xEF then
       (case bs of b1 # b2 # _ \<Rightarrow>
          if (if b0 = 0xE0 then 0xA0 else 0x80) \<le> b1 \<and> b1 \<le> (if b0 = 0xED then 0x9F else 0xBF) \<and> cont b2
          then ((uint b0 - 0xE0) * 4096 + low6 b1 * 64 + low6 b2, 3) else (RuneError, 1)
        | _ \<Rightarrow> (RuneError, 1))
     else if 0xF0 \<le> b0 \<and> b0 \<le> 0xF4 then
       (case bs of b1 # b2 # b3 # _ \<Rightarrow>
          if (if b0 = 0xF0 then 0x90 else 0x80) \<le> b1 \<and> b1 \<le> (if b0 = 0xF4 then 0x8F else 0xBF)
             \<and> cont b2 \<and> cont b3
          then ((uint b0 - 0xF0) * 262144 + low6 b1 * 4096 + low6 b2 * 64 + low6 b3, 4)
          else (RuneError, 1)
        | _ \<Rightarrow> (RuneError, 1))
     else (RuneError, 1))"

definition validRune :: "rune \<Rightarrow> bool" where
  "validRune r \<longleftrightarrow> (0 \<le> r \<and> r < 0xD800) \<or> (0xDFFF < r \<and> r \<le> 0x10FFFF)"

text \<open>\<^verbatim>\<open>utf8.AppendRune\<close>: a rune that is no code point is encoded as \<open>RuneError\<close>.\<close>

definition octet :: "int \<Rightarrow> byte" where "octet x = word_of_int x"

definition encodeRune :: "rune \<Rightarrow> byte list" where
  "encodeRune r0 =
    (let r = (if validRune r0 then r0 else RuneError) in
     if r \<le> 0x7F then [octet r]
     else if r \<le> 0x7FF then [octet (0xC0 + r div 64), octet (0x80 + r mod 64)]
     else if r \<le> 0xFFFF then
       [octet (0xE0 + r div 4096), octet (0x80 + r div 64 mod 64), octet (0x80 + r mod 64)]
     else
       [octet (0xF0 + r div 262144), octet (0x80 + r div 4096 mod 64),
        octet (0x80 + r div 64 mod 64), octet (0x80 + r mod 64)])"

lemma decodeRune_width: "snd (decodeRune bs) \<le> length bs"
  by (cases bs) (auto split: list.splits)

lemma decodeRune_width_pos: "bs \<noteq> [] \<Longrightarrow> 1 \<le> snd (decodeRune bs)"
  by (cases bs) (auto split: list.splits)

lemma uint_octet: "0 \<le> x \<Longrightarrow> x < 256 \<Longrightarrow> uint (octet x) = x"
  by (simp add: octet_def uint_word_of_int)

lemma cont_octet:
  assumes "0 \<le> c" "c < 64"
  shows "cont (octet (0x80 + c))" and "low6 (octet (0x80 + c)) = c"
    and "uint (octet (0x80 + c)) = 0x80 + c"
proof -
  show u: "uint (octet (0x80 + c)) = 0x80 + c"
    using assms by (intro uint_octet) auto
  then show "cont (octet (0x80 + c))"
    using assms by (simp add: cont_def word_le_def)
  have "(c + 2 * 64) mod 64 = c" unfolding mod_mult_self1 using assms by (rule mod_pos_pos_trivial)
  then show "low6 (octet (0x80 + c)) = c" unfolding low6_def u by (simp add: add.commute)
qed

text \<open>Three well-formed shapes, by their digits in base 64.\<close>

lemma decodeRune_1: "0 \<le> r \<Longrightarrow> r \<le> 0x7F \<Longrightarrow> decodeRune (octet r # rest) = (r, 1)"
  by (simp add: word_less_def uint_octet)

lemma decodeRune_2:
  assumes "2 \<le> a" "a \<le> 31" "0 \<le> b" "b < 64"
  shows "decodeRune (octet (0xC0 + a) # octet (0x80 + b) # rest) = (64 * a + b, 2)"
proof -
  have "uint (octet (0xC0 + a)) = 0xC0 + a" using assms by (intro uint_octet) auto
  then show ?thesis using assms cont_octet [of b] by (simp add: word_le_def word_less_def)
qed

lemma decodeRune_3:
  assumes "0 \<le> a" "a \<le> 15" "0 \<le> b" "b < 64" "0 \<le> c" "c < 64"
    and "a = 0 \<Longrightarrow> 32 \<le> b" and "a = 13 \<Longrightarrow> b \<le> 31"
  shows "decodeRune (octet (0xE0 + a) # octet (0x80 + b) # octet (0x80 + c) # rest)
    = (4096 * a + 64 * b + c, 3)"
proof -
  have "uint (octet (0xE0 + a)) = 0xE0 + a" using assms(1,2) by (intro uint_octet) auto
  then show ?thesis using assms cont_octet [of b] cont_octet [of c]
    by (auto simp: word_le_def word_less_def word_uint_eq_iff)
qed

lemma decodeRune_4:
  assumes "0 \<le> a" "a \<le> 4" "0 \<le> b" "b < 64" "0 \<le> c" "c < 64" "0 \<le> d" "d < 64"
    and "a = 0 \<Longrightarrow> 16 \<le> b" and "a = 4 \<Longrightarrow> b \<le> 15"
  shows "decodeRune (octet (0xF0 + a) # octet (0x80 + b) # octet (0x80 + c) # octet (0x80 + d) # rest)
    = (262144 * a + 4096 * b + 64 * c + d, 4)"
proof -
  have "uint (octet (0xF0 + a)) = 0xF0 + a" using assms(1,2) by (intro uint_octet) auto
  then show ?thesis using assms cont_octet [of b] cont_octet [of c] cont_octet [of d]
    by (auto simp: word_le_def word_less_def word_uint_eq_iff)
qed

lemma base64_digits:
  fixes r :: int
  shows "r = 64 * (r div 64) + r mod 64"
    and "r = 4096 * (r div 4096) + 64 * (r div 64 mod 64) + r mod 64"
    and "r = 262144 * (r div 262144) + 4096 * (r div 4096 mod 64) + 64 * (r div 64 mod 64) + r mod 64"
proof -
  have d: "r div 4096 = r div 64 div 64" "r div 262144 = r div 4096 div 64"
    using zdiv_zmult2_eq [of 64 r 64] zdiv_zmult2_eq [of 64 r 4096] by simp_all
  show 1: "r = 64 * (r div 64) + r mod 64" by (simp only: mult_div_mod_eq)
  have 2: "r div 64 = 64 * (r div 4096) + r div 64 mod 64"
    unfolding d(1) by (simp only: mult_div_mod_eq)
  have 3: "r div 4096 = 64 * (r div 262144) + r div 4096 mod 64"
    unfolding d(2) by (simp only: mult_div_mod_eq)
  show 4: "r = 4096 * (r div 4096) + 64 * (r div 64 mod 64) + r mod 64"
    by (subst 1, subst 2) simp
  show "r = 262144 * (r div 262144) + 4096 * (r div 4096 mod 64) + 64 * (r div 64 mod 64) + r mod 64"
    by (subst 4, subst 3) simp
qed

lemma digit_bounds: "0 \<le> r mod 64" "r mod 64 < 64" for r :: int
  by simp_all

lemma decodeRune_encode3:
  assumes "0x7FF < r" "r \<le> 0xFFFF" and valid: "validRune r"
  shows "decodeRune (octet (0xE0 + r div 4096) # octet (0x80 + r div 64 mod 64)
    # octet (0x80 + r mod 64) # rest) = (r, 3)"
proof -
  define a b c where "a = r div 4096" and "b = r div 64 mod 64" and "c = r mod 64"
  have r: "r = 4096 * a + 64 * b + c"
    unfolding a_def b_def c_def by (rule base64_digits)
  have bc: "0 \<le> b" "b < 64" "0 \<le> c" "c < 64"
    unfolding b_def c_def by (rule digit_bounds)+
  have "decodeRune (octet (0xE0 + a) # octet (0x80 + b) # octet (0x80 + c) # rest)
      = (4096 * a + 64 * b + c, 3)"
    using assms bc unfolding r validRune_def by (intro decodeRune_3) linarith+
  then show ?thesis unfolding r [symmetric] unfolding a_def b_def c_def .
qed

lemma decodeRune_encode4:
  assumes "0xFFFF < r" "r \<le> 0x10FFFF"
  shows "decodeRune (octet (0xF0 + r div 262144) # octet (0x80 + r div 4096 mod 64)
    # octet (0x80 + r div 64 mod 64) # octet (0x80 + r mod 64) # rest) = (r, 4)"
proof -
  define a b c d where "a = r div 262144" and "b = r div 4096 mod 64"
    and "c = r div 64 mod 64" and "d = r mod 64"
  have r: "r = 262144 * a + 4096 * b + 64 * c + d"
    unfolding a_def b_def c_def d_def by (rule base64_digits)
  have bc: "0 \<le> b" "b < 64" "0 \<le> c" "c < 64" "0 \<le> d" "d < 64"
    unfolding b_def c_def d_def by (rule digit_bounds)+
  have "decodeRune (octet (0xF0 + a) # octet (0x80 + b) # octet (0x80 + c) # octet (0x80 + d) # rest)
      = (262144 * a + 4096 * b + 64 * c + d, 4)"
    using assms bc unfolding r by (intro decodeRune_4) linarith+
  then show ?thesis unfolding r [symmetric] unfolding a_def b_def c_def d_def .
qed

lemma decodeRune_encode2:
  assumes "0x7F < r" "r \<le> 0x7FF"
  shows "decodeRune (octet (0xC0 + r div 64) # octet (0x80 + r mod 64) # rest) = (r, 2)"
proof -
  define a b where "a = r div 64" and "b = r mod 64"
  have r: "r = 64 * a + b" unfolding a_def b_def by (rule base64_digits)
  have bc: "0 \<le> b" "b < 64" unfolding b_def by (rule digit_bounds)+
  have "decodeRune (octet (0xC0 + a) # octet (0x80 + b) # rest) = (64 * a + b, 2)"
    using assms bc unfolding r by (intro decodeRune_2) linarith+
  then show ?thesis unfolding r [symmetric] unfolding a_def b_def .
qed

text \<open>Decoding inverts encoding, for every code point; anything else is encoded as \<open>RuneError\<close>.\<close>

lemma decodeRune_encodeRune:
  "decodeRune (encodeRune r @ rest) = (if validRune r then r else RuneError, length (encodeRune r))"
proof -
  let ?r = "if validRune r then r else RuneError"
  have v: "validRune ?r" by (simp add: validRune_def RuneError_def)
  then have b: "0 \<le> ?r" "?r \<le> 0x10FFFF" by (auto simp: validRune_def split: if_splits)
  consider "?r \<le> 0x7F" | "0x7F < ?r" "?r \<le> 0x7FF" | "0x7FF < ?r" "?r \<le> 0xFFFF" | "0xFFFF < ?r"
    by linarith
  then show ?thesis
  proof cases
    case 1
    then show ?thesis using b decodeRune_1 [of ?r rest]
      by (simp add: encodeRune_def Let_def del: decodeRune.simps)
  next
    case 2
    then show ?thesis using decodeRune_encode2 [of ?r rest]
      by (simp add: encodeRune_def Let_def del: decodeRune.simps)
  next
    case 3
    then show ?thesis using v decodeRune_encode3 [of ?r rest]
      by (simp add: encodeRune_def Let_def del: decodeRune.simps)
  next
    case 4
    then show ?thesis using b decodeRune_encode4 [of ?r rest]
      by (simp add: encodeRune_def Let_def del: decodeRune.simps)
  qed
qed

lemma encodeRune_not_Nil [simp]: "encodeRune r \<noteq> []"
  by (simp add: encodeRune_def Let_def)

lemma decodeRune_shorter: "bs \<noteq> [] \<Longrightarrow> length bs - snd (decodeRune bs) < length bs"
  using decodeRune_width_pos [of bs] by (cases bs) (auto simp del: decodeRune.simps)

section \<open>Valid UTF-8\<close>

text \<open>The head of a non-empty octet sequence is a well-formed rune.\<close>

definition goodHead :: "byte list \<Rightarrow> bool" where
  "goodHead bs \<longleftrightarrow> hd bs < 0x80 \<or> snd (decodeRune bs) \<noteq> 1"

function validUTF8 :: "byte list \<Rightarrow> bool" where
  "validUTF8 bs =
    (if bs = [] then True
     else if goodHead bs then validUTF8 (drop (snd (decodeRune bs)) bs) else False)"
  by pat_completeness auto
termination
  by (relation "measure length")
    (auto intro: decodeRune_shorter simp del: decodeRune.simps)

declare validUTF8.simps [simp del]

lemma validUTF8_Nil [simp]: "validUTF8 []"
  by (subst validUTF8.simps) simp

lemma encodeRune_single: "length (encodeRune r) = 1 \<Longrightarrow> hd (encodeRune r) < 0x80"
  by (auto simp: encodeRune_def Let_def validRune_def RuneError_def word_less_def uint_octet
      split: if_splits)

lemma goodHead_encodeRune: "goodHead (encodeRune r @ bs)"
  using encodeRune_single [of r] by (auto simp: goodHead_def decodeRune_encodeRune)

lemma validUTF8_encodeRune [simp]: "validUTF8 (encodeRune r @ bs) = validUTF8 bs"
  by (subst validUTF8.simps) (simp add: goodHead_encodeRune decodeRune_encodeRune)

lemma validUTF8_runes: "validUTF8 (concat (map encodeRune rs))"
  by (induction rs) auto

lemma decodeRune_prefix:
  assumes "bs \<noteq> []" and "goodHead bs"
  shows "decodeRune (take (snd (decodeRune bs)) bs @ xs) = decodeRune bs"
proof -
  obtain b0 r where bs: "bs = b0 # r" using assms(1) by (cases bs) auto
  consider "b0 < 0x80" | "\<not> b0 < 0x80" "0xC2 \<le> b0 \<and> b0 \<le> 0xDF"
    | "\<not> b0 < 0x80" "\<not> (0xC2 \<le> b0 \<and> b0 \<le> 0xDF)" "0xE0 \<le> b0 \<and> b0 \<le> 0xEF"
    | "\<not> b0 < 0x80" "\<not> (0xC2 \<le> b0 \<and> b0 \<le> 0xDF)" "\<not> (0xE0 \<le> b0 \<and> b0 \<le> 0xEF)"
      "0xF0 \<le> b0 \<and> b0 \<le> 0xF4"
    | "\<not> b0 < 0x80" "\<not> (0xC2 \<le> b0 \<and> b0 \<le> 0xDF)" "\<not> (0xE0 \<le> b0 \<and> b0 \<le> 0xEF)"
      "\<not> (0xF0 \<le> b0 \<and> b0 \<le> 0xF4)"
    by blast
  then show ?thesis
  proof cases
    case 2
    then show ?thesis using assms(2) unfolding bs goodHead_def
      by (cases r) (simp_all split: if_splits)
  next
    case 3
    then have "\<not> b0 \<le> 0xDF" using order_trans [of "0xE0" b0 "0xDF"] by auto
    with 3(1,3) show ?thesis using assms(2) unfolding bs goodHead_def
      by (cases r; cases "tl r") (simp_all split: if_splits)
  next
    case 4
    then have "\<not> b0 \<le> 0xDF" "\<not> b0 \<le> 0xEF"
      using order_trans [of "0xF0" b0 "0xDF"] order_trans [of "0xF0" b0 "0xEF"] by auto
    with 4(1,4) show ?thesis using assms(2) unfolding bs goodHead_def
      by (cases r; cases "tl r"; cases "tl (tl r)") (simp_all split: if_splits)
  next
    case 5
    then show ?thesis using assms(2) unfolding bs goodHead_def
      by (simp only: decodeRune.simps if_False snd_conv list.sel simp_thms)
  qed (simp add: bs)
qed

lemma goodHead_prefix:
  assumes "bs \<noteq> []" and "goodHead bs"
  shows "goodHead (take (snd (decodeRune bs)) bs @ xs)"
proof -
  have "hd (take (snd (decodeRune bs)) bs @ xs) = hd bs"
    using decodeRune_width_pos [OF assms(1)] assms(1) by (cases bs) auto
  then show ?thesis
    using assms decodeRune_prefix [OF assms] by (simp add: goodHead_def)
qed

lemma validUTF8_take [simp]:
  assumes "bs \<noteq> []" and "goodHead bs"
  shows "validUTF8 (take (snd (decodeRune bs)) bs @ xs) = validUTF8 xs"
proof -
  have "take (snd (decodeRune bs)) bs \<noteq> []"
    using decodeRune_width_pos [OF assms(1)] assms(1) by (auto simp: take_eq_Nil)
  then show ?thesis
    using goodHead_prefix [OF assms] decodeRune_prefix [OF assms] decodeRune_width [of bs]
    by (subst validUTF8.simps) (simp add: min_absorb2)
qed

section \<open>Conversions\<close>

text \<open>
  \<^verbatim>\<open>strings.ToValidUTF8\<close>: every run of invalid octets becomes one replacement.
  \<open>invalid\<close> says that the previous octet was invalid.
\<close>

function toValidLoop :: "byte list \<Rightarrow> bool \<Rightarrow> byte list \<Rightarrow> byte list" where
  "toValidLoop repl invalid bs =
    (if bs = [] then []
     else if hd bs < 0x80 then hd bs # toValidLoop repl False (tl bs)
     else let wid = snd (decodeRune bs) in
       if wid = 1 then (if invalid then [] else repl) @ toValidLoop repl True (tl bs)
       else take wid bs @ toValidLoop repl False (drop wid bs))"
  by pat_completeness auto
termination
  by (relation "measure (\<lambda>(repl, invalid, bs). length bs)")
    (auto intro: decodeRune_shorter simp del: decodeRune.simps)

declare toValidLoop.simps [simp del]

definition ToValidUTF8 :: "byte list \<Rightarrow> byte list \<Rightarrow> byte list" where
  "ToValidUTF8 s replacement = toValidLoop replacement False s"

definition runesToString :: "rune list \<Rightarrow> byte list" where
  "runesToString rs = concat (map encodeRune rs)"

text \<open>\<^verbatim>\<open>utf16.Decode\<close>: surrogate pairs are combined, lone surrogates become \<open>RuneError\<close>.\<close>

fun utf16Decode :: "u16 list \<Rightarrow> rune list" where
  "utf16Decode [] = []"
| "utf16Decode (r # s) =
    (if r < 0xD800 \<or> 0xE000 \<le> r then uint r # utf16Decode s
     else case s of
       r2 # s' \<Rightarrow>
         if 0xD800 \<le> r \<and> r < 0xDC00 \<and> 0xDC00 \<le> r2 \<and> r2 < 0xE000
         then ((uint r - 0xD800) * 1024 + (uint r2 - 0xDC00) + 0x10000) # utf16Decode s'
         else RuneError # utf16Decode s
     | [] \<Rightarrow> RuneError # utf16Decode s)"

lemma ascii_width: "bs \<noteq> [] \<Longrightarrow> hd bs < 0x80 \<Longrightarrow> snd (decodeRune bs) = 1"
  by (cases bs) auto

text \<open>Whatever the input, the result is valid UTF-8; valid input is returned unchanged.\<close>

lemma goodHead_cases:
  assumes "bs \<noteq> []"
  obtains "hd bs < 0x80" and "snd (decodeRune bs) = 1" and "goodHead bs"
    | "\<not> hd bs < 0x80" and "snd (decodeRune bs) = 1" and "\<not> goodHead bs"
    | "\<not> hd bs < 0x80" and "snd (decodeRune bs) \<noteq> 1" and "goodHead bs"
  using assms ascii_width [of bs] by (auto simp: goodHead_def)

lemma take_1: "bs \<noteq> [] \<Longrightarrow> take 1 bs = [hd bs]"
  by (cases bs) auto

lemma toValidLoop_valid:
  assumes repl: "\<And>xs. validUTF8 (repl @ xs) = validUTF8 xs"
  shows "validUTF8 (toValidLoop repl invalid bs)"
  using repl
proof (induction repl invalid bs rule: toValidLoop.induct)
  case (1 repl invalid bs)
  show ?case
  proof (cases "bs = []")
    case True
    then show ?thesis by (subst toValidLoop.simps) simp
  next
    case False
    then show ?thesis
    proof (cases rule: goodHead_cases)
      case 1
      with False have "validUTF8 (hd bs # toValidLoop repl False (tl bs))"
        using validUTF8_take [OF False, of "toValidLoop repl False (tl bs)"] "1.IH"(1) "1.prems"
        by (simp add: take_1 [simplified])
      with 1 False show ?thesis by (subst toValidLoop.simps) simp
    next
      case 2
      with False show ?thesis
        using "1.IH"(2) "1.prems" by (subst toValidLoop.simps) simp
    next
      case 3
      with False show ?thesis
        using "1.IH"(3) "1.prems" by (subst toValidLoop.simps) (simp add: Let_def)
    qed
  qed
qed

lemma toValidLoop_id: "validUTF8 bs \<Longrightarrow> toValidLoop repl invalid bs = bs"
proof (induction repl invalid bs rule: toValidLoop.induct)
  case (1 repl invalid bs)
  show ?case
  proof (cases "bs = []")
    case True
    then show ?thesis by (subst toValidLoop.simps) simp
  next
    case False
    have good: "goodHead bs" and rest: "validUTF8 (drop (snd (decodeRune bs)) bs)"
      using "1.prems" False by (simp_all add: validUTF8.simps [of bs] split: if_splits)
    from False show ?thesis
    proof (cases rule: goodHead_cases)
      case 1
      with rest False have "validUTF8 (tl bs)" by (simp add: drop_Suc)
      with 1 False "1.IH"(1) show ?thesis by (subst toValidLoop.simps) simp
    next
      case 2
      with good show ?thesis by simp
    next
      case 3
      with rest False "1.IH"(3) show ?thesis by (subst toValidLoop.simps) simp
    qed
  qed
qed

definition replacementUTF8 :: "byte list" where
  "replacementUTF8 = encodeRune RuneError"

lemma ToValidUTF8_valid: "validUTF8 (ToValidUTF8 s replacementUTF8)"
  unfolding ToValidUTF8_def replacementUTF8_def by (rule toValidLoop_valid) simp

lemma ToValidUTF8_id: "validUTF8 s \<Longrightarrow> ToValidUTF8 s repl = s"
  by (simp add: ToValidUTF8_def toValidLoop_id)

lemma runesToString_valid: "validUTF8 (runesToString rs)"
  by (simp add: runesToString_def validUTF8_runes)

lemma validUTF8_ascii: "\<forall>b \<in> set bs. b < 0x80 \<Longrightarrow> validUTF8 bs"
proof (induction bs)
  case (Cons b bs)
  then have "goodHead (b # bs)" and "snd (decodeRune (b # bs)) = 1"
    by (simp_all add: goodHead_def)
  with Cons show ?case by (subst validUTF8.simps) simp
qed simp

end
