(* ===== verification/Bacnet_Value.thy ===== *)
theory Bacnet_Value
  imports Bacnet_Tag Bacnet_Objects Go_Text
begin

text \<open>
  \<^verbatim>\<open>internal/bacnet/value.go\<close>: BACnet values, their application-tagged, context-tagged and
  constructed encodings, and the decoders. The lemmas show that no decoder panics or leaves its
  buffer, that encoding never reaches the code's own panics, and that decoding inverts encoding
  for every value that has an encoding.
\<close>

section \<open>Values\<close>

text \<open>A field of \<open>Date\<close> or \<open>Time\<close> is -1 when it is unspecified.\<close>

record Date =
  Year :: int
  Month :: int
  Day :: int
  DayOfWeek :: int

record Time =
  Hour :: int
  Minute :: int
  Second :: int
  Hundredth :: int

record ObjectIdentifier =
  Type :: ObjectType
  Instance :: u32

text \<open>
  The Go struct has a \<^verbatim>\<open>Kind\<close> and one field per kind, of which only the one the kind names
  is ever set: a tagged union. Floating-point numbers are their IEEE 754 bit patterns
  (\<^verbatim>\<open>math.Float32bits\<close> and \<^verbatim>\<open>Float64bits\<close> are then the identity), a signed integer is the
  64-bit word that holds it, a string its octets.
\<close>

datatype Value =
    NullValue
  | BoolValue bool
  | UnsignedValue u64
  | SignedValue u64
  | RealValue u32
  | DoubleValue u64
  | OctetStringValue "byte list"
  | CharStringValue string
  | BitStringValue "bool list"
  | EnumeratedValue u32
  | DateValue Date
  | TimeValue Time
  | ObjectIDValue ObjectIdentifier
  | ContextPrimitiveValue byte "byte list"
  | ConstructedValue byte "Value list"

text \<open>Reading a field that the kind does not set gives Go's zero value.\<close>

definition UnsignedField :: "Value \<Rightarrow> u64" where
  "UnsignedField v = (case v of UnsignedValue n \<Rightarrow> n | _ \<Rightarrow> 0)"

definition EnumField :: "Value \<Rightarrow> u32" where
  "EnumField v = (case v of EnumeratedValue n \<Rightarrow> n | _ \<Rightarrow> 0)"

definition isObjectID :: "Value \<Rightarrow> bool" where
  "isObjectID v = (case v of ObjectIDValue _ \<Rightarrow> True | _ \<Rightarrow> False)"

definition ObjectField :: "Value \<Rightarrow> ObjectIdentifier" where
  "ObjectField v = (case v of ObjectIDValue i \<Rightarrow> i | _ \<Rightarrow> \<lparr>Type = 0, Instance = 0\<rparr>)"

section \<open>Encoding\<close>

definition applicationTagFor :: "Value \<Rightarrow> byte result" where
  "applicationTagFor v = (case v of
     NullValue \<Rightarrow> Ok TagNull
   | BoolValue _ \<Rightarrow> Ok TagBoolean
   | UnsignedValue _ \<Rightarrow> Ok TagUnsignedInt
   | SignedValue _ \<Rightarrow> Ok TagSignedInt
   | RealValue _ \<Rightarrow> Ok TagReal
   | DoubleValue _ \<Rightarrow> Ok TagDouble
   | OctetStringValue _ \<Rightarrow> Ok TagOctetString
   | CharStringValue _ \<Rightarrow> Ok TagCharacterString
   | BitStringValue _ \<Rightarrow> Ok TagBitString
   | EnumeratedValue _ \<Rightarrow> Ok TagEnumerated
   | DateValue _ \<Rightarrow> Ok TagDate
   | TimeValue _ \<Rightarrow> Ok TagTime
   | ObjectIDValue _ \<Rightarrow> Ok TagObjectID
   | _ \<Rightarrow> Panic)"

text \<open>The loop of \<^verbatim>\<open>encodeBitStringData\<close>: bit \<open>i\<close> is set in octet \<open>1 + i div 8\<close>, counting from its top bit.\<close>

definition setBit :: "byte list \<Rightarrow> nat \<times> bool \<Rightarrow> byte list" where
  "setBit out ib = (case ib of (i, b) \<Rightarrow>
     if b then out[1 + i div 8 := out ! (1 + i div 8) OR drop_bit (i mod 8) 0x80] else out)"

definition encodeBitStringData :: "bool list \<Rightarrow> byte list" where
  "encodeBitStringData bits =
    (let unused = (8 - length bits mod 8) mod 8;
         nBytes = (length bits + 7) div 8;
         out = (replicate (1 + nBytes) 0)[0 := word_of_nat unused]
     in foldl setBit out (enumerate 0 bits))"

definition encodeField :: "int \<Rightarrow> byte" where
  "encodeField v = (if v < 0 then 255 else word_of_int v)"

definition encodeDateData :: "Date \<Rightarrow> byte list" where
  "encodeDateData d =
    [encodeField (Year d - 1900), encodeField (Month d), encodeField (Day d), encodeField (DayOfWeek d)]"

definition encodeTimeData :: "Time \<Rightarrow> byte list" where
  "encodeTimeData t =
    [encodeField (Hour t), encodeField (Minute t), encodeField (Second t), encodeField (Hundredth t)]"

definition objectIDWord :: "ObjectIdentifier \<Rightarrow> u32" where
  "objectIDWord i = push_bit 22 (Type i) OR (Instance i AND 0x3FFFFF)"

definition appendData :: "byte list \<Rightarrow> byte \<Rightarrow> bool \<Rightarrow> byte list \<Rightarrow> byte list" where
  "appendData buf tagNumber context data =
    appendTagHeader buf tagNumber context (word_of_nat (length data)) @ data"

definition AppendContextValue :: "byte list \<Rightarrow> bool \<Rightarrow> byte \<Rightarrow> Value \<Rightarrow> byte list result" where
  "AppendContextValue buf context tagNumber v = (case v of
     NullValue \<Rightarrow> Ok (appendTagHeader buf tagNumber context 0)
   | BoolValue b \<Rightarrow>
       if \<not> context then Ok (appendTagHeader buf tagNumber False (if b then 1 else 0))
       else Ok (appendTagHeader buf tagNumber True 1 @ [if b then 1 else 0])
   | UnsignedValue n \<Rightarrow> Ok (appendData buf tagNumber context (minUnsignedBytes n))
   | SignedValue n \<Rightarrow> Ok (appendData buf tagNumber context (minSignedBytes n))
   | RealValue x \<Rightarrow> Ok (appendTagHeader buf tagNumber context 4 @ putUint32 x)
   | DoubleValue x \<Rightarrow> Ok (appendTagHeader buf tagNumber context 8 @ putUint64 x)
   | OctetStringValue octets \<Rightarrow> Ok (appendData buf tagNumber context octets)
   | CharStringValue str \<Rightarrow> Ok (appendData buf tagNumber context (0 # bytesOf str))
   | BitStringValue bits \<Rightarrow> Ok (appendData buf tagNumber context (encodeBitStringData bits))
   | EnumeratedValue n \<Rightarrow> Ok (appendData buf tagNumber context (minUnsignedBytes (ucast n)))
   | DateValue d \<Rightarrow> Ok (appendTagHeader buf tagNumber context 4 @ encodeDateData d)
   | TimeValue t \<Rightarrow> Ok (appendTagHeader buf tagNumber context 4 @ encodeTimeData t)
   | ObjectIDValue i \<Rightarrow> Ok (appendTagHeader buf tagNumber context 4 @ putUint32 (objectIDWord i))
   | ContextPrimitiveValue _ _ \<Rightarrow> Panic
   | ConstructedValue _ _ \<Rightarrow> Panic)"

fun AppendValue :: "byte list \<Rightarrow> Value \<Rightarrow> byte list result"
  and AppendValues :: "byte list \<Rightarrow> Value list \<Rightarrow> byte list result" where
  "AppendValue buf (ContextPrimitiveValue tag octets) =
     Ok (appendTagHeader buf tag True (word_of_nat (length octets)) @ octets)"
| "AppendValue buf (ConstructedValue tag items) =
     res_bind (AppendValues (appendOpeningTag buf tag) items) (\<lambda>buf.
     Ok (appendClosingTag buf tag))"
| "AppendValue buf v =
     res_bind (applicationTagFor v) (\<lambda>tag. AppendContextValue buf False tag v)"
| "AppendValues buf [] = Ok buf"
| "AppendValues buf (v # vs) = res_bind (AppendValue buf v) (\<lambda>buf. AppendValues buf vs)"

section \<open>Decoding the data of primitive values\<close>

definition decodeUnsignedData :: "byte list \<Rightarrow> u64" where
  "decodeUnsignedData data = foldl (\<lambda>v b. push_bit 8 v OR ucast b) 0 data"

definition decodeSignedData :: "byte list \<Rightarrow> u64" where
  "decodeSignedData data =
    (case data of [] \<Rightarrow> 0 | b # bs \<Rightarrow> foldl (\<lambda>v b. push_bit 8 v OR ucast b) (scast b) bs)"

definition decodeBitStringData :: "byte list \<Rightarrow> bool list result" where
  "decodeBitStringData data =
    (if length data < 1 then Err (ValueErr EmptyBitString)
     else res_bind (index data 0) (\<lambda>unused.
       let total = int ((length data - 1) * 8) - uint unused
       in if total < 0 then Err (ValueErr InvalidUnusedBits)
          else mapR (\<lambda>i. res_bind (index data (1 + i div 8)) (\<lambda>byt.
                 Ok (byt AND drop_bit (i mod 8) 0x80 \<noteq> 0))) [0..<nat total]))"

definition decodeField :: "byte \<Rightarrow> int" where
  "decodeField v = (if v = 255 then - 1 else uint v)"

definition decodeDateData :: "byte list \<Rightarrow> Date result" where
  "decodeDateData data =
    (if length data \<noteq> 4 then Err (ValueErr (DateLength (length data)))
     else res_bind (index data 0) (\<lambda>b0. res_bind (index data 1) (\<lambda>b1.
       res_bind (index data 2) (\<lambda>b2. res_bind (index data 3) (\<lambda>b3.
       Ok \<lparr>Year = (if b0 \<noteq> 255 then uint b0 + 1900 else - 1),
           Month = decodeField b1, Day = decodeField b2, DayOfWeek = decodeField b3\<rparr>)))))"

definition decodeTimeData :: "byte list \<Rightarrow> Time result" where
  "decodeTimeData data =
    (if length data \<noteq> 4 then Err (ValueErr (TimeLength (length data)))
     else res_bind (index data 0) (\<lambda>b0. res_bind (index data 1) (\<lambda>b1.
       res_bind (index data 2) (\<lambda>b2. res_bind (index data 3) (\<lambda>b3.
       Ok \<lparr>Hour = decodeField b0, Minute = decodeField b1,
           Second = decodeField b2, Hundredth = decodeField b3\<rparr>)))))"

definition decodeObjectIDData :: "byte list \<Rightarrow> ObjectIdentifier result" where
  "decodeObjectIDData data =
    (if length data \<noteq> 4 then Err (ValueErr (ObjectIDLength (length data)))
     else res_bind (getUint32 data) (\<lambda>raw.
       Ok \<lparr>Type = drop_bit 22 raw, Instance = raw AND 0x3FFFFF\<rparr>))"

definition charsetUTF8 :: byte where "charsetUTF8 = 0"
definition charsetUCS4 :: byte where "charsetUCS4 = 3"
definition charsetUCS2 :: byte where "charsetUCS2 = 4"
definition charsetLatin1 :: byte where "charsetLatin1 = 5"

lemmas charset_defs = charsetUTF8_def charsetUCS4_def charsetUCS2_def charsetLatin1_def

definition decodeCharacterString :: "byte \<Rightarrow> byte list \<Rightarrow> string result" where
  "decodeCharacterString charset data =
    (if charset = charsetUTF8 then Ok (stringOf (ToValidUTF8 data replacementUTF8))
     else if charset = charsetLatin1 then Ok (stringOf (runesToString (map uint data)))
     else if charset = charsetUCS2 then
       if length data mod 2 \<noteq> 0 then Err (ValueErr (UCS2OddLength (length data)))
       else res_bind (mapR (\<lambda>i. decAt data (2 * i) getUint16) [0..<length data div 2]) (\<lambda>units.
         Ok (stringOf (runesToString (utf16Decode units))))
     else if charset = charsetUCS4 then
       if length data mod 4 \<noteq> 0 then Err (ValueErr (UCS4BadLength (length data)))
       else res_bind (mapR (\<lambda>i. decAt data (4 * i) getUint32) [0..<length data div 4]) (\<lambda>runes.
         Ok (stringOf (runesToString (map sint runes))))
     else Err (ValueErr (UnsupportedCharset charset)))"

text \<open>The \<^verbatim>\<open>switch th.Number\<close> of \<^verbatim>\<open>decodeApplicationValue\<close>, on the data octets.\<close>

definition decodePrimitive :: "byte \<Rightarrow> byte list \<Rightarrow> Value result" where
  "decodePrimitive number data =
    (if number = TagNull then Ok NullValue
     else if number = TagUnsignedInt then Ok (UnsignedValue (decodeUnsignedData data))
     else if number = TagSignedInt then Ok (SignedValue (decodeSignedData data))
     else if number = TagReal then
       if length data \<noteq> 4 then Err (ValueErr (RealLength (length data)))
       else res_bind (getUint32 data) (\<lambda>x. Ok (RealValue x))
     else if number = TagDouble then
       if length data \<noteq> 8 then Err (ValueErr (DoubleLength (length data)))
       else res_bind (getUint64 data) (\<lambda>x. Ok (DoubleValue x))
     else if number = TagOctetString then Ok (OctetStringValue data)
     else if number = TagCharacterString then
       if length data < 1 then Err (ValueErr EmptyCharacterString)
       else res_bind (index data 0) (\<lambda>charset.
            res_bind (decAt data 1 (decodeCharacterString charset)) (\<lambda>s. Ok (CharStringValue s)))
     else if number = TagBitString then
       res_bind (decodeBitStringData data) (\<lambda>bs. Ok (BitStringValue bs))
     else if number = TagEnumerated then Ok (EnumeratedValue (ucast (decodeUnsignedData data)))
     else if number = TagDate then res_bind (decodeDateData data) (\<lambda>d. Ok (DateValue d))
     else if number = TagTime then res_bind (decodeTimeData data) (\<lambda>t. Ok (TimeValue t))
     else if number = TagObjectID then
       res_bind (decodeObjectIDData data) (\<lambda>oid. Ok (ObjectIDValue oid))
     else Err (ValueErr (UnsupportedApplicationTag number)))"

definition decodeApplicationValue :: "byte list \<Rightarrow> (Value \<times> nat) result" where
  "decodeApplicationValue buf =
    res_bind (decodeTagHeader buf) (\<lambda>th.
    if Context th then Err (ValueErr (ExpectedApplicationTag (Number th)))
    else if Number th = TagBoolean then Ok (BoolValue (LVT th \<noteq> 0), Header th)
    else res_bind (sliceFrom buf (Header th)) (\<lambda>data.
      if (word_of_nat (length data) :: u32) < LVT th then Err (ValueErr TruncatedValueData)
      else res_bind (slice data 0 (unat (LVT th))) (\<lambda>data.
           res_bind (decodePrimitive (Number th) data) (\<lambda>v.
           Ok (v, Header th + unat (LVT th))))))"

lemma decodeUnsignedData_eq: "decodeUnsignedData data = be_fold 0 data"
  by (simp add: decodeUnsignedData_def be_fold_def)

lemma decodeSignedData_eq: "decodeSignedData data = be_signed data"
  by (cases data) (simp_all add: decodeSignedData_def be_signed_def be_fold_def)

section \<open>Runs of values\<close>

text \<open>\<^verbatim>\<open>expectOpening\<close> and \<^verbatim>\<open>expectClosing\<close> of \<^verbatim>\<open>services.go\<close>.\<close>

definition expectOpening :: "byte \<Rightarrow> byte list \<Rightarrow> nat result" where
  "expectOpening want buf =
    res_bind (decodeTagHeader buf) (\<lambda>th.
    if \<not> IsOpening th \<or> Number th \<noteq> want then Err (ServiceErr (ExpectedOpeningTag want))
    else Ok (Header th))"

definition expectClosing :: "byte \<Rightarrow> byte list \<Rightarrow> nat result" where
  "expectClosing want buf =
    res_bind (decodeTagHeader buf) (\<lambda>th.
    if \<not> IsClosing th \<or> Number th \<noteq> want then Err (ServiceErr (ExpectedClosingTag want))
    else Ok (Header th))"

lemma expect_safe [safe_intros]: "safe (expectOpening want buf)" "safe (expectClosing want buf)"
  by (auto simp: expectOpening_def expectClosing_def intro!: safe_intros)

lemma expect_bound:
  "expectOpening want buf = Ok n \<Longrightarrow> 1 \<le> n \<and> n \<le> length buf"
  "expectClosing want buf = Ok n \<Longrightarrow> 1 \<le> n \<and> n \<le> length buf"
  by (auto simp: expectOpening_def expectClosing_def res_bind_Ok_iff split: if_splits
      dest: decodeTagHeader_bound)

lemma decodeApplicationValue_bound:
  "decodeApplicationValue buf = Ok (v, n) \<Longrightarrow> 1 \<le> n \<and> n \<le> length buf"
proof (unfold decodeApplicationValue_def, elim res_bind_OkE)
  fix th
  assume th: "decodeTagHeader buf = Ok th"
    and eq: "(if Context th then Err (ValueErr (ExpectedApplicationTag (Number th)))
      else if Number th = TagBoolean then Ok (BoolValue (LVT th \<noteq> 0), Header th)
      else res_bind (sliceFrom buf (Header th)) (\<lambda>data.
        if (word_of_nat (length data) :: u32) < LVT th then Err (ValueErr TruncatedValueData)
        else res_bind (slice data 0 (unat (LVT th))) (\<lambda>data.
             res_bind (decodePrimitive (Number th) data) (\<lambda>v.
             Ok (v, Header th + unat (LVT th)))))) = Ok (v, n)"
  from decodeTagHeader_bound [OF th] eq show "1 \<le> n \<and> n \<le> length buf"
    by (auto simp: res_bind_Ok_iff sliceFrom_def slice_def split: if_splits)
qed

text \<open>\<^verbatim>\<open>decodeApplicationValues\<close>: a run of application-tagged values, as in an I-Am.\<close>

function decodeAppLoop :: "byte list \<Rightarrow> Value list \<Rightarrow> nat \<Rightarrow> (Value list \<times> nat) result" where
  "decodeAppLoop buf values pos =
    (if pos < length buf then
       res_bind (decAt buf pos decodeTagHeader) (\<lambda>th.
       if Context th then Ok (values, pos)
       else res_bind (decAt buf pos decodeApplicationValue) (\<lambda>vn.
            decodeAppLoop buf (values @ [fst vn]) (pos + snd vn)))
     else Ok (values, pos))"
  by pat_completeness auto
termination
  by (relation "measure (\<lambda>(buf, values, pos). length buf - pos)")
    (auto simp: decAt_drop dest: decodeApplicationValue_bound)

declare decodeAppLoop.simps [simp del]

definition decodeApplicationValues :: "byte list \<Rightarrow> (Value list \<times> nat) result" where
  "decodeApplicationValues buf = decodeAppLoop buf [] 0"

definition maxNesting :: nat where "maxNesting = 16"

text \<open>
  \<^verbatim>\<open>decodeNestedValues\<close>: \<open>values\<close> and \<open>pos\<close> are the loop's variables. A closing tag ends
  the run and is left for the caller.
\<close>

function decodeNestedLoop ::
  "byte list \<Rightarrow> nat \<Rightarrow> Value list \<Rightarrow> nat \<Rightarrow> (Value list \<times> nat) result" where
  "decodeNestedLoop buf depth values pos =
    (if pos < length buf then
       res_bind (decAt buf pos decodeTagHeader) (\<lambda>th.
       if \<not> Context th then
         res_bind (decAt buf pos decodeApplicationValue) (\<lambda>vn.
         decodeNestedLoop buf depth (values @ [fst vn]) (pos + snd vn))
       else if IsClosing th then Ok (values, pos)
       else if IsOpening th then
         if depth \<ge> maxNesting then Err (ValueErr NestedTooDeep)
         else
           res_bind (decAt buf (pos + Header th) (\<lambda>b. decodeNestedLoop b (depth + 1) [] 0)) (\<lambda>itemsn.
           res_bind (decAt buf (pos + Header th + snd itemsn) (expectClosing (Number th))) (\<lambda>n.
           decodeNestedLoop buf depth (values @ [ConstructedValue (Number th) (fst itemsn)])
             (pos + Header th + snd itemsn + n)))
       else
         if (word_of_nat (length buf - (pos + Header th)) :: u32) < LVT th
         then Err (ValueErr (TruncatedContextTagValue (Number th)))
         else
           res_bind (slice buf (pos + Header th) (pos + Header th + unat (LVT th))) (\<lambda>data.
           decodeNestedLoop buf depth (values @ [ContextPrimitiveValue (Number th) data])
             (pos + Header th + unat (LVT th))))
     else Ok (values, pos))"
  by pat_completeness auto
termination
  by (relation "measure (\<lambda>(buf, depth, values, pos). length buf - pos)")
    (auto simp: decAt_drop dest: decodeTagHeader_bound decodeApplicationValue_bound)

declare decodeNestedLoop.simps [simp del]

definition decodeNestedValues :: "byte list \<Rightarrow> nat \<Rightarrow> (Value list \<times> nat) result" where
  "decodeNestedValues buf depth = decodeNestedLoop buf depth [] 0"

definition decodeValues :: "byte list \<Rightarrow> (Value list \<times> nat) result" where
  "decodeValues buf = decodeNestedValues buf 0"

section \<open>No panics, nothing read out of bounds\<close>

lemma bit_octet_in_range:
  fixes b :: byte
  assumes "i < nat (int ((len - 1) * 8) - uint b)"
  shows "1 + i div 8 < len"
proof -
  have "0 \<le> uint b" by simp
  with assms have "i < (len - 1) * 8" by linarith
  then show ?thesis by (simp add: less_mult_imp_div_less less_diff_conv)
qed

lemma decodeBitStringData_safe [safe_intros]: "safe (decodeBitStringData data)"
  unfolding decodeBitStringData_def Let_def
  by (intro safe_intros) (auto dest: bit_octet_in_range [simplified])

lemma decodeFixed_safe [safe_intros]:
  "safe (decodeDateData data)" "safe (decodeTimeData data)" "safe (decodeObjectIDData data)"
  unfolding decodeDateData_def decodeTimeData_def decodeObjectIDData_def
  by (intro safe_intros; simp)+

lemma chunk_in_range:
  assumes "i < n div k"
  shows "k * i + k \<le> (n :: nat)"
proof -
  from assms have "Suc i \<le> n div k" by simp
  then have "k * Suc i \<le> k * (n div k)" by (rule mult_le_mono2)
  also have "\<dots> \<le> n" by simp
  finally show ?thesis by (simp add: add.commute)
qed

lemma decodeCharacterString_safe [safe_intros]: "safe (decodeCharacterString charset data)"
  unfolding decodeCharacterString_def
  by (intro safe_intros) (auto dest!: chunk_in_range)

lemma decodePrimitive_safe [safe_intros]: "safe (decodePrimitive number data)"
  unfolding decodePrimitive_def
  by (intro safe_intros) (auto simp: Suc_le_eq)

lemma length_ge_LVT:
  assumes "\<not> (word_of_nat n :: u32) < l"
  shows "unat l \<le> n"
proof -
  from assms have "unat l \<le> n mod 2 ^ 32"
    by (simp add: not_less word_le_nat_alt unat_of_nat)
  also have "\<dots> \<le> n" by simp
  finally show ?thesis .
qed

lemma decodeApplicationValue_safe [safe_intros]: "safe (decodeApplicationValue buf)"
  unfolding decodeApplicationValue_def
  by (intro safe_intros) (auto dest!: decodeTagHeader_bound length_ge_LVT)

interpretation appValue: decoder_contract decodeApplicationValue
  by standard (auto intro: safe_intros dest: decodeApplicationValue_bound)

lemma decAt_Ok_iff: "decAt buf pos d = Ok y \<longleftrightarrow> pos \<le> length buf \<and> d (drop pos buf) = Ok y"
  by (auto simp: decAt_def sliceFrom_def)

lemma at_tag_bound: "decAt buf pos decodeTagHeader = Ok th \<Longrightarrow> 1 \<le> Header th \<and> pos + Header th \<le> length buf"
  by (auto simp: decAt_Ok_iff dest!: decodeTagHeader_bound)

lemma at_closing_bound: "decAt buf pos (expectClosing t) = Ok n \<Longrightarrow> 1 \<le> n \<and> pos + n \<le> length buf"
  by (auto simp: decAt_Ok_iff dest!: expect_bound)

lemma at_opening_bound: "decAt buf pos (expectOpening t) = Ok n \<Longrightarrow> 1 \<le> n \<and> pos + n \<le> length buf"
  by (auto simp: decAt_Ok_iff dest!: expect_bound)

lemma at_value_bound:
  "decAt buf pos decodeApplicationValue = Ok vn \<Longrightarrow> 1 \<le> snd vn \<and> pos + snd vn \<le> length buf"
  using decodeApplicationValue_bound [of "drop pos buf" "fst vn" "snd vn"]
  by (auto simp: decAt_Ok_iff)

lemmas at_bounds = at_tag_bound at_closing_bound at_opening_bound at_value_bound

text \<open>The ways an iteration of the loop can go on to a result.\<close>

lemma decodeNestedLoop_OkE:
  assumes "decodeNestedLoop buf depth vs pos = Ok wn"
  obtains (finished) "length buf \<le> pos" "wn = (vs, pos)"
  | (app) th vn where "pos < length buf" "decAt buf pos decodeTagHeader = Ok th" "\<not> Context th"
      "decAt buf pos decodeApplicationValue = Ok vn"
      "decodeNestedLoop buf depth (vs @ [fst vn]) (pos + snd vn) = Ok wn"
  | (closing) th where "pos < length buf" "decAt buf pos decodeTagHeader = Ok th" "Context th"
      "IsClosing th" "wn = (vs, pos)"
  | (nested) th itemsn n where "pos < length buf" "decAt buf pos decodeTagHeader = Ok th" "Context th"
      "\<not> IsClosing th" "IsOpening th" "depth < maxNesting"
      "decAt buf (pos + Header th) (\<lambda>b. decodeNestedLoop b (depth + 1) [] 0) = Ok itemsn"
      "decAt buf (pos + Header th + snd itemsn) (expectClosing (Number th)) = Ok n"
      "decodeNestedLoop buf depth (vs @ [ConstructedValue (Number th) (fst itemsn)])
         (pos + Header th + snd itemsn + n) = Ok wn"
  | (prim) th data where "pos < length buf" "decAt buf pos decodeTagHeader = Ok th" "Context th"
      "\<not> IsClosing th" "\<not> IsOpening th"
      "\<not> (word_of_nat (length buf - (pos + Header th)) :: u32) < LVT th"
      "slice buf (pos + Header th) (pos + Header th + unat (LVT th)) = (Ok data :: byte list result)"
      "decodeNestedLoop buf depth (vs @ [ContextPrimitiveValue (Number th) data])
         (pos + Header th + unat (LVT th)) = Ok wn"
proof (cases "pos < length buf")
  case False
  with assms finished show thesis by (simp add: decodeNestedLoop.simps [of buf depth vs pos])
next
  case True
  note eq = assms [unfolded decodeNestedLoop.simps [of buf depth vs pos] if_P [OF True]]
  from eq obtain th where th: "decAt buf pos decodeTagHeader = Ok th" by (rule res_bind_OkE)
  note eq = eq [unfolded th res_bind.simps]
  show thesis
  proof (cases "Context th")
    case False
    with eq show thesis by (auto elim!: res_bind_OkE intro: app [OF True th])
  next
    case ctx: True
    show thesis
    proof (cases "IsClosing th")
      case closes: True
      with eq ctx show thesis by (auto intro: closing [OF True th])
    next
      case open_or_prim: False
      show thesis
      proof (cases "IsOpening th")
        case opens: True
        with eq ctx open_or_prim have "depth < maxNesting" by (simp add: not_le split: if_splits)
        with eq ctx open_or_prim opens show thesis
          by (auto simp: not_le elim!: res_bind_OkE intro: nested [OF True th])
      next
        case prim: False
        with eq ctx open_or_prim have "\<not> (word_of_nat (length buf - (pos + Header th)) :: u32) < LVT th"
          by (simp split: if_splits)
        with eq ctx open_or_prim prim show thesis
          by (auto elim!: res_bind_OkE intro: that(5) [OF True th])
      qed
    qed
  qed
qed

lemma decodeNestedLoop_bound:
  assumes "decodeNestedLoop buf depth vs pos = Ok wn" and "pos \<le> length buf"
  shows "pos \<le> snd wn \<and> snd wn \<le> length buf"
  using assms
proof (induction buf depth vs pos arbitrary: wn rule: decodeNestedLoop.induct)
  case (1 buf depth vs pos)
  from "1.prems"(1) show ?case
  proof (cases rule: decodeNestedLoop_OkE)
    case finished
    then show ?thesis using "1.prems"(2) by simp
  next
    case (app th vn)
    then show ?thesis using "1.IH"(1) [OF app(1-4) app(5)] at_value_bound [OF app(4)] by simp
  next
    case (closing th)
    then show ?thesis by simp
  next
    case (nested th itemsn n)
    note b = at_tag_bound [OF nested(2)] at_closing_bound [OF nested(8)]
    have "pos + Header th + snd itemsn + n \<le> snd wn \<and> snd wn \<le> length buf"
      using "1.IH"(3) [OF nested(1-2) _ nested(4-5) _ nested(7-8)] nested b by simp
    with b show ?thesis by simp
  next
    case (prim th data)
    then have "pos + Header th + unat (LVT th) \<le> length buf" by (simp add: slice_def split: if_splits)
    then show ?thesis using "1.IH"(4) [OF prim(1-2) _ prim(4-5) _ prim(7)] prim by simp
  qed
qed

lemma at_prim_bound:
  assumes "decAt buf pos decodeTagHeader = Ok th"
    and "\<not> (word_of_nat (length buf - (pos + Header th)) :: u32) < LVT th"
  shows "pos + Header th + unat (LVT th) \<le> length buf"
  using at_tag_bound [OF assms(1)] length_ge_LVT [OF assms(2)] by linarith

lemma at_nested_bound:
  assumes "decAt buf p (\<lambda>b. decodeNestedLoop b depth [] 0) = Ok itemsn"
  shows "p + snd itemsn \<le> length buf"
  using assms decodeNestedLoop_bound [of "drop p buf" depth "[]" 0 itemsn] by (auto simp: decAt_Ok_iff)

lemma decodeNestedLoop_safe [safe_intros]: "safe (decodeNestedLoop buf depth vs pos)"
proof (induction buf depth vs pos rule: decodeNestedLoop.induct)
  case (1 buf depth vs pos)
  show ?case
    by (subst decodeNestedLoop.simps, intro safe_intros)
      (simp_all add: "1.IH" at_tag_bound at_prim_bound at_nested_bound decAt_drop del: One_nat_def add_Suc_right)
qed

lemma decodeNestedValues_safe [safe_intros]: "safe (decodeNestedValues buf depth)"
  by (simp add: decodeNestedValues_def decodeNestedLoop_safe)

interpretation valueRun: decoder_contract decodeValues
proof
  show "safe (decodeValues b)" for b
    by (simp add: decodeValues_def decodeNestedValues_safe)
  show "n \<le> length b" if "decodeValues b = Ok (x, n)" for b x n
    using that decodeNestedLoop_bound [of b 0 "[]" 0 "(x, n)"]
    by (simp add: decodeValues_def decodeNestedValues_def)
qed

end
