(* ===== verification/Bacnet_Value_Codec.thy ===== *)
theory Bacnet_Value_Codec
  imports Bacnet_Value
begin

text \<open>
  Round trips of \<^verbatim>\<open>internal/bacnet/value.go\<close>: the encoders as a pure function from values to
  octets, the values that have a faithful encoding, and the proof that decoding inverts encoding
  on them, for single values, for the data of context-tagged parameters and for runs of nested
  values.
\<close>

section \<open>The encoders as a function\<close>

definition dataOf :: "Value \<Rightarrow> byte list" where
  "dataOf v = (case v of
     UnsignedValue n \<Rightarrow> minUnsignedBytes n
   | SignedValue n \<Rightarrow> minSignedBytes n
   | RealValue x \<Rightarrow> putUint32 x
   | DoubleValue x \<Rightarrow> putUint64 x
   | OctetStringValue octets \<Rightarrow> octets
   | CharStringValue str \<Rightarrow> 0 # bytesOf str
   | BitStringValue bits \<Rightarrow> encodeBitStringData bits
   | EnumeratedValue n \<Rightarrow> minUnsignedBytes (ucast n)
   | DateValue d \<Rightarrow> encodeDateData d
   | TimeValue t \<Rightarrow> encodeTimeData t
   | ObjectIDValue i \<Rightarrow> putUint32 (objectIDWord i)
   | _ \<Rightarrow> [])"

definition isPrimitive :: "Value \<Rightarrow> bool" where
  "isPrimitive v = (case v of ContextPrimitiveValue _ _ \<Rightarrow> False | ConstructedValue _ _ \<Rightarrow> False | _ \<Rightarrow> True)"

definition tagged :: "byte \<Rightarrow> bool \<Rightarrow> byte list \<Rightarrow> byte list" where
  "tagged t c data = tagHeader t c (word_of_nat (length data)) @ data"

definition contextBytes :: "bool \<Rightarrow> byte \<Rightarrow> Value \<Rightarrow> byte list" where
  "contextBytes c t v = (case v of
     BoolValue b \<Rightarrow> if c then tagged t True [if b then 1 else 0] else tagHeader t False (if b then 1 else 0)
   | _ \<Rightarrow> tagged t c (dataOf v))"

fun appTag :: "Value \<Rightarrow> byte" where
  "appTag v = (case applicationTagFor v of Ok t \<Rightarrow> t | _ \<Rightarrow> 0)"

fun valueBytes :: "Value \<Rightarrow> byte list" where
  "valueBytes (ContextPrimitiveValue tag octets) = tagged tag True octets"
| "valueBytes (ConstructedValue tag items) =
     openingTag tag @ concat (map valueBytes items) @ closingTag tag"
| "valueBytes v = contextBytes False (appTag v) v"

lemma data_lengths [simp]:
  "length (encodeDateData d) = 4" "length (encodeTimeData t) = 4"
  by (simp_all add: encodeDateData_def encodeTimeData_def)

lemma AppendContextValue_eq:
  "isPrimitive v \<Longrightarrow> AppendContextValue buf c t v = Ok (buf @ contextBytes c t v)"
  by (cases v) (simp_all add: AppendContextValue_def contextBytes_def isPrimitive_def dataOf_def
      appendData_def appendTagHeader_eq tagged_def)

lemma AppendValue_eq:
  "AppendValue buf v = Ok (buf @ valueBytes v)"
  "AppendValues buf vs = Ok (buf @ concat (map valueBytes vs))"
proof (induction buf v and buf vs rule: AppendValue_AppendValues.induct)
qed (simp_all add: applicationTagFor_def AppendContextValue_eq isPrimitive_def appendTagHeader_eq
    appendMarker_eq tagged_def)

section \<open>Data of primitive values\<close>

lemma length_foldl_setBit [simp]: "length (foldl setBit out ibs) = length out"
  by (induction ibs arbitrary: out) (auto simp: setBit_def split: prod.splits)

lemma length_encodeBitStringData: "length (encodeBitStringData bits) = 1 + (length bits + 7) div 8"
  by (simp add: encodeBitStringData_def Let_def)

lemma drop_bit_0x80: "k < 8 \<Longrightarrow> drop_bit k (0x80 :: byte) = 2 ^ (7 - k)"
proof -
  assume "k < 8"
  then have "k \<in> {0, 1, 2, 3, 4, 5, 6, 7}" by auto
  then show ?thesis by auto
qed

lemma and_mask_0x80: "(x :: byte) AND drop_bit (i mod 8) 0x80 \<noteq> 0 \<longleftrightarrow> bit x (7 - i mod 8)"
  by (simp add: drop_bit_0x80 and_exp_eq_0_iff_not_bit)

lemma bit_or_mask: "bit ((x :: byte) OR drop_bit (i mod 8) 0x80) (7 - j mod 8)
    \<longleftrightarrow> bit x (7 - j mod 8) \<or> i mod 8 = j mod 8"
proof -
  have "i mod 8 < 8" "j mod 8 < 8" by simp_all
  then show ?thesis by (auto simp: drop_bit_0x80 bit_simps)
qed

lemma foldl_setBit_bit:
  assumes "1 + (n + length bits + 7) div 8 \<le> length out" and "1 + j div 8 < length out"
  shows "bit (foldl setBit out (enumerate n bits) ! (1 + j div 8)) (7 - j mod 8)
    \<longleftrightarrow> bit (out ! (1 + j div 8)) (7 - j mod 8) \<or> (n \<le> j \<and> j < n + length bits \<and> bits ! (j - n))"
  using assms
proof (induction bits arbitrary: n out)
  case Nil
  then show ?case by auto
next
  case (Cons b bits)
  let ?out = "setBit out (n, b)"
  have len: "length ?out = length out" by (simp add: setBit_def)
  have "n div 8 \<le> (n + length bits + 7) div 8" by (intro div_le_mono) simp
  then have n: "1 + n div 8 < length out"
    using Cons.prems(1) by (simp add: div_add_self2 [of 8, symmetric, simplified] add.commute)
  have eq: "n = j" if "n div 8 = j div 8" "n mod 8 = j mod 8"
    using that by (metis div_mult_mod_eq)
  have "bit (?out ! (1 + j div 8)) (7 - j mod 8) \<longleftrightarrow> bit (out ! (1 + j div 8)) (7 - j mod 8) \<or> (b \<and> j = n)"
    using n eq by (auto simp: setBit_def nth_list_update bit_or_mask)
  moreover have "(n \<le> j \<and> j < n + length (b # bits) \<and> (b # bits) ! (j - n))
      \<longleftrightarrow> (b \<and> j = n) \<or> (Suc n \<le> j \<and> j < Suc n + length bits \<and> bits ! (j - Suc n))"
  proof (cases "j \<le> n")
    case False
    then have "j - n = Suc (j - Suc n)" by simp
    with False show ?thesis by auto
  qed auto
  moreover have "bit (foldl setBit ?out (enumerate (Suc n) bits) ! (1 + j div 8)) (7 - j mod 8)
    \<longleftrightarrow> bit (?out ! (1 + j div 8)) (7 - j mod 8)
      \<or> (Suc n \<le> j \<and> j < Suc n + length bits \<and> bits ! (j - Suc n))"
    using Cons.prems by (intro Cons.IH) (simp_all add: len)
  ultimately show ?case by (simp only: enumerate_simps foldl_Cons disj_assoc)
qed

lemma unat_octet: "n < 8 \<Longrightarrow> unat (word_of_nat n :: byte) = n"
  by (simp add: unat_of_nat)

lemma octets_for_bits_aux:
  assumes "m < 8"
  shows "(8 * q + m + 7) div 8 * 8 = 8 * q + m + (8 - m) mod (8 :: nat)"
proof (cases "m = 0")
  case False
  then have "(8 * q + m + 7) div 8 = Suc q" using assms by (intro div_nat_eqI) simp_all
  then show ?thesis using False assms by simp
qed simp

lemma octets_for_bits: "(n + 7) div 8 * 8 = n + (8 - n mod 8) mod (8 :: nat)"
  using octets_for_bits_aux [of "n mod 8" "n div 8"] by simp

lemma decodeBitStringData_roundtrip: "decodeBitStringData (encodeBitStringData bits) = Ok bits"
proof -
  let ?L = "length bits" and ?e = "encodeBitStringData bits"
  let ?unused = "(8 - ?L mod 8) mod 8"
  let ?out = "(replicate (1 + (?L + 7) div 8) 0)[0 := word_of_nat ?unused :: byte]"
  have e: "?e = foldl setBit ?out (enumerate 0 bits)" by (simp add: encodeBitStringData_def Let_def)
  have len: "length ?e = 1 + (?L + 7) div 8" by (rule length_encodeBitStringData)
  have keep0: "foldl setBit out ibs ! 0 = out ! 0" for out :: "byte list" and ibs
    by (induction ibs arbitrary: out) (auto simp: setBit_def split: prod.splits)
  have "?e ! 0 = word_of_nat ?unused" by (simp add: e keep0)
  moreover have "unat (word_of_nat ?unused :: byte) = ?unused"
    by (rule unat_octet) simp
  ultimately have unused: "uint (?e ! 0) = int ?unused" by (simp only: uint_nat)
  have "(?L + 7) div 8 * 8 = ?L + ?unused" by (rule octets_for_bits)
  then have total: "int ((length ?e - 1) * 8) - uint (?e ! 0) = int ?L"
    by (simp add: len unused algebra_simps)
  have "index ?e (1 + i div 8) = (Ok (?e ! (1 + i div 8)) :: byte result)
      \<and> (?e ! (1 + i div 8) AND drop_bit (i mod 8) 0x80 \<noteq> 0) = bits ! i" if "i < ?L" for i
  proof -
    have "i div 8 < (?L + 7) div 8" using that by simp
    then have i: "1 + i div 8 < length ?e" by (simp add: len)
    have "?out ! (1 + i div 8) = 0" using i by (simp add: len)
    then have "bit (?e ! (1 + i div 8)) (7 - i mod 8) = bits ! i"
      using foldl_setBit_bit [of 0 bits ?out i] i that by (simp add: e)
    then show ?thesis using i by (simp only: and_mask_0x80 index_Ok simp_thms)
  qed
  then have "mapR (\<lambda>i. res_bind (index ?e (1 + i div 8)) (\<lambda>byt.
      Ok (byt AND drop_bit (i mod 8) 0x80 \<noteq> 0))) [0..<?L] = (Ok (map ((!) bits) [0..<?L]) :: bool list result)"
    by (intro mapR_Ok) (simp only: set_upt atLeastLessThan_iff res_bind.simps)
  then show ?thesis
    using total len by (simp add: decodeBitStringData_def index_Ok map_nth)
qed

text \<open>Which dates, times and identifiers have an encoding of their own.\<close>

definition wireField :: "int \<Rightarrow> bool" where
  "wireField v \<longleftrightarrow> v = - 1 \<or> 0 \<le> v \<and> v < 255"

definition wireDate :: "Date \<Rightarrow> bool" where
  "wireDate d \<longleftrightarrow> (Year d = - 1 \<or> 1900 \<le> Year d \<and> Year d < 2155)
     \<and> wireField (Month d) \<and> wireField (Day d) \<and> wireField (DayOfWeek d)"

definition wireTime :: "Time \<Rightarrow> bool" where
  "wireTime t \<longleftrightarrow> wireField (Hour t) \<and> wireField (Minute t) \<and> wireField (Second t) \<and> wireField (Hundredth t)"

definition wireObject :: "ObjectIdentifier \<Rightarrow> bool" where
  "wireObject i \<longleftrightarrow> Type i < 1024 \<and> Instance i < 4194304"

lemma field_roundtrip: "wireField v \<Longrightarrow> decodeField (encodeField v) = v"
  by (auto simp: wireField_def decodeField_def encodeField_def word_uint_eq_iff uint_word_of_int)

lemma year_roundtrip:
  assumes "y = - 1 \<or> 1900 \<le> y \<and> y < 2155"
  shows "(if encodeField (y - 1900) \<noteq> 255 then uint (encodeField (y - 1900)) + 1900 else - 1) = y"
proof -
  obtain z where z: "y = z + 1900" by (metis diff_add_cancel)
  from assms show ?thesis unfolding z
    by (auto simp: encodeField_def word_uint_eq_iff uint_word_of_int)
qed

lemma decodeDateData_roundtrip: "wireDate d \<Longrightarrow> decodeDateData (encodeDateData d) = Ok d"
  by (cases d) (simp add: year_roundtrip [simplified if_split] wireDate_def decodeDateData_def encodeDateData_def field_roundtrip)

lemma decodeTimeData_roundtrip: "wireTime t \<Longrightarrow> decodeTimeData (encodeTimeData t) = Ok t"
  by (cases t) (simp add: wireTime_def decodeTimeData_def encodeTimeData_def field_roundtrip)

lemma objectIDWord_fields:
  assumes "t < (1024 :: u32)" and "i < (4194304 :: u32)"
  shows "drop_bit 22 (push_bit 22 t OR (i AND 0x3FFFFF)) = t"
    and "(push_bit 22 t OR (i AND 0x3FFFFF)) AND 0x3FFFFF = i"
proof -
  have t: "take_bit 10 t = t" and i: "take_bit 22 i = i"
    using assms take_bit_less [of t 10] take_bit_less [of i 22] by simp_all
  have m: "(0x3FFFFF :: u32) = mask 22" by (simp add: mask_eq_exp_minus_1)
  have "drop_bit 22 (push_bit 22 (take_bit 10 t) OR (i AND 0x3FFFFF)) = take_bit 10 t"
    unfolding m by (rule bit_word_eqI) (auto simp: bit_simps)
  then show "drop_bit 22 (push_bit 22 t OR (i AND 0x3FFFFF)) = t" by (simp add: t)
  have "(push_bit 22 t OR (i AND 0x3FFFFF)) AND 0x3FFFFF = take_bit 22 i"
    unfolding m by (rule bit_word_eqI) (auto simp: bit_simps)
  then show "(push_bit 22 t OR (i AND 0x3FFFFF)) AND 0x3FFFFF = i" by (simp add: i)
qed

lemma decodeObjectIDData_roundtrip:
  "wireObject i \<Longrightarrow> decodeObjectIDData (putUint32 (objectIDWord i)) = Ok i"
  using objectIDWord_fields [of "Type i" "Instance i"]
  by (simp add: wireObject_def decodeObjectIDData_def objectIDWord_def del: drop_bit_or push_bit_or)

text \<open>
  The primitive values that are equal to their decoded encoding. The data must fit the 32-bit
  length; a string must be valid UTF-8, because invalid bytes come back as U+FFFD.
\<close>

definition wirePrimitive :: "Value \<Rightarrow> bool" where
  "wirePrimitive v = (case v of
     OctetStringValue octets \<Rightarrow> length octets < 2 ^ 32
   | CharStringValue s \<Rightarrow> validUTF8 (bytesOf s) \<and> length s + 1 < 2 ^ 32
   | BitStringValue bits \<Rightarrow> length bits < 2 ^ 32
   | DateValue d \<Rightarrow> wireDate d
   | TimeValue t \<Rightarrow> wireTime t
   | ObjectIDValue i \<Rightarrow> wireObject i
   | ContextPrimitiveValue _ _ \<Rightarrow> False
   | ConstructedValue _ _ \<Rightarrow> False
   | _ \<Rightarrow> True)"

lemma wirePrimitive_isPrimitive: "wirePrimitive v \<Longrightarrow> isPrimitive v"
  by (cases v) (simp_all add: wirePrimitive_def isPrimitive_def)

lemma length_dataOf: "wirePrimitive v \<Longrightarrow> length (dataOf v) < 2 ^ 32"
  using minUnsignedBytes_length minSignedBytes_length
  by (cases v) (auto simp: dataOf_def wirePrimitive_def length_encodeBitStringData
      intro: le_less_trans [of _ 8])

lemma unat_len: "n < 2 ^ 32 \<Longrightarrow> unat (word_of_nat n :: u32) = n"
  by (simp add: unat_of_nat)

lemma decodePrimitive_roundtrip:
  assumes "wirePrimitive v" and "v \<notin> range BoolValue"
  shows "decodePrimitive (appTag v) (dataOf v) = Ok v"
proof -
  have ucast_enum: "ucast (ucast n :: u64) = n" for n :: u32
    by (rule bit_word_eqI) (simp add: bit_simps)
  show ?thesis
    using assms by (cases v) (simp_all add: decodePrimitive_def dataOf_def applicationTagFor_def
      Tag_defs wirePrimitive_def decodeUnsignedData_eq decodeSignedData_eq
      decodeBitStringData_roundtrip decodeDateData_roundtrip decodeTimeData_roundtrip
      decodeObjectIDData_roundtrip decodeCharacterString_def charset_defs ToValidUTF8_id
      minUnsignedBytes_value minSignedBytes_value ucast_enum decAt_def)
qed

section \<open>Application-tagged values\<close>

lemma valueBytes_primitive: "isPrimitive v \<Longrightarrow> valueBytes v = contextBytes False (appTag v) v"
  by (cases v) (simp_all add: isPrimitive_def)

lemma contextBytes_tagged:
  "v \<notin> range BoolValue \<Longrightarrow> contextBytes c t v = tagged t c (dataOf v)"
  by (cases v) (simp_all add: contextBytes_def)

lemma decodeTagHeader_tagged:
  "decodeTagHeader (tagged t c data @ r)
    = Ok \<lparr>Number = t, Context = c, LVT = word_of_nat (length data),
          Header = length (tagHeader t c (word_of_nat (length data)))\<rparr>"
  by (simp add: tagged_def decodeTagHeader_roundtrip)

lemma length_enough: "\<not> (word_of_nat (length (data @ r)) :: u32) < word_of_nat (length data)"
  if "length (data @ r) < 2 ^ 32"
  using that by (simp add: word_less_nat_alt unat_of_nat del: of_nat_add)

lemma appTag_neq_bool: "isPrimitive v \<Longrightarrow> v \<notin> range BoolValue \<Longrightarrow> appTag v \<noteq> TagBoolean"
  by (cases v) (auto simp: applicationTagFor_def Tag_defs isPrimitive_def)

lemma decodeApplicationValue_roundtrip:
  assumes v: "wirePrimitive v" and len: "fits (valueBytes v @ r)"
  shows "decodeApplicationValue (valueBytes v @ r) = Ok (v, length (valueBytes v))"
proof (cases "v \<in> range BoolValue")
  case True
  then obtain b where "v = BoolValue b" by auto
  then show ?thesis
    by (simp add: decodeApplicationValue_def contextBytes_def applicationTagFor_def
        decodeTagHeader_roundtrip)
next
  case False
  note prim = wirePrimitive_isPrimitive [OF v]
  have bytes: "valueBytes v = tagged (appTag v) False (dataOf v)"
    by (simp only: valueBytes_primitive [OF prim] contextBytes_tagged [OF False])
  have "length (dataOf v @ r) < 2 ^ 32" using len by (simp add: bytes tagged_def fits_def)
  from length_enough [OF this] show ?thesis
    unfolding bytes decodeApplicationValue_def decodeTagHeader_tagged
    using appTag_neq_bool [OF prim False] decodePrimitive_roundtrip [OF v False] length_dataOf [OF v]
    by (simp add: tagged_def unat_len slice_def del: appTag.simps)
qed

interpretation appCodec: codec decodeApplicationValue valueBytes wirePrimitive
  by standard (rule decodeApplicationValue_roundtrip)

section \<open>Runs of nested values\<close>

text \<open>
  A value that may nest \<open>d\<close> levels deep and comes back from the wire: its context-tagged
  primitives must not be 6 or 7 octets long, because the code's header decoder takes those
  lengths for opening and closing tags.
\<close>

fun wireValue :: "nat \<Rightarrow> Value \<Rightarrow> bool" where
  "wireValue d (ContextPrimitiveValue tag octets) \<longleftrightarrow> length octets \<noteq> 6 \<and> length octets \<noteq> 7"
| "wireValue 0 (ConstructedValue tag items) \<longleftrightarrow> False"
| "wireValue (Suc d) (ConstructedValue tag items) \<longleftrightarrow> list_all (wireValue d) items"
| "wireValue d v \<longleftrightarrow> wirePrimitive v"

abbreviation "valuesBytes vs \<equiv> concat (map valueBytes vs)"

definition endsRun :: "byte list \<Rightarrow> bool" where
  "endsRun rest \<longleftrightarrow> rest = [] \<or> (\<exists>th. decodeTagHeader rest = Ok th \<and> IsClosing th)"

lemma endsRun_Nil [simp]: "endsRun []"
  by (simp add: endsRun_def)

lemma endsRun_closing [simp]: "endsRun (closingTag t @ r)"
  by (auto simp: endsRun_def decodeTagHeader_marker)

lemma loop_end:
  assumes "endsRun rest"
  shows "decodeNestedLoop (pre @ rest) depth vs (length pre) = Ok (vs, length pre)"
proof (cases rest)
  case Nil
  then show ?thesis by (subst decodeNestedLoop.simps) simp
next
  case (Cons b bs)
  with assms obtain th where "decodeTagHeader rest = Ok th" "IsClosing th"
    by (auto simp: endsRun_def)
  with Cons show ?thesis
    by (subst decodeNestedLoop.simps) (simp add: IsClosing_def)
qed

lemma valueBytes_neq_Nil [simp]: "valueBytes v \<noteq> []"
  by (cases v) (simp_all add: tagged_def contextBytes_def markerTag_def)

lemma decodeTagHeader_primitive:
  assumes "isPrimitive v"
  obtains th where "decodeTagHeader (valueBytes v @ r) = Ok th" "\<not> Context th"
proof (cases "v \<in> range BoolValue")
  case True
  then show thesis
    using that by (auto simp: contextBytes_def decodeTagHeader_roundtrip)
next
  case False
  then show thesis
    using that assms by (simp add: valueBytes_primitive contextBytes_tagged decodeTagHeader_tagged)
qed

lemma loop_primitive:
  assumes "wirePrimitive v" and "fits (valueBytes v @ r)"
  shows "decodeNestedLoop (pre @ valueBytes v @ r) depth vs (length pre)
    = decodeNestedLoop (pre @ valueBytes v @ r) depth (vs @ [v]) (length pre + length (valueBytes v))"
proof -
  obtain th where "decodeTagHeader (valueBytes v @ r) = Ok th" "\<not> Context th"
    using decodeTagHeader_primitive [OF wirePrimitive_isPrimitive [OF assms(1)]] .
  with appCodec.roundtrip [OF assms] show ?thesis
    by (subst decodeNestedLoop.simps) (simp add: Let_def)
qed

lemma len_not_marker:
  assumes "length octets < 2 ^ 32" "length octets \<noteq> 6" "length octets \<noteq> 7"
  shows "(word_of_nat (length octets) :: u32) \<noteq> 6" "(word_of_nat (length octets) :: u32) \<noteq> 7"
  using assms by (simp_all add: word_unat_eq_iff unat_of_nat)

lemma loop_context:
  assumes "length octets \<noteq> 6" "length octets \<noteq> 7" and fits: "fits (tagged tag True octets @ r)"
  shows "decodeNestedLoop (pre @ tagged tag True octets @ r) depth vs (length pre)
    = decodeNestedLoop (pre @ tagged tag True octets @ r) depth
        (vs @ [ContextPrimitiveValue tag octets]) (length pre + length (tagged tag True octets))"
proof -
  let ?h = "tagHeader tag True (word_of_nat (length octets))"
  have len: "length (octets @ r) < 2 ^ 32" using fits by (simp add: tagged_def fits_def)
  then have oct: "length octets < 2 ^ 32" by simp
  have enough: "\<not> (word_of_nat (length (pre @ ?h @ octets @ r) - (length pre + length ?h)) :: u32)
      < word_of_nat (length octets)"
    using length_enough [OF len] by simp
  have data: "slice (pre @ ?h @ octets @ r) (length pre + length ?h)
      (length pre + length ?h + length octets) = (Ok octets :: byte list result)"
    by (simp add: slice_def)
  show ?thesis
    using len_not_marker [OF oct assms(1,2)] enough data decodeTagHeader_tagged [of tag True octets r]
    by (subst decodeNestedLoop.simps)
      (simp add: tagged_def unat_len [OF oct] IsClosing_def IsOpening_def openingLVT_def
        closingLVT_def add.assoc)
qed

lemma expectClosing_closing [simp]: "expectClosing t (closingTag t @ r) = Ok (length (closingTag t))"
  by (simp add: expectClosing_def decodeTagHeader_marker)

lemma expectOpening_opening [simp]: "expectOpening t (openingTag t @ r) = Ok (length (openingTag t))"
  by (simp add: expectOpening_def decodeTagHeader_marker)

lemma loop_constructed:
  assumes "depth < maxNesting"
    and inner: "decodeNestedLoop (body @ closingTag t @ r) (Suc depth) [] 0 = Ok (items, length body)"
  shows "decodeNestedLoop (pre @ (openingTag t @ body @ closingTag t) @ r) depth vs (length pre)
    = decodeNestedLoop (pre @ (openingTag t @ body @ closingTag t) @ r) depth
        (vs @ [ConstructedValue t items])
        (length pre + length (openingTag t @ body @ closingTag t))"
proof -
  let ?o = "openingTag t" and ?c = "closingTag t"
  have rest: "decAt (pre @ ?o @ body @ ?c @ r) (length pre + length ?o) (\<lambda>b. d b) = d (body @ ?c @ r)"
    for d :: "byte list \<Rightarrow> (Value list \<times> nat) result"
    by simp
  have clos: "decAt (pre @ ?o @ body @ ?c @ r) (length pre + length ?o + length body) (expectClosing t)
      = Ok (length ?c)"
    by (simp add: add.assoc)
  show ?thesis
    using assms(1) inner rest clos
    by (subst decodeNestedLoop.simps)
      (simp add: decodeTagHeader_marker add.assoc not_le)
qed

lemma decodeNestedLoop_roundtrip:
  assumes "list_all (wireValue (maxNesting - depth)) ws" and "endsRun rest"
    and "fits (valuesBytes ws @ rest)"
  shows "decodeNestedLoop (pre @ valuesBytes ws @ rest) depth vs (length pre)
    = Ok (vs @ ws, length pre + length (valuesBytes ws))"
  using assms
proof (induction ws arbitrary: depth rest pre vs rule: measure_induct_rule [of "size_list size"])
  case (less ws)
  show ?case
  proof (cases ws)
    case Nil
    then show ?thesis using loop_end [OF less.prems(2)] by simp
  next
    case (Cons v us)
    have us: "decodeNestedLoop ((pre @ valueBytes v) @ valuesBytes us @ rest) depth (vs @ [v])
        (length (pre @ valueBytes v)) = Ok ((vs @ [v]) @ us, length (pre @ valueBytes v) + length (valuesBytes us))"
      using less.prems by (intro less.IH) (simp_all add: Cons fits_def)
    have fits: "fits (valueBytes v @ valuesBytes us @ rest)"
      using less.prems(3) by (simp add: Cons)
    have v: "wireValue (maxNesting - depth) v" using less.prems(1) by (simp add: Cons)
    have "decodeNestedLoop (pre @ valueBytes v @ valuesBytes us @ rest) depth vs (length pre)
      = decodeNestedLoop (pre @ valueBytes v @ valuesBytes us @ rest) depth (vs @ [v])
          (length pre + length (valueBytes v))"
    proof (cases v)
      case (ContextPrimitiveValue tag octets)
      then show ?thesis using v fits loop_context [of octets tag] by simp
    next
      case (ConstructedValue t items)
      then obtain d where d: "maxNesting - depth = Suc d" and items: "list_all (wireValue d) items"
        using v by (cases "maxNesting - depth") auto
      have "d = maxNesting - Suc depth" using d by simp
      moreover have "size_list size items < size_list size ws"
        by (simp add: Cons ConstructedValue)
      ultimately have "decodeNestedLoop ([] @ valuesBytes items @ closingTag t @ valuesBytes us @ rest)
          (Suc depth) [] (length ([] :: byte list)) = Ok ([] @ items, length ([] :: byte list) + length (valuesBytes items))"
        using items fits by (intro less.IH) (simp_all add: ConstructedValue fits_def)
      then show ?thesis
        using d loop_constructed [of depth "valuesBytes items" t "valuesBytes us @ rest" items pre vs]
        by (simp add: ConstructedValue)
    qed (use v fits loop_primitive [of v "valuesBytes us @ rest"] in \<open>simp_all del: valueBytes.simps\<close>)
    then show ?thesis using us by (simp add: Cons)
  qed
qed

lemma decodeValues_roundtrip:
  assumes "list_all (wireValue maxNesting) vs" and "endsRun rest" and "fits (valuesBytes vs @ rest)"
  shows "decodeValues (valuesBytes vs @ rest) = Ok (vs, length (valuesBytes vs))"
  using decodeNestedLoop_roundtrip [of 0 vs rest "[]" "[]"] assms
  by (simp add: decodeValues_def decodeNestedValues_def)

section \<open>Runs of application-tagged values\<close>

lemma decodeAppLoop_roundtrip:
  assumes "list_all wirePrimitive ws" and "fits (valuesBytes ws)"
  shows "decodeAppLoop (pre @ valuesBytes ws) vs (length pre)
    = Ok (vs @ ws, length pre + length (valuesBytes ws))"
  using assms
proof (induction ws arbitrary: pre vs)
  case Nil
  then show ?case by (subst decodeAppLoop.simps) simp
next
  case (Cons v ws)
  obtain th where "decodeTagHeader (valueBytes v @ valuesBytes ws) = Ok th" "\<not> Context th"
    using decodeTagHeader_primitive [of v] wirePrimitive_isPrimitive Cons.prems by auto
  moreover have "fits (valueBytes v @ valuesBytes ws)" using Cons.prems by simp
  moreover have "decodeAppLoop ((pre @ valueBytes v) @ valuesBytes ws) (vs @ [v]) (length (pre @ valueBytes v))
      = Ok ((vs @ [v]) @ ws, length (pre @ valueBytes v) + length (valuesBytes ws))"
    using Cons.prems by (intro Cons.IH) (simp_all add: fits_def)
  ultimately show ?case
    using appCodec.roundtrip [of v "valuesBytes ws"] Cons.prems
    by (subst decodeAppLoop.simps) simp
qed

lemma decodeApplicationValues_roundtrip:
  assumes "list_all wirePrimitive vs" and "fits (valuesBytes vs)"
  shows "decodeApplicationValues (valuesBytes vs) = Ok (vs, length (valuesBytes vs))"
  using decodeAppLoop_roundtrip [of vs "[]" "[]"] assms by (simp add: decodeApplicationValues_def)

lemma decodeAppLoop_safe [safe_intros]: "safe (decodeAppLoop buf vs pos)"
proof (induction buf vs pos rule: decodeAppLoop.induct)
  case (1 buf vs pos)
  show ?case
    by (subst decodeAppLoop.simps, intro safe_intros) (auto simp: decAt_drop intro: "1.IH")
qed

lemma decodeApplicationValues_safe [safe_intros]: "safe (decodeApplicationValues buf)"
  by (simp add: decodeApplicationValues_def decodeAppLoop_safe)

end
