(* ===== verification/Mock_Device.thy ===== *)
theory Mock_Device
  imports Bacnet_Value_Codec "HOL-Library.AList"
begin

text \<open>
  \<^verbatim>\<open>internal/bacnetmock/device.go\<close>: the in-memory BACnet device. The lemmas show the priority
  array rules for writing and relinquishing, that the object list is the sorted list of the
  device's objects and what reads of its elements return, and that reads and writes touch nothing
  else.
\<close>

section \<open>State\<close>

datatype objectKey = objectKey (keyType: ObjectType) (keyInstance: u32)

instantiation objectKey :: linorder
begin

definition less_objectKey :: "objectKey \<Rightarrow> objectKey \<Rightarrow> bool" where
  "a < b \<longleftrightarrow> (if keyType a \<noteq> keyType b then keyType a < keyType b else keyInstance a < keyInstance b)"

definition less_eq_objectKey :: "objectKey \<Rightarrow> objectKey \<Rightarrow> bool" where
  "a \<le> b \<longleftrightarrow> a = b \<or> a < (b :: objectKey)"

instance
  by standard (auto simp: less_objectKey_def less_eq_objectKey_def objectKey.expand split: if_splits)

end

record property =
  val :: Value
  plist :: "Value list option"
  priorities :: "Value option list"
  commandable :: bool

definition plainProperty :: "Value \<Rightarrow> property" where
  "plainProperty v = \<lparr>val = v, plist = None, priorities = replicate 16 None, commandable = False\<rparr>"

fun firstSet :: "'a option list \<Rightarrow> 'a option" where
  "firstSet [] = None"
| "firstSet (None # vs) = firstSet vs"
| "firstSet (Some v # vs) = Some v"

definition effectiveValue :: "property \<Rightarrow> Value" where
  "effectiveValue p =
    (if commandable p then case firstSet (priorities p) of Some v \<Rightarrow> v | None \<Rightarrow> val p else val p)"

type_synonym properties = "(PropertyIdentifier \<times> property) list"

record Device =
  devInstance :: u32
  devVendorID :: u32
  devVendorName :: string
  devModelName :: string
  objects :: "(objectKey \<times> properties) list"

definition NewDevice :: "u32 \<Rightarrow> Device" where
  "NewDevice inst = \<lparr>devInstance = inst, devVendorID = 999,
     devVendorName = ''bacnet-ip-rest-proxy mock'', devModelName = ''mock-device'',
     objects = [(objectKey ObjectDevice inst,
       [(PropObjectName, plainProperty (CharStringValue ''mock-device'')),
        (PropVendorName, plainProperty (CharStringValue ''bacnet-ip-rest-proxy mock'')),
        (PropModelName, plainProperty (CharStringValue ''mock-device''))])]\<rparr>"

section \<open>Seeding\<close>

definition seededProperty :: "ObjectType \<Rightarrow> PropertyIdentifier \<Rightarrow> Value \<Rightarrow> property" where
  "seededProperty objType prop v =
    (if Commandable objType prop
     then (plainProperty v)\<lparr>commandable := True, priorities := (replicate 16 None)[15 := Some v]\<rparr>
     else plainProperty v)"

definition AddObject :: "Device \<Rightarrow> ObjectType \<Rightarrow> u32 \<Rightarrow> (PropertyIdentifier \<times> Value) list \<Rightarrow> Device" where
  "AddObject d objType inst values =
    d\<lparr>objects := AList.update (objectKey objType inst)
        (map (\<lambda>(prop, v). (prop, seededProperty objType prop v)) values) (objects d)\<rparr>"

definition propertiesOf :: "Device \<Rightarrow> objectKey \<Rightarrow> properties" where
  "propertiesOf d key = (case map_of (objects d) key of Some ps \<Rightarrow> ps | None \<Rightarrow> [])"

definition putProperty :: "Device \<Rightarrow> objectKey \<Rightarrow> PropertyIdentifier \<Rightarrow> property \<Rightarrow> Device" where
  "putProperty d key prop p =
    d\<lparr>objects := AList.update key (AList.update prop p (propertiesOf d key)) (objects d)\<rparr>"

definition SetProperty :: "Device \<Rightarrow> ObjectType \<Rightarrow> u32 \<Rightarrow> PropertyIdentifier \<Rightarrow> Value \<Rightarrow> Device" where
  "SetProperty d objType inst prop v = putProperty d (objectKey objType inst) prop (plainProperty v)"

definition SetPropertyList ::
  "Device \<Rightarrow> ObjectType \<Rightarrow> u32 \<Rightarrow> PropertyIdentifier \<Rightarrow> Value list option \<Rightarrow> Device" where
  "SetPropertyList d objType inst prop values =
    putProperty d (objectKey objType inst) prop ((plainProperty NullValue)\<lparr>plist := values\<rparr>)"

section \<open>Reading and writing\<close>

definition keyObject :: "objectKey \<Rightarrow> ObjectIdentifier" where
  "keyObject k = \<lparr>Type = keyType k, Instance = keyInstance k\<rparr>"

definition objectList :: "Device \<Rightarrow> Value list" where
  "objectList d = map (\<lambda>k. ObjectIDValue (keyObject k)) (sort (map fst (objects d)))"

type_synonym 'a deviceResult = "(BACnetError, 'a) res"

definition bacnetErr :: "ErrorClass \<Rightarrow> ErrorCode \<Rightarrow> BACnetError" where
  "bacnetErr c e = \<lparr>Class = c, Code = e\<rparr>"

definition thisInstance :: "Device \<Rightarrow> ObjectType \<Rightarrow> u32 \<Rightarrow> u32" where
  "thisInstance d objType inst =
    (if objType = ObjectDevice \<and> inst = DeviceInstanceWildcard then devInstance d else inst)"

definition readProperty ::
  "Device \<Rightarrow> ObjectType \<Rightarrow> u32 \<Rightarrow> PropertyIdentifier \<Rightarrow> u32 option \<Rightarrow> Value list deviceResult" where
  "readProperty d objType inst0 prop arrayIndex =
    (let inst = thisInstance d objType inst0 in
     if objType = ObjectDevice \<and> inst = devInstance d \<and> prop = PropObjectList then
       let list = objectList d in
       case arrayIndex of
         None \<Rightarrow> Ok list
       | Some i \<Rightarrow>
           if i = 0 then Ok [UnsignedValue (word_of_nat (length list))]
           else if unat i \<le> length list then slice list (unat (i - 1)) (unat i)
           else Err (bacnetErr ErrorClassProperty ErrorCodeInvalidArrayIndex)
     else case map_of (objects d) (objectKey objType inst) of
       None \<Rightarrow> Err (bacnetErr ErrorClassObject ErrorCodeUnknownObject)
     | Some props \<Rightarrow>
         if prop = PropObjectID then Ok [ObjectIDValue \<lparr>Type = objType, Instance = inst\<rparr>]
         else case map_of props prop of
           None \<Rightarrow> Err (bacnetErr ErrorClassProperty ErrorCodeUnknownProperty)
         | Some p \<Rightarrow> (case plist p of Some vs \<Rightarrow> Ok vs | None \<Rightarrow> Ok [effectiveValue p]))"

definition setPriority :: "property \<Rightarrow> nat \<Rightarrow> Value \<Rightarrow> property" where
  "setPriority p idx v =
    p\<lparr>priorities := (priorities p)[idx := (case v of NullValue \<Rightarrow> None | _ \<Rightarrow> Some v)]\<rparr>"

definition writeProperty ::
  "Device \<Rightarrow> ObjectType \<Rightarrow> u32 \<Rightarrow> PropertyIdentifier \<Rightarrow> Value \<Rightarrow> byte option \<Rightarrow> Device \<times> BACnetError option" where
  "writeProperty d objType inst prop v priority =
    (case map_of (objects d) (objectKey objType inst) of
       None \<Rightarrow> (d, Some (bacnetErr ErrorClassObject ErrorCodeUnknownObject))
     | Some props \<Rightarrow>
         (case map_of props prop of
            None \<Rightarrow> (d, Some (bacnetErr ErrorClassProperty ErrorCodeUnknownProperty))
          | Some p \<Rightarrow>
              if \<not> commandable p
              then (d, Some (bacnetErr ErrorClassProperty ErrorCodeWriteAccessDenied))
              else let prio = (case priority of None \<Rightarrow> 16 | Some q \<Rightarrow> q) in
                if prio < 1 \<or> 16 < prio
                then (d, Some (bacnetErr ErrorClassProperty ErrorCodeValueOutOfRange))
                else (putProperty d (objectKey objType inst) prop (setPriority p (unat prio - 1) v), None)))"

section \<open>The object list\<close>

text \<open>A device's objects are distinct and every property has its sixteen priority slots.\<close>

definition deviceOk :: "Device \<Rightarrow> bool" where
  "deviceOk d \<longleftrightarrow> distinct (map fst (objects d))
     \<and> (\<forall>(key, ps) \<in> set (objects d). \<forall>(prop, p) \<in> set ps. length (priorities p) = 16)"

lemma plainProperty_priorities [simp]: "length (priorities (plainProperty v)) = 16"
  by (simp add: plainProperty_def)

lemma seededProperty_priorities [simp]: "length (priorities (seededProperty t prop v)) = 16"
  by (simp add: seededProperty_def)

lemma setPriority_priorities [simp]: "length (priorities (setPriority p i v)) = length (priorities p)"
  by (simp add: setPriority_def)

lemma deviceOk_NewDevice: "deviceOk (NewDevice inst)"
  by (simp add: deviceOk_def NewDevice_def)

lemma AList_update_cases: "(k', v') \<in> set (AList.update k v al) \<Longrightarrow> (k', v') \<in> set al \<or> (k', v') = (k, v)"
  by (induction al) (auto split: if_splits)

lemma deviceOk_update:
  assumes "deviceOk d" and "\<And>prop p. (prop, p) \<in> set ps \<Longrightarrow> length (priorities p) = 16"
  shows "deviceOk (d\<lparr>objects := AList.update key ps (objects d)\<rparr>)"
  using assms by (auto simp: deviceOk_def distinct_update dest!: AList_update_cases)

lemma deviceOk_property:
  assumes "deviceOk d" and "map_of (objects d) key = Some ps" and "map_of ps prop = Some p"
  shows "length (priorities p) = 16"
  using assms by (auto simp: deviceOk_def dest!: map_of_SomeD)

lemma deviceOk_putProperty:
  assumes "deviceOk d" and "length (priorities p) = 16"
  shows "deviceOk (putProperty d key prop p)"
  unfolding putProperty_def
proof (rule deviceOk_update [OF assms(1)])
  fix prop' p' assume "(prop', p') \<in> set (AList.update prop p (propertiesOf d key))"
  then have "(prop', p') \<in> set (propertiesOf d key) \<or> (prop', p') = (prop, p)" by (rule AList_update_cases)
  then show "length (priorities p') = 16"
    using assms by (auto simp: propertiesOf_def deviceOk_def split: option.splits dest!: map_of_SomeD)
qed

lemma deviceOk_seed:
  assumes "deviceOk d"
  shows "deviceOk (AddObject d t i vs)" "deviceOk (SetProperty d t i prop v)"
    "deviceOk (SetPropertyList d t i prop l)"
  using assms
  by (auto simp: AddObject_def SetProperty_def SetPropertyList_def
      intro!: deviceOk_update deviceOk_putProperty)

lemma deviceOk_write: "deviceOk d \<Longrightarrow> deviceOk (fst (writeProperty d t i prop v prio))"
  by (auto simp: writeProperty_def Let_def deviceOk_property split: option.splits
      intro!: deviceOk_putProperty)

lemma objectList_correct:
  assumes "deviceOk d"
  obtains ks where "objectList d = map (\<lambda>k. ObjectIDValue (keyObject k)) ks"
    and "sorted ks" and "distinct ks" and "set ks = dom (map_of (objects d))"
  using assms
  by (intro that [of "sort (map fst (objects d))"])
    (simp_all add: objectList_def deviceOk_def dom_map_of_conv_image_fst)

lemma unat_pred: "i \<noteq> 0 \<Longrightarrow> unat (i - 1 :: u32) = unat i - 1"
  by (rule unat_minus_one)

lemma unat_pos: "i \<noteq> 0 \<Longrightarrow> 1 \<le> unat (i :: u32)"
  by (simp add: Suc_le_eq unat_gt_0)

lemma readProperty_safe: "safe (readProperty d t i prop idx)"
  using unat_pos by (auto simp: readProperty_def Let_def slice_def unat_pred split: option.split)

section \<open>The priority array\<close>

lemma firstSet_update:
  assumes "i < length vs"
  shows "firstSet (vs[i := Some v]) =
    (case firstSet (take i vs) of Some w \<Rightarrow> Some w | None \<Rightarrow> Some v)"
  using assms by (induction vs arbitrary: i rule: firstSet.induct) (auto split: nat.split option.split)

lemma firstSet_relinquish:
  assumes "i < length vs"
  shows "firstSet (vs[i := None]) =
    (case firstSet (take i vs) of Some w \<Rightarrow> Some w | None \<Rightarrow> firstSet (drop (Suc i) vs))"
  using assms by (induction vs arbitrary: i rule: firstSet.induct) (auto split: nat.split option.split)

lemma putProperty_lookup:
  "map_of (objects (putProperty d key prop p)) key' =
    (if key' = key then Some (AList.update prop p (propertiesOf d key)) else map_of (objects d) key')"
  by (simp add: putProperty_def update_conv')

lemma putProperty_fields [simp]:
  "devInstance (putProperty d key prop p) = devInstance d"
  "devVendorID (putProperty d key prop p) = devVendorID d"
  by (simp_all add: putProperty_def)

lemma objectList_put:
  "map_of (objects d) key \<noteq> None \<Longrightarrow> objectList (putProperty d key prop p) = objectList d"
  by (auto simp: objectList_def putProperty_def update_keys map_of_eq_None_iff)

definition writePriority :: "byte option \<Rightarrow> byte" where
  "writePriority priority = (case priority of None \<Rightarrow> 16 | Some q \<Rightarrow> q)"

lemma byte_range: "(q < 1 \<or> 16 < q) \<longleftrightarrow> \<not> (1 \<le> q \<and> q \<le> (16 :: byte))"
  by (simp only: de_Morgan_conj not_le)

text \<open>When a write is accepted, and what it does.\<close>

lemma writeProperty_ok:
  "snd (writeProperty d t i prop v priority) = None \<longleftrightarrow>
    (\<exists>ps p. map_of (objects d) (objectKey t i) = Some ps \<and> map_of ps prop = Some p \<and> commandable p
      \<and> 1 \<le> writePriority priority \<and> writePriority priority \<le> 16)"
  unfolding writeProperty_def Let_def byte_range writePriority_def [symmetric]
  by (auto split: option.splits)

lemma writeProperty_effect:
  assumes "map_of (objects d) (objectKey t i) = Some ps" "map_of ps prop = Some p" "commandable p"
    and "1 \<le> writePriority priority" "writePriority priority \<le> 16"
  shows "writeProperty d t i prop v priority
    = (putProperty d (objectKey t i) prop (setPriority p (unat (writePriority priority) - 1) v), None)"
  using assms by (simp only: writeProperty_def Let_def writePriority_def byte_range) simp

lemma writeProperty_rejected: "snd (writeProperty d t i prop v priority) = Some e \<Longrightarrow> fst (writeProperty d t i prop v priority) = d"
  by (auto simp: writeProperty_def Let_def split: option.splits if_splits)

lemma slot_bound:
  assumes "1 \<le> (q :: byte)" "q \<le> 16"
  shows "unat q - 1 < 16"
proof -
  have "unat q \<le> 16" using assms(2) by (simp add: word_le_nat_alt)
  then show ?thesis by simp
qed

text \<open>The value a commandable property has once priority \<open>idx + 1\<close> was commanded to \<open>v\<close>.\<close>

definition commanded :: "property \<Rightarrow> nat \<Rightarrow> Value \<Rightarrow> Value" where
  "commanded p idx v =
    (case firstSet (take idx (priorities p)) of
       Some w \<Rightarrow> w
     | None \<Rightarrow>
         (case v of
            NullValue \<Rightarrow> (case firstSet (drop (Suc idx) (priorities p)) of Some w \<Rightarrow> w | None \<Rightarrow> val p)
          | _ \<Rightarrow> v))"

lemma effectiveValue_setPriority:
  assumes "commandable p" and "idx < length (priorities p)"
  shows "effectiveValue (setPriority p idx v) = commanded p idx v"
  using assms firstSet_update [OF assms(2)] firstSet_relinquish [OF assms(2)]
  by (cases v) (simp_all add: effectiveValue_def setPriority_def commanded_def split: option.split)

lemma read_present:
  assumes "prop \<notin> {PropObjectID, PropObjectList}" and "map_of (objects d) (objectKey t (thisInstance d t i)) = Some ps"
    and "map_of ps prop = Some p" and "plist p = None"
  shows "readProperty d t i prop idx = Ok [effectiveValue p]"
  using assms by (simp add: readProperty_def Let_def)

lemma thisInstance_put [simp]: "thisInstance (putProperty d key prop p) t i = thisInstance d t i"
  by (simp add: thisInstance_def)

lemma read_after_write:
  assumes ok: "deviceOk d" and p: "map_of (objects d) (objectKey t i) = Some ps" "map_of ps prop = Some p"
      "commandable p" "plist p = None"
    and prio: "1 \<le> writePriority priority" "writePriority priority \<le> 16"
    and pr: "prop \<notin> {PropObjectID, PropObjectList}" and i: "thisInstance d t i = i"
  shows "readProperty (fst (writeProperty d t i prop v priority)) t i prop idx
    = Ok [commanded p (unat (writePriority priority) - 1) v]"
proof -
  let ?k = "unat (writePriority priority) - 1"
  let ?d = "putProperty d (objectKey t i) prop (setPriority p ?k v)"
  have "?k < length (priorities p)"
    using slot_bound [OF prio] deviceOk_property [OF ok p(1,2)] by simp
  note eff = effectiveValue_setPriority [OF p(3) this]
  have "readProperty ?d t i prop idx = Ok [effectiveValue (setPriority p ?k v)]"
    by (rule read_present [OF pr, where ps = "AList.update prop (setPriority p ?k v) ps"])
      (simp_all add: putProperty_lookup i update_conv' propertiesOf_def p, simp add: setPriority_def p(4))
  then show ?thesis
    using eff writeProperty_effect [OF p(1-3) prio, of v] by simp
qed

lemma read_other_property:
  assumes "objectKey t' (thisInstance d t' i') \<noteq> objectKey t i \<or> prop' \<noteq> prop"
  shows "readProperty (fst (writeProperty d t i prop v priority)) t' i' prop' idx = readProperty d t' i' prop' idx"
proof (cases "snd (writeProperty d t i prop v priority)")
  case (Some e)
  then show ?thesis by (simp add: writeProperty_rejected)
next
  case None
  then obtain ps p where p: "map_of (objects d) (objectKey t i) = Some ps" "map_of ps prop = Some p" "commandable p"
    "1 \<le> writePriority priority" "writePriority priority \<le> 16" by (auto simp: writeProperty_ok)
  let ?d = "putProperty d (objectKey t i) prop (setPriority p (unat (writePriority priority) - 1) v)"
  have w: "fst (writeProperty d t i prop v priority) = ?d"
    by (simp add: writeProperty_effect [OF p])
  have list: "objectList ?d = objectList d" using p(1) by (intro objectList_put) simp
  let ?key = "objectKey t' (thisInstance d t' i')"
  have lookup: "map_of (objects ?d) ?key =
      (if ?key = objectKey t i then Some (AList.update prop (setPriority p (unat (writePriority priority) - 1) v) ps)
       else map_of (objects d) ?key)"
    by (simp only: putProperty_lookup propertiesOf_def p(1) option.case)
  show ?thesis
  proof (cases "?key = objectKey t i")
    case True
    then have "prop' \<noteq> prop" using assms by blast
    moreover have "map_of (objects d) ?key = Some ps" using p(1) by (simp only: True)
    moreover have "map_of (objects ?d) ?key =
        Some (AList.update prop (setPriority p (unat (writePriority priority) - 1) v) ps)"
      using lookup by (simp only: True simp_thms if_True)
    moreover obtain n key where n: "thisInstance d t' i' = n" "objectKey t' n = key" by simp
    ultimately show ?thesis
      unfolding w readProperty_def Let_def thisInstance_put putProperty_fields list n
      by (simp add: update_conv')
  next
    case False
    then have "map_of (objects ?d) ?key = map_of (objects d) ?key" using lookup by (simp only: if_False)
    then show ?thesis
      unfolding w readProperty_def Let_def thisInstance_put putProperty_fields list by (simp only:)
  qed
qed

end
