(* ===== verification/Bacnet_Services.thy ===== *)
theory Bacnet_Services
  imports Bacnet_Value_Codec
begin

text \<open>
  \<^verbatim>\<open>internal/bacnet/services.go\<close> and the Error sequence of \<^verbatim>\<open>errors.go\<close>: the parameters of the
  ReadProperty, WriteProperty, ReadPropertyMultiple, Who-Is and I-Am services. Every decoder is
  total and never panics, whatever a peer sends, and decodes what the encoder of the same service
  built.
\<close>

section \<open>Context-tagged parameters\<close>

definition peekContextTag :: "byte list \<Rightarrow> (byte \<times> tagInfo) option" where
  "peekContextTag buf =
    (if length buf = 0 then None
     else case decodeTagHeader buf of
       Ok th \<Rightarrow> if Context th then Some (Number th, th) else None
     | _ \<Rightarrow> None)"

definition decodeContextData :: "byte \<Rightarrow> byte list \<Rightarrow> (byte list \<times> nat) result" where
  "decodeContextData want buf =
    res_bind (decodeTagHeader buf) (\<lambda>th.
    if \<not> Context th \<or> Number th \<noteq> want \<or> IsOpening th \<or> IsClosing th
    then Err (ServiceErr (ExpectedContextTag want (Context th) (Number th)))
    else if (word_of_nat (length buf - Header th) :: u32) < LVT th
    then Err (ValueErr (TruncatedContextTagValue want))
    else res_bind (slice buf (Header th) (Header th + unat (LVT th))) (\<lambda>data.
      Ok (data, Header th + unat (LVT th))))"

definition decodeContextUnsigned :: "byte \<Rightarrow> byte list \<Rightarrow> (u64 \<times> nat) result" where
  "decodeContextUnsigned want buf =
    res_bind (decodeContextData want buf) (\<lambda>(data, n). Ok (decodeUnsignedData data, n))"

definition decodeContextEnumerated :: "byte \<Rightarrow> byte list \<Rightarrow> (u32 \<times> nat) result" where
  "decodeContextEnumerated want buf =
    res_bind (decodeContextUnsigned want buf) (\<lambda>(v, n). Ok (ucast v, n))"

definition decodeContextObjectID :: "byte \<Rightarrow> byte list \<Rightarrow> (ObjectIdentifier \<times> nat) result" where
  "decodeContextObjectID want buf =
    res_bind (decodeContextData want buf) (\<lambda>(data, n).
    res_bind (decodeObjectIDData data) (\<lambda>oid. Ok (oid, n)))"

text \<open>
  The optional parameter \<^verbatim>\<open>if tag, _, ok := peekContextTag(buf[pos:]); ok && tag == want { ... }\<close>,
  truncated to 32 bits; \<open>optPrimitive\<close> also checks that the tag is not an opening or closing one,
  as the ReadPropertyMultiple decoders do.
\<close>

definition optUnsigned :: "byte \<Rightarrow> byte list \<Rightarrow> (u32 option \<times> nat) result" where
  "optUnsigned want buf =
    (case peekContextTag buf of
       Some (tag, _) \<Rightarrow>
         if tag = want
         then res_bind (decodeContextUnsigned want buf) (\<lambda>(idx, n). Ok (Some (ucast idx), n))
         else Ok (None, 0)
     | None \<Rightarrow> Ok (None, 0))"

definition optPrimitive :: "byte \<Rightarrow> byte list \<Rightarrow> (u32 option \<times> nat) result" where
  "optPrimitive want buf =
    (case peekContextTag buf of
       Some (tag, th) \<Rightarrow>
         if tag = want \<and> \<not> IsOpening th \<and> \<not> IsClosing th
         then res_bind (decodeContextUnsigned want buf) (\<lambda>(idx, n). Ok (Some (ucast idx), n))
         else Ok (None, 0)
     | None \<Rightarrow> Ok (None, 0))"

text \<open>The encoder's side: \<^verbatim>\<open>if p != nil { buf = AppendContextValue(buf, true, tag, UnsignedValue(*p)) }\<close>.\<close>

definition appendContext :: "byte list \<Rightarrow> byte \<Rightarrow> Value \<Rightarrow> byte list result" where
  "appendContext buf tag v = AppendContextValue buf True tag v"

definition appendIndex :: "byte list \<Rightarrow> byte \<Rightarrow> u32 option \<Rightarrow> byte list result" where
  "appendIndex buf tag idx =
    (case idx of None \<Rightarrow> Ok buf | Some i \<Rightarrow> appendContext buf tag (UnsignedValue (ucast i)))"

lemma decodeContextData_bound:
  "decodeContextData want buf = Ok (data, n) \<Longrightarrow> 1 \<le> n \<and> n \<le> length buf"
  by (auto simp: decodeContextData_def res_bind_Ok_iff slice_def split: if_splits
      dest!: decodeTagHeader_bound)

lemma decodeContextData_safe [safe_intros]: "safe (decodeContextData want buf)"
  unfolding decodeContextData_def
  by (intro safe_intros) (auto dest!: decodeTagHeader_bound length_ge_LVT)

lemma decodeContext_bound:
  "decodeContextUnsigned want buf = Ok (v, n) \<Longrightarrow> 1 \<le> n \<and> n \<le> length buf"
  "decodeContextEnumerated want buf = Ok (e, n) \<Longrightarrow> 1 \<le> n \<and> n \<le> length buf"
  "decodeContextObjectID want buf = Ok (oid, n) \<Longrightarrow> 1 \<le> n \<and> n \<le> length buf"
  by (auto simp: decodeContextUnsigned_def decodeContextEnumerated_def decodeContextObjectID_def
      res_bind_Ok_iff dest: decodeContextData_bound)

lemma decodeContext_safe [safe_intros]:
  "safe (decodeContextUnsigned want buf)" "safe (decodeContextEnumerated want buf)"
  "safe (decodeContextObjectID want buf)"
  unfolding decodeContextUnsigned_def decodeContextEnumerated_def decodeContextObjectID_def
  by (intro safe_intros)+

lemma opt_safe [safe_intros]: "safe (optUnsigned want buf)" "safe (optPrimitive want buf)"
  unfolding optUnsigned_def optPrimitive_def by (intro safe_intros)+

lemma opt_bound:
  "optUnsigned want buf = Ok (v, n) \<Longrightarrow> n \<le> length buf"
  "optPrimitive want buf = Ok (v, n) \<Longrightarrow> n \<le> length buf"
  by (auto simp: optUnsigned_def optPrimitive_def res_bind_Ok_iff split: option.splits if_splits
      dest: decodeContext_bound)

lemma parameter_decoders [decoder_specs]:
  "decoder (decodeContextData want)" "decoder (decodeContextUnsigned want)"
  "decoder (decodeContextEnumerated want)" "decoder (decodeContextObjectID want)"
  "decoder (optUnsigned want)" "decoder (optPrimitive want)"
  "decoder (only (expectOpening want))" "decoder (only (expectClosing want))"
  by (auto intro!: decoderI simp: only_safe intro: safe_intros opt_bound
      dest: decodeContextData_bound decodeContext_bound expect_bound)

lemmas value_decoders [decoder_specs] = appValue.is_decoder valueRun.is_decoder

declare decoder_specs [safe_intros]

section \<open>The Error sequence\<close>

definition appendErrorSequence :: "byte list \<Rightarrow> BACnetError \<Rightarrow> byte list result" where
  "appendErrorSequence buf e =
    res_bind (AppendValue buf (EnumeratedValue (Class e))) (\<lambda>buf.
    AppendValue buf (EnumeratedValue (Code e)))"

text \<open>One iteration of the loop of \<^verbatim>\<open>decodeErrorSequence\<close>, for field \<open>i\<close> at the start of \<open>buf\<close>.\<close>

definition errorField :: "nat \<Rightarrow> byte list \<Rightarrow> (u32 \<times> nat) result" where
  "errorField i buf =
    (case decodeTagHeader buf of
       Ok th \<Rightarrow>
         if \<not> (\<not> IsOpening th \<and> \<not> IsClosing th
                \<and> (\<not> Context th \<and> Number th = TagEnumerated
                   \<or> Context th \<and> Number th = word_of_nat i))
            \<or> Header th + unat (LVT th) > length buf
         then Err (ServiceErr (MalformedErrorSequence i))
         else res_bind (slice buf (Header th) (Header th + unat (LVT th))) (\<lambda>data.
           Ok (ucast (decodeUnsignedData data), Header th + unat (LVT th)))
     | Err _ \<Rightarrow> Err (ServiceErr (MalformedErrorSequence i))
     | Panic \<Rightarrow> Panic)"

definition decodeErrorSequence :: "byte list \<Rightarrow> (BACnetError \<times> nat) result" where
  "decodeErrorSequence buf =
    advance buf 0 (errorField 0) (\<lambda>class pos.
    advance buf pos (errorField 1) (\<lambda>code pos.
    Ok (\<lparr>Class = class, Code = code\<rparr>, pos)))"

definition DecodeBACnetError :: "byte list \<Rightarrow> BACnetError result" where
  "DecodeBACnetError params = res_bind (decodeErrorSequence params) (\<lambda>(e, n). Ok e)"

lemma decoder_errorField [decoder_specs, safe_intros]: "decoder (errorField i)"
proof (rule decoderI)
  show "safe (errorField i b)" for b
    using decodeTagHeader_safe [of b]
    by (auto simp: errorField_def intro!: safe_intros split: res.splits)
  show "n \<le> length b" if "errorField i b = Ok (x, n)" for b x n
    using that by (auto simp: errorField_def res_bind_Ok_iff split: res.splits if_splits)
qed

lemma decodeErrorSequence_safe: "safe (decodeErrorSequence buf)"
  unfolding decodeErrorSequence_def by (intro safe_intros) simp_all

lemma decoder_decodeErrorSequence [decoder_specs, safe_intros]: "decoder decodeErrorSequence"
proof (rule decoderI)
  show "safe (decodeErrorSequence b)" for b by (rule decodeErrorSequence_safe)
  show "n \<le> length b" if "decodeErrorSequence b = Ok (x, n)" for b x n
    using that
    by (auto simp: decodeErrorSequence_def advance_Ok_iff dest!: decoder_bound [OF decoder_errorField])
qed

lemma DecodeBACnetError_safe [safe_intros]: "safe (DecodeBACnetError params)"
  unfolding DecodeBACnetError_def by (intro safe_intros decodeErrorSequence_safe)

section \<open>ReadProperty\<close>

text \<open>
  The request, the acknowledgement and the write request share the object, the property and the
  optional array index.
\<close>

record PropertyReference =
  Property :: PropertyIdentifier
  ArrayIndex :: "u32 option"

record ReadPropertyRequest = PropertyReference +
  Object :: ObjectIdentifier

record ReadPropertyACK = ReadPropertyRequest +
  Values :: "Value list"

definition appendPropertyTarget ::
  "ObjectIdentifier \<Rightarrow> PropertyIdentifier \<Rightarrow> u32 option \<Rightarrow> byte list result" where
  "appendPropertyTarget oid prop idx =
    res_bind (appendContext [] 0 (ObjectIDValue oid)) (\<lambda>buf.
    res_bind (appendContext buf 1 (EnumeratedValue prop)) (\<lambda>buf.
    appendIndex buf 2 idx))"

definition EncodeReadPropertyRequest :: "ReadPropertyRequest \<Rightarrow> byte list result" where
  "EncodeReadPropertyRequest r = appendPropertyTarget (Object r) (Property r) (ArrayIndex r)"

definition DecodeReadPropertyRequest :: "byte list \<Rightarrow> ReadPropertyRequest result" where
  "DecodeReadPropertyRequest buf =
    advance buf 0 (decodeContextObjectID 0) (\<lambda>oid pos.
    advance buf pos (decodeContextEnumerated 1) (\<lambda>prop pos.
    advance buf pos (optUnsigned 2) (\<lambda>idx pos.
    Ok \<lparr>Property = prop, ArrayIndex = idx, Object = oid\<rparr>)))"

definition EncodeReadPropertyACK :: "ReadPropertyACK \<Rightarrow> byte list result" where
  "EncodeReadPropertyACK a =
    res_bind (appendPropertyTarget (Object a) (Property a) (ArrayIndex a)) (\<lambda>buf.
    res_bind (AppendValues (appendOpeningTag buf 3) (Values a)) (\<lambda>buf.
    Ok (appendClosingTag buf 3)))"

definition DecodeReadPropertyACK :: "byte list \<Rightarrow> ReadPropertyACK result" where
  "DecodeReadPropertyACK buf =
    advance buf 0 (decodeContextObjectID 0) (\<lambda>oid pos.
    advance buf pos (decodeContextEnumerated 1) (\<lambda>prop pos.
    advance buf pos (optUnsigned 2) (\<lambda>idx pos.
    advance buf pos (only (expectOpening 3)) (\<lambda>_ pos.
    advance buf pos decodeValues (\<lambda>vs pos.
    advance buf pos (only (expectClosing 3)) (\<lambda>_ pos.
    Ok \<lparr>Property = prop, ArrayIndex = idx, Object = oid, Values = vs\<rparr>))))))"

section \<open>WriteProperty\<close>

record WritePropertyRequest = ReadPropertyRequest +
  WriteValue :: Value
  Priority :: "byte option"

definition EncodeWritePropertyRequest :: "WritePropertyRequest \<Rightarrow> byte list result" where
  "EncodeWritePropertyRequest w =
    res_bind (appendPropertyTarget (Object w) (Property w) (ArrayIndex w)) (\<lambda>buf.
    res_bind (AppendValue (appendOpeningTag buf 3) (WriteValue w)) (\<lambda>buf.
    let buf = appendClosingTag buf 3 in
    case Priority w of None \<Rightarrow> Ok buf | Some p \<Rightarrow> appendContext buf 4 (UnsignedValue (ucast p))))"

definition DecodeWritePropertyRequest :: "byte list \<Rightarrow> WritePropertyRequest result" where
  "DecodeWritePropertyRequest buf =
    advance buf 0 (decodeContextObjectID 0) (\<lambda>oid pos.
    advance buf pos (decodeContextEnumerated 1) (\<lambda>prop pos.
    advance buf pos (optUnsigned 2) (\<lambda>idx pos.
    advance buf pos (only (expectOpening 3)) (\<lambda>_ pos.
    advance buf pos decodeApplicationValue (\<lambda>v pos.
    advance buf pos (only (expectClosing 3)) (\<lambda>_ pos.
    let w = \<lparr>Property = prop, ArrayIndex = idx, Object = oid, WriteValue = v, Priority = None\<rparr> in
    if pos < length buf then
      res_bind (decAt buf pos (\<lambda>b. Ok (peekContextTag b))) (\<lambda>peeked.
      case peeked of
        Some (tag, _) \<Rightarrow>
          if tag = 4
          then advance buf pos (decodeContextUnsigned 4) (\<lambda>pr pos. Ok (w\<lparr>Priority := Some (ucast pr)\<rparr>))
          else Ok w
      | None \<Rightarrow> Ok w)
    else Ok w))))))"

lemma Decode_property_safe [safe_intros]:
  "safe (DecodeReadPropertyRequest buf)" "safe (DecodeReadPropertyACK buf)"
  "safe (DecodeWritePropertyRequest buf)"
  unfolding DecodeReadPropertyRequest_def DecodeReadPropertyACK_def DecodeWritePropertyRequest_def Let_def
  by (intro safe_intros; simp)+

section \<open>ReadPropertyMultiple\<close>

record ReadAccessSpec =
  SpecObject :: ObjectIdentifier
  Properties :: "PropertyReference list"

record PropertyResult = PropertyReference +
  ResultValues :: "Value list"
  ResultErr :: "BACnetError option"

record ReadAccessResult =
  ResultObject :: ObjectIdentifier
  Results :: "PropertyResult list"

text \<open>A loop that appends every element of a list to the buffer.\<close>

fun appendAll :: "(byte list \<Rightarrow> 'a \<Rightarrow> byte list result) \<Rightarrow> byte list \<Rightarrow> 'a list \<Rightarrow> byte list result" where
  "appendAll f buf [] = Ok buf"
| "appendAll f buf (x # xs) = res_bind (f buf x) (\<lambda>buf. appendAll f buf xs)"

definition appendReference :: "byte list \<Rightarrow> PropertyReference \<Rightarrow> byte list result" where
  "appendReference buf p =
    res_bind (appendContext buf 0 (EnumeratedValue (Property p))) (\<lambda>buf.
    appendIndex buf 1 (ArrayIndex p))"

definition appendSpec :: "byte list \<Rightarrow> ReadAccessSpec \<Rightarrow> byte list result" where
  "appendSpec buf s =
    res_bind (appendContext buf 0 (ObjectIDValue (SpecObject s))) (\<lambda>buf.
    res_bind (appendAll appendReference (appendOpeningTag buf 1) (Properties s)) (\<lambda>buf.
    Ok (appendClosingTag buf 1)))"

definition EncodeReadPropertyMultipleRequest :: "ReadAccessSpec list \<Rightarrow> byte list result" where
  "EncodeReadPropertyMultipleRequest specs = appendAll appendSpec [] specs"

definition atClosing :: "byte \<Rightarrow> byte list \<Rightarrow> bool" where
  "atClosing want buf =
    (case peekContextTag buf of Some (_, th) \<Rightarrow> IsClosing th \<and> Number th = want | None \<Rightarrow> False)"

text \<open>The inner loop of \<^verbatim>\<open>DecodeReadPropertyMultipleRequest\<close>: the references of one object.\<close>

function decodeReferences ::
  "byte list \<Rightarrow> PropertyReference list \<Rightarrow> nat \<Rightarrow> (PropertyReference list \<times> nat) result" where
  "decodeReferences buf refs pos =
    res_bind (decAt buf pos (\<lambda>b. Ok (atClosing 1 b))) (\<lambda>stop.
    if stop then Ok (refs, pos)
    else advance buf pos (decodeContextEnumerated 0) (\<lambda>prop pos.
         advance buf pos (optPrimitive 1) (\<lambda>idx pos.
         decodeReferences buf (refs @ [\<lparr>Property = prop, ArrayIndex = idx\<rparr>]) pos)))"
  by pat_completeness auto
termination
  by (relation "measure (\<lambda>(buf, refs, pos). length buf - pos)")
    (auto dest!: decodeContext_bound)

declare decodeReferences.simps [simp del]

lemma decodeReferences_bound:
  "decodeReferences buf refs pos = Ok (refs', pos') \<Longrightarrow> pos \<le> pos' \<and> pos' \<le> length buf"
proof (induction "length buf - pos" arbitrary: refs pos rule: less_induct)
  case less
  have IH: "p \<le> pos' \<and> pos' \<le> length buf"
    if "decodeReferences buf refs p = Ok (refs', pos')" "pos < p" "p \<le> length buf" for refs p
    using that by (intro less.hyps) auto
  from less.prems show ?case
    by (subst (asm) decodeReferences.simps)
      (auto simp: res_bind_Ok_iff advance_Ok_iff decAt_Ok_iff Suc_le_eq split: if_splits
        dest!: IH decodeContext_bound opt_bound)
qed

lemma decodeReferences_safe [safe_intros]:
  "pos \<le> length buf \<Longrightarrow> safe (decodeReferences buf refs pos)"
proof (induction "length buf - pos" arbitrary: refs pos rule: less_induct)
  case less
  have IH: "safe (decodeReferences buf refs p)" if "pos < p" "p \<le> length buf" for refs p
    using that by (intro less.hyps) auto
  show ?case
    by (subst decodeReferences.simps, intro safe_intros)
      (auto simp: less.prems Suc_le_eq intro!: IH dest!: decodeContext_bound)
qed

function decodeSpecs :: "byte list \<Rightarrow> ReadAccessSpec list \<Rightarrow> nat \<Rightarrow> ReadAccessSpec list result" where
  "decodeSpecs buf specs pos =
    (if pos < length buf then
       advance buf pos (decodeContextObjectID 0) (\<lambda>oid pos.
       advance buf pos (only (expectOpening 1)) (\<lambda>_ pos.
       res_bind (decodeReferences buf [] pos) (\<lambda>(refs, pos).
       advance buf pos (only (expectClosing 1)) (\<lambda>_ pos.
       decodeSpecs buf (specs @ [\<lparr>SpecObject = oid, Properties = refs\<rparr>]) pos))))
     else Ok specs)"
  by pat_completeness auto
termination
  by (relation "measure (\<lambda>(buf, specs, pos). length buf - pos)")
    (auto dest!: decodeContext_bound expect_bound decodeReferences_bound)

declare decodeSpecs.simps [simp del]

definition DecodeReadPropertyMultipleRequest :: "byte list \<Rightarrow> ReadAccessSpec list result" where
  "DecodeReadPropertyMultipleRequest buf = decodeSpecs buf [] 0"

definition appendResult :: "byte list \<Rightarrow> PropertyResult \<Rightarrow> byte list result" where
  "appendResult buf pr =
    res_bind (appendContext buf 2 (EnumeratedValue (Property pr))) (\<lambda>buf.
    res_bind (appendIndex buf 3 (ArrayIndex pr)) (\<lambda>buf.
    case ResultErr pr of
      Some e \<Rightarrow> res_bind (appendErrorSequence (appendOpeningTag buf 5) e) (\<lambda>buf.
        Ok (appendClosingTag buf 5))
    | None \<Rightarrow> res_bind (AppendValues (appendOpeningTag buf 4) (ResultValues pr)) (\<lambda>buf.
        Ok (appendClosingTag buf 4))))"

definition appendAccessResult :: "byte list \<Rightarrow> ReadAccessResult \<Rightarrow> byte list result" where
  "appendAccessResult buf r =
    res_bind (appendContext buf 0 (ObjectIDValue (ResultObject r))) (\<lambda>buf.
    res_bind (appendAll appendResult (appendOpeningTag buf 1) (Results r)) (\<lambda>buf.
    Ok (appendClosingTag buf 1)))"

definition EncodeReadPropertyMultipleACK :: "ReadAccessResult list \<Rightarrow> byte list result" where
  "EncodeReadPropertyMultipleACK results = appendAll appendAccessResult [] results"

text \<open>
  The value list or error of one result, at \<open>pos\<close>. The code checks the closing tag and then
  skips one octet, whatever the length of the tag it found.
\<close>

definition decodeResultBody :: "byte list \<Rightarrow> nat \<Rightarrow> ((Value list \<times> BACnetError option) \<times> nat) result" where
  "decodeResultBody buf pos =
    res_bind (decAt buf pos (\<lambda>b. Ok (peekContextTag b))) (\<lambda>peeked.
    case peeked of
      None \<Rightarrow> Err (ServiceErr (ExpectedOpening4or5 False 0))
    | Some (tag, th) \<Rightarrow>
        if \<not> IsOpening th then Err (ServiceErr (ExpectedOpening4or5 True tag))
        else if tag = 4 then
          advance buf (pos + Header th) decodeValues (\<lambda>vs pos.
          res_bind (decAt buf pos (expectClosing 4)) (\<lambda>_. Ok ((vs, None), pos + 1)))
        else if tag = 5 then
          advance buf (pos + Header th) decodeErrorSequence (\<lambda>e pos.
          res_bind (decAt buf pos (expectClosing 5)) (\<lambda>_. Ok (([], Some e), pos + 1)))
        else Err (ServiceErr (UnexpectedResultTag tag)))"

lemma decodeResultBody_bound:
  assumes "decodeResultBody buf pos = Ok (x, pos')"
  shows "pos < pos' \<and> pos' \<le> length buf"
  using assms
  by (auto simp: decodeResultBody_def res_bind_Ok_iff advance_Ok_iff decAt_Ok_iff Suc_le_eq
      split: option.splits if_splits dest!: expect_bound decoder_bound [OF decoder_decodeErrorSequence]
        decoder_bound [OF valueRun.is_decoder])

lemma peekContextTag_bound: "peekContextTag buf = Some (t, th) \<Longrightarrow> 1 \<le> Header th \<and> Header th \<le> length buf"
  by (auto simp: peekContextTag_def split: if_splits res.splits dest: decodeTagHeader_bound)

lemma decodeResultBody_safe [safe_intros]: "pos \<le> length buf \<Longrightarrow> safe (decodeResultBody buf pos)"
  unfolding decodeResultBody_def
  by (intro safe_intros) (auto simp: decAt_drop dest: peekContextTag_bound)

function decodeResults ::
  "byte list \<Rightarrow> PropertyResult list \<Rightarrow> nat \<Rightarrow> (PropertyResult list \<times> nat) result" where
  "decodeResults buf rs pos =
    res_bind (decAt buf pos (\<lambda>b. Ok (atClosing 1 b))) (\<lambda>stop.
    if stop then Ok (rs, pos)
    else advance buf pos (decodeContextEnumerated 2) (\<lambda>prop pos.
         advance buf pos (optPrimitive 3) (\<lambda>idx pos.
         res_bind (decodeResultBody buf pos) (\<lambda>(body, pos).
         decodeResults buf
           (rs @ [\<lparr>Property = prop, ArrayIndex = idx, ResultValues = fst body, ResultErr = snd body\<rparr>])
           pos))))"
  by pat_completeness auto
termination
  by (relation "measure (\<lambda>(buf, refs, pos). length buf - pos)")
    (auto dest!: decodeContext_bound decodeResultBody_bound)

declare decodeResults.simps [simp del]

lemma decodeResults_bound:
  "decodeResults buf rs pos = Ok (rs', pos') \<Longrightarrow> pos \<le> pos' \<and> pos' \<le> length buf"
proof (induction "length buf - pos" arbitrary: rs pos rule: less_induct)
  case less
  have IH: "p \<le> pos' \<and> pos' \<le> length buf"
    if "decodeResults buf rs p = Ok (rs', pos')" "pos < p" "p \<le> length buf" for rs p
    using that by (intro less.hyps) auto
  from less.prems show ?case
    by (subst (asm) decodeResults.simps)
      (auto simp: res_bind_Ok_iff advance_Ok_iff decAt_Ok_iff Suc_le_eq split: if_splits
        dest!: IH decodeContext_bound opt_bound decodeResultBody_bound)
qed

lemma decodeResults_safe [safe_intros]: "pos \<le> length buf \<Longrightarrow> safe (decodeResults buf rs pos)"
proof (induction "length buf - pos" arbitrary: rs pos rule: less_induct)
  case less
  have IH: "safe (decodeResults buf rs p)" if "pos < p" "p \<le> length buf" for rs p
    using that by (intro less.hyps) auto
  show ?case
    by (subst decodeResults.simps, intro safe_intros)
      (auto simp: less.prems Suc_le_eq intro!: IH dest!: decodeContext_bound decodeResultBody_bound)
qed

function decodeAccessResults ::
  "byte list \<Rightarrow> ReadAccessResult list \<Rightarrow> nat \<Rightarrow> ReadAccessResult list result" where
  "decodeAccessResults buf results pos =
    (if pos < length buf then
       advance buf pos (decodeContextObjectID 0) (\<lambda>oid pos.
       advance buf pos (only (expectOpening 1)) (\<lambda>_ pos.
       res_bind (decodeResults buf [] pos) (\<lambda>(rs, pos).
       advance buf pos (only (expectClosing 1)) (\<lambda>_ pos.
       decodeAccessResults buf (results @ [\<lparr>ResultObject = oid, Results = rs\<rparr>]) pos))))
     else Ok results)"
  by pat_completeness auto
termination
  by (relation "measure (\<lambda>(buf, results, pos). length buf - pos)")
    (auto dest!: decodeContext_bound expect_bound decodeResults_bound)

declare decodeAccessResults.simps [simp del]

definition DecodeReadPropertyMultipleACK :: "byte list \<Rightarrow> ReadAccessResult list result" where
  "DecodeReadPropertyMultipleACK buf = decodeAccessResults buf [] 0"

lemma decodeSpecs_safe: "safe (decodeSpecs buf specs pos)"
proof (induction "length buf - pos" arbitrary: specs pos rule: less_induct)
  case less
  have IH: "safe (decodeSpecs buf specs p)" if "pos < p" "pos < length buf" for specs p
    using that by (intro less.hyps) auto
  show ?case
    by (subst decodeSpecs.simps, intro safe_intros)
      (auto intro!: IH dest!: decodeContext_bound decodeReferences_bound expect_bound)
qed

lemma decodeAccessResults_safe: "safe (decodeAccessResults buf rs pos)"
proof (induction "length buf - pos" arbitrary: rs pos rule: less_induct)
  case less
  have IH: "safe (decodeAccessResults buf rs p)" if "pos < p" "pos < length buf" for rs p
    using that by (intro less.hyps) auto
  show ?case
    by (subst decodeAccessResults.simps, intro safe_intros)
      (auto intro!: IH dest!: decodeContext_bound decodeResults_bound expect_bound)
qed

lemma Decode_multiple_safe [safe_intros]:
  "safe (DecodeReadPropertyMultipleRequest buf)" "safe (DecodeReadPropertyMultipleACK buf)"
  by (simp_all add: DecodeReadPropertyMultipleRequest_def DecodeReadPropertyMultipleACK_def
      decodeSpecs_safe decodeAccessResults_safe)

section \<open>Who-Is and I-Am\<close>

record WhoIsRequest =
  LowLimit :: "u32 option"
  HighLimit :: "u32 option"

definition EncodeWhoIsRequest :: "WhoIsRequest \<Rightarrow> byte list result" where
  "EncodeWhoIsRequest r =
    (case (LowLimit r, HighLimit r) of
       (Some low, Some high) \<Rightarrow>
         res_bind (appendContext [] 0 (UnsignedValue (ucast low))) (\<lambda>buf.
         appendContext buf 1 (UnsignedValue (ucast high)))
     | _ \<Rightarrow> Ok [])"

definition DecodeWhoIsRequest :: "byte list \<Rightarrow> WhoIsRequest result" where
  "DecodeWhoIsRequest buf =
    (if length buf = 0 then Ok \<lparr>LowLimit = None, HighLimit = None\<rparr>
     else res_bind (decodeContextUnsigned 0 buf) (\<lambda>(low, n).
          res_bind (decAt buf n (decodeContextUnsigned 1)) (\<lambda>(high, _).
          Ok \<lparr>LowLimit = Some (ucast low), HighLimit = Some (ucast high)\<rparr>)))"

record IAm =
  Device :: ObjectIdentifier
  MaxAPDULength :: u32
  SegmentationSupported :: u32
  VendorID :: u32

definition EncodeIAm :: "IAm \<Rightarrow> byte list result" where
  "EncodeIAm v =
    res_bind (AppendValue [] (ObjectIDValue (Device v))) (\<lambda>buf.
    res_bind (AppendValue buf (UnsignedValue (ucast (MaxAPDULength v)))) (\<lambda>buf.
    res_bind (AppendValue buf (EnumeratedValue (SegmentationSupported v))) (\<lambda>buf.
    AppendValue buf (UnsignedValue (ucast (VendorID v))))))"

definition DecodeIAm :: "byte list \<Rightarrow> IAm result" where
  "DecodeIAm buf =
    res_bind (decodeApplicationValues buf) (\<lambda>(values, _).
    if length values \<noteq> 4 then Err (ServiceErr (IAmValueCount (length values)))
    else res_bind (index values 0) (\<lambda>v0.
      if \<not> isObjectID v0 then Err (ServiceErr IAmWrongTag)
      else res_bind (index values 1) (\<lambda>v1. res_bind (index values 2) (\<lambda>v2.
           res_bind (index values 3) (\<lambda>v3.
           Ok \<lparr>Device = ObjectField v0, MaxAPDULength = ucast (UnsignedField v1),
               SegmentationSupported = EnumField v2, VendorID = ucast (UnsignedField v3)\<rparr>)))))"

lemma Decode_who_safe [safe_intros]: "safe (DecodeWhoIsRequest buf)" "safe (DecodeIAm buf)"
  unfolding DecodeWhoIsRequest_def DecodeIAm_def
  by (intro safe_intros; auto dest: decodeContext_bound)+

end
