(* ===== verification/Bacnet_Services_Codec.thy ===== *)
theory Bacnet_Services_Codec
  imports Bacnet_Services
begin

text \<open>
  Round trips of \<^verbatim>\<open>internal/bacnet/services.go\<close>: the encoders as functions to octets, none of
  which panics, and for each service the proof that its decoder returns the parameters its encoder
  was given.
\<close>

section \<open>Context-tagged parameters\<close>

definition plainLength :: "byte list \<Rightarrow> bool" where
  "plainLength data \<longleftrightarrow> length data \<noteq> 6 \<and> length data \<noteq> 7"

lemma decodeContextData_roundtrip:
  assumes "plainLength data" and fits: "fits (tagged t True data @ r)"
  shows "decodeContextData t (tagged t True data @ r) = Ok (data, length (tagged t True data))"
proof -
  have len: "length (data @ r) < 2 ^ 32" using fits by (simp add: tagged_def fits_def)
  then have data: "length data < 2 ^ 32" by simp
  have "(word_of_nat (length data) :: u32) \<noteq> 6" "(word_of_nat (length data) :: u32) \<noteq> 7"
    using len_not_marker [OF data] assms(1) by (simp_all add: plainLength_def)
  with length_enough [OF len] show ?thesis
    by (simp add: decodeContextData_def decodeTagHeader_tagged tagged_def slice_def unat_len [OF data]
        decodeTagHeader_roundtrip IsOpening_def IsClosing_def openingLVT_def closingLVT_def)
qed

lemma plainLength_4 [simp]: "length data \<le> 4 \<Longrightarrow> plainLength data"
  by (auto simp: plainLength_def)

lemma minUnsignedBytes_u32: "length (minUnsignedBytes (ucast (i :: u32))) \<le> 4"
proof -
  have zero: "(ucast (drop_bit k (ucast i :: u64)) :: byte) = 0" if "32 \<le> k" for k
    by (rule bit_word_eqI) (use that in \<open>auto simp: bit_simps dest: bit_imp_le_length\<close>)
  have skip: "length (skipZeros (0 # bs)) \<le> length bs" if "bs \<noteq> []" for bs
    using that skipZeros_length [of bs] by (cases bs) auto
  have "minUnsignedBytes (ucast i) = skipZeros (drop 4 (putUint64 (ucast i)))"
    by (simp add: minUnsignedBytes_def putUint64_def zero)
  then show ?thesis using skipZeros_length [of "drop 4 (putUint64 (ucast i :: u64))"] by simp
qed

lemma ucast_u32_u64 [simp]: "ucast (ucast (i :: u32) :: u64) = i"
  by (rule bit_word_eqI) (simp add: bit_simps)

definition oidBytes :: "byte \<Rightarrow> ObjectIdentifier \<Rightarrow> byte list" where
  "oidBytes t oid = tagged t True (putUint32 (objectIDWord oid))"

definition uintBytes :: "byte \<Rightarrow> u32 \<Rightarrow> byte list" where
  "uintBytes t n = tagged t True (minUnsignedBytes (ucast n))"

definition indexBytes :: "byte \<Rightarrow> u32 option \<Rightarrow> byte list" where
  "indexBytes t idx = (case idx of None \<Rightarrow> [] | Some i \<Rightarrow> uintBytes t i)"

lemma appendContext_eq:
  "appendContext buf t (ObjectIDValue oid) = Ok (buf @ oidBytes t oid)"
  "appendContext buf t (EnumeratedValue n) = Ok (buf @ uintBytes t n)"
  "appendContext buf t (UnsignedValue (ucast n)) = Ok (buf @ uintBytes t n)"
  "appendIndex buf t idx = Ok (buf @ indexBytes t idx)"
  by (simp_all add: appendContext_def appendIndex_def AppendContextValue_eq isPrimitive_def
      contextBytes_def dataOf_def oidBytes_def uintBytes_def indexBytes_def split: option.split)

lemma decodeContextObjectID_roundtrip:
  assumes "wireObject oid" and "fits (oidBytes t oid @ r)"
  shows "decodeContextObjectID t (oidBytes t oid @ r) = Ok (oid, length (oidBytes t oid))"
  using assms decodeContextData_roundtrip [of "putUint32 (objectIDWord oid)" t r]
  by (simp add: decodeContextObjectID_def oidBytes_def decodeObjectIDData_roundtrip)

lemma decodeContextUnsigned_roundtrip:
  assumes "fits (uintBytes t n @ r)"
  shows "decodeContextUnsigned t (uintBytes t n @ r) = Ok (ucast n, length (uintBytes t n))"
  using assms decodeContextData_roundtrip [of "minUnsignedBytes (ucast n)" t r] minUnsignedBytes_u32 [of n]
  by (simp add: decodeContextUnsigned_def uintBytes_def decodeUnsignedData_eq minUnsignedBytes_value)

lemma decodeContextEnumerated_roundtrip:
  assumes "fits (uintBytes t n @ r)"
  shows "decodeContextEnumerated t (uintBytes t n @ r) = Ok (n, length (uintBytes t n))"
  using decodeContextUnsigned_roundtrip [OF assms] by (simp add: decodeContextEnumerated_def)

lemma tagged_neq_Nil [simp]: "tagged t c data \<noteq> []"
  by (simp add: tagged_def)

lemma bytes_neq_Nil [simp]: "oidBytes t oid \<noteq> []" "uintBytes t n \<noteq> []"
  by (simp_all add: oidBytes_def uintBytes_def)

lemma peek_marker [simp]:
  "peekContextTag (openingTag t @ r)
    = Some (t, \<lparr>Number = t, Context = True, LVT = openingLVT, Header = length (openingTag t)\<rparr>)"
  "peekContextTag (closingTag t @ r)
    = Some (t, \<lparr>Number = t, Context = True, LVT = closingLVT, Header = length (closingTag t)\<rparr>)"
  by (simp_all add: peekContextTag_def decodeTagHeader_marker)

lemma peek_uint:
  "peekContextTag (uintBytes t n @ r)
    = Some (t, \<lparr>Number = t, Context = True, LVT = word_of_nat (length (minUnsignedBytes (ucast n))),
                Header = length (tagHeader t True (word_of_nat (length (minUnsignedBytes (ucast n)))))\<rparr>)"
  by (simp add: peekContextTag_def uintBytes_def decodeTagHeader_tagged)

lemma peek_Nil [simp]: "peekContextTag [] = None"
  by (simp add: peekContextTag_def)

lemma minUnsigned_not_marker:
  "(word_of_nat (length (minUnsignedBytes (ucast (n :: u32)))) :: u32) \<noteq> openingLVT"
  "(word_of_nat (length (minUnsignedBytes (ucast (n :: u32)))) :: u32) \<noteq> closingLVT"
  using len_not_marker [of "minUnsignedBytes (ucast n)"] minUnsignedBytes_u32 [of n]
  by (auto simp: openingLVT_def closingLVT_def)

text \<open>What may follow an absent optional parameter: no context tag with its number.\<close>

definition noTag :: "byte \<Rightarrow> byte list \<Rightarrow> bool" where
  "noTag t r \<longleftrightarrow> (case peekContextTag r of None \<Rightarrow> True | Some (tag, _) \<Rightarrow> tag \<noteq> t)"

definition noPrimitive :: "byte \<Rightarrow> byte list \<Rightarrow> bool" where
  "noPrimitive t r \<longleftrightarrow>
    (case peekContextTag r of None \<Rightarrow> True | Some (tag, th) \<Rightarrow> tag \<noteq> t \<or> IsOpening th \<or> IsClosing th)"

lemma optUnsigned_roundtrip:
  assumes "idx = None \<Longrightarrow> noTag t r" and "fits (indexBytes t idx @ r)"
  shows "optUnsigned t (indexBytes t idx @ r) = Ok (idx, length (indexBytes t idx))"
  using assms decodeContextUnsigned_roundtrip [of t "the idx" r]
  by (cases idx) (auto simp: optUnsigned_def indexBytes_def noTag_def peek_uint
      split: option.splits prod.splits)

lemma optPrimitive_roundtrip:
  assumes "idx = None \<Longrightarrow> noPrimitive t r" and "fits (indexBytes t idx @ r)"
  shows "optPrimitive t (indexBytes t idx @ r) = Ok (idx, length (indexBytes t idx))"
  using assms decodeContextUnsigned_roundtrip [of t "the idx" r]
  by (cases idx) (auto simp: optPrimitive_def indexBytes_def noPrimitive_def peek_uint
      IsOpening_def IsClosing_def minUnsigned_not_marker split: option.splits prod.splits)

lemma marker_end [simp]:
  "expectClosing t (closingTag t) = Ok (length (closingTag t))"
  "expectOpening t (openingTag t) = Ok (length (openingTag t))"
  "endsRun (closingTag t)"
  "peekContextTag (closingTag t)
    = Some (t, \<lparr>Number = t, Context = True, LVT = closingLVT, Header = length (closingTag t)\<rparr>)"
  using expectClosing_closing [of t "[]"] expectOpening_opening [of t "[]"] endsRun_closing [of t "[]"]
    peek_marker(2) [of t "[]"]
  by simp_all

section \<open>ReadProperty and WriteProperty\<close>

definition targetBytes :: "'a ReadPropertyRequest_scheme \<Rightarrow> byte list" where
  "targetBytes r = oidBytes 0 (Object r) @ uintBytes 1 (Property r) @ indexBytes 2 (ArrayIndex r)"

lemma appendPropertyTarget_eq:
  "appendPropertyTarget (Object r) (Property r) (ArrayIndex r) = Ok (targetBytes r)"
  by (simp add: appendPropertyTarget_def appendContext_eq targetBytes_def)

lemma EncodeReadPropertyRequest_eq: "EncodeReadPropertyRequest r = Ok (targetBytes r)"
  by (simp add: EncodeReadPropertyRequest_def appendPropertyTarget_eq)

text \<open>The three parameters that the property services have in common, at the start of a buffer.\<close>

lemma decode_target:
  assumes "wireObject (Object r)" and "ArrayIndex r = None \<Longrightarrow> noTag 2 rest"
    and "fits (targetBytes r @ rest)"
  shows "advance (targetBytes r @ rest) 0 (decodeContextObjectID 0) (\<lambda>oid pos.
      advance (targetBytes r @ rest) pos (decodeContextEnumerated 1) (\<lambda>prop pos.
      advance (targetBytes r @ rest) pos (optUnsigned 2) (\<lambda>idx pos. k oid prop idx pos)))
    = k (Object r) (Property r) (ArrayIndex r) (length (targetBytes r))"
proof -
  have "fits (oidBytes 0 (Object r) @ uintBytes 1 (Property r) @ indexBytes 2 (ArrayIndex r) @ rest)"
    using assms(3) by (simp add: targetBytes_def)
  moreover from this have "fits (uintBytes 1 (Property r) @ indexBytes 2 (ArrayIndex r) @ rest)"
    by (simp add: fits_def)
  moreover from this have "fits (indexBytes 2 (ArrayIndex r) @ rest)" by (simp add: fits_def)
  ultimately show ?thesis
    using assms(1,2)
    by (simp add: advance_def targetBytes_def add.assoc decodeContextObjectID_roundtrip
        decodeContextEnumerated_roundtrip optUnsigned_roundtrip)
qed

lemma tagHeader_length: "length (tagHeader t c l) \<le> 7"
  by (simp add: tagHeader_def lengthOctets_def)

lemma targetBytes_length: "length (targetBytes r) \<le> 37"
proof -
  have "length (tagged t c data) \<le> 7 + length data" for t c data
    using tagHeader_length [of t c] by (simp add: tagged_def)
  from this [of 0 True "putUint32 (objectIDWord (Object r))"]
    this [of 1 True "minUnsignedBytes (ucast (Property r))"]
    this [of 2 True "minUnsignedBytes (ucast (the (ArrayIndex r)))"]
  show ?thesis
    using minUnsignedBytes_length [of "ucast (Property r)"]
      minUnsignedBytes_u32 [of "Property r"] minUnsignedBytes_u32 [of "the (ArrayIndex r)"]
    by (cases "ArrayIndex r") (simp_all add: targetBytes_def oidBytes_def uintBytes_def indexBytes_def)
qed

lemma DecodeReadPropertyRequest_roundtrip:
  assumes "wireObject (Object r)"
  shows "DecodeReadPropertyRequest (targetBytes r) = Ok r"
proof -
  have "fits (targetBytes r @ [])"
    using targetBytes_length [of r] by (simp add: fits_def)
  from decode_target [OF assms _ this,
    of "\<lambda>oid prop idx pos. Ok \<lparr>Property = prop, ArrayIndex = idx, Object = oid\<rparr>"]
  show ?thesis by (simp add: DecodeReadPropertyRequest_def noTag_def)
qed

lemma noTag_opening [simp]: "noTag t (openingTag u @ r) \<longleftrightarrow> u \<noteq> t"
  by (simp add: noTag_def)

definition ackBytes :: "ReadPropertyACK \<Rightarrow> byte list" where
  "ackBytes a = targetBytes a @ openingTag 3 @ valuesBytes (Values a) @ closingTag 3"

lemma EncodeReadPropertyACK_eq: "EncodeReadPropertyACK a = Ok (ackBytes a)"
  by (simp add: EncodeReadPropertyACK_def appendPropertyTarget_eq AppendValue_eq appendMarker_eq ackBytes_def)

definition wireACK :: "ReadPropertyACK \<Rightarrow> bool" where
  "wireACK a \<longleftrightarrow> wireObject (Object a) \<and> list_all (wireValue maxNesting) (Values a)"

lemma DecodeReadPropertyACK_roundtrip:
  assumes "wireACK a" and fits: "fits (ackBytes a)"
  shows "DecodeReadPropertyACK (ackBytes a) = Ok a"
proof -
  let ?rest = "openingTag 3 @ valuesBytes (Values a) @ closingTag 3"
  have "fits (valuesBytes (Values a) @ closingTag 3)" using fits by (simp add: ackBytes_def fits_def)
  with assms(1) have vals: "decodeValues (valuesBytes (Values a) @ closingTag 3)
      = Ok (Values a, length (valuesBytes (Values a)))"
    using decodeValues_roundtrip [of "Values a" "closingTag 3"]
    by (simp add: wireACK_def)
  have "wireObject (Object a)" using assms(1) by (simp add: wireACK_def)
  then show ?thesis
    unfolding DecodeReadPropertyACK_def ackBytes_def
    by (rule trans [OF decode_target])
      (use vals fits in \<open>simp_all add: ackBytes_def advance_def only_def add.assoc\<close>)
qed

definition writeBytes :: "WritePropertyRequest \<Rightarrow> byte list" where
  "writeBytes w = targetBytes w @ openingTag 3 @ valueBytes (WriteValue w) @ closingTag 3
     @ indexBytes 4 (map_option ucast (Priority w))"

lemma ucast_byte_u32_u64: "ucast (ucast (p :: byte) :: u32) = (ucast p :: u64)"
  by (rule bit_word_eqI) (auto simp: bit_simps dest: bit_imp_le_length)

lemma EncodeWritePropertyRequest_eq: "EncodeWritePropertyRequest w = Ok (writeBytes w)"
proof (cases "Priority w")
  case None
  then show ?thesis
    by (simp add: EncodeWritePropertyRequest_def appendPropertyTarget_eq AppendValue_eq appendMarker_eq
        writeBytes_def indexBytes_def)
next
  case (Some p)
  have "appendContext buf 4 (UnsignedValue (ucast p)) = Ok (buf @ uintBytes 4 (ucast p))" for buf
    using appendContext_eq(3) [of buf 4 "ucast p"] by (simp add: ucast_byte_u32_u64)
  with Some show ?thesis
    by (simp add: EncodeWritePropertyRequest_def appendPropertyTarget_eq AppendValue_eq appendMarker_eq
        writeBytes_def indexBytes_def)
qed

lemma ucast_byte_back [simp]: "ucast (ucast (ucast (p :: byte) :: u32) :: u64) = p"
  by (rule bit_word_eqI) (simp add: bit_simps)

lemma DecodeWritePropertyRequest_roundtrip:
  assumes "wireObject (Object w)" and "wirePrimitive (WriteValue w)" and fits: "fits (writeBytes w)"
  shows "DecodeWritePropertyRequest (writeBytes w) = Ok w"
proof -
  let ?prio = "indexBytes 4 (map_option ucast (Priority w))"
  let ?rest = "openingTag 3 @ valueBytes (WriteValue w) @ closingTag 3 @ ?prio"
  have "fits (valueBytes (WriteValue w) @ closingTag 3 @ ?prio)"
    using fits by (simp add: writeBytes_def fits_def)
  note val = appCodec.roundtrip [OF assms(2) this]
  have prio: "decodeContextUnsigned 4 (uintBytes 4 (ucast p)) = Ok (ucast (ucast p :: u32), length (uintBytes 4 (ucast p)))"
    if "Priority w = Some p" for p
    using that fits decodeContextUnsigned_roundtrip [of 4 "ucast p" "[]"]
    by (simp add: writeBytes_def fits_def indexBytes_def)
  show ?thesis
    unfolding DecodeWritePropertyRequest_def writeBytes_def
    by (rule trans [OF decode_target [OF assms(1)]], simp, (use fits in \<open>simp add: writeBytes_def\<close>),
        cases "Priority w")
      (use val prio peek_uint [of 4 "ucast (the (Priority w))" "[]"]
       in \<open>simp_all add: advance_def only_def add.assoc indexBytes_def\<close>)
qed

section \<open>The Error sequence\<close>

definition errorBytes :: "BACnetError \<Rightarrow> byte list" where
  "errorBytes e = tagged TagEnumerated False (minUnsignedBytes (ucast (Class e)))
     @ tagged TagEnumerated False (minUnsignedBytes (ucast (Code e)))"

lemma appendErrorSequence_eq: "appendErrorSequence buf e = Ok (buf @ errorBytes e)"
  by (simp add: appendErrorSequence_def AppendValue_eq errorBytes_def contextBytes_def dataOf_def
      applicationTagFor_def)

lemma errorField_roundtrip:
  assumes "t = TagEnumerated \<and> \<not> c \<or> t = word_of_nat i \<and> c"
  shows "errorField i (tagged t c (minUnsignedBytes (ucast n)) @ r)
    = Ok (n, length (tagged t c (minUnsignedBytes (ucast (n :: u32)))))"
proof -
  have "length (minUnsignedBytes (ucast n)) < 2 ^ 32"
    using minUnsignedBytes_u32 [of n] by simp
  with assms show ?thesis
    by (auto simp: errorField_def decodeTagHeader_tagged tagged_def decodeTagHeader_roundtrip unat_len
        slice_def IsOpening_def IsClosing_def minUnsigned_not_marker decodeUnsignedData_eq
        minUnsignedBytes_value)
qed

lemma decodeErrorSequence_roundtrip:
  "decodeErrorSequence (errorBytes e @ r) = Ok (e, length (errorBytes e))"
  by (cases e) (simp add: decodeErrorSequence_def errorBytes_def advance_def add.assoc errorField_roundtrip)

text \<open>The older encoding, with context tags 0 and 1, means the same error.\<close>

lemma decodeErrorSequence_context:
  "decodeErrorSequence (uintBytes 0 (Class e) @ uintBytes 1 (Code e) @ r)
    = Ok (e, length (uintBytes 0 (Class e) @ uintBytes 1 (Code e)))"
  by (cases e) (simp add: decodeErrorSequence_def uintBytes_def advance_def add.assoc errorField_roundtrip)

lemma DecodeBACnetError_roundtrip: "DecodeBACnetError (errorBytes e) = Ok e"
  using decodeErrorSequence_roundtrip [of e "[]"] by (simp add: DecodeBACnetError_def)

section \<open>ReadPropertyMultiple\<close>

lemma appendAll_eq:
  assumes "\<And>buf x. x \<in> set xs \<Longrightarrow> f buf x = Ok (buf @ g x)"
  shows "appendAll f buf xs = Ok (buf @ concat (map g xs))"
  using assms by (induction xs arbitrary: buf) simp_all

definition refBytes :: "PropertyReference \<Rightarrow> byte list" where
  "refBytes p = uintBytes 0 (Property p) @ indexBytes 1 (ArrayIndex p)"

definition specBytes :: "ReadAccessSpec \<Rightarrow> byte list" where
  "specBytes s = oidBytes 0 (SpecObject s) @ openingTag 1 @ concat (map refBytes (Properties s)) @ closingTag 1"

lemma EncodeReadPropertyMultipleRequest_eq:
  "EncodeReadPropertyMultipleRequest specs = Ok (concat (map specBytes specs))"
proof -
  have "appendReference buf p = Ok (buf @ refBytes p)" for buf p
    by (simp add: appendReference_def appendContext_eq refBytes_def)
  then have "appendSpec buf s = Ok (buf @ specBytes s)" for buf s
    by (simp add: appendSpec_def appendContext_eq appendMarker_eq specBytes_def
        appendAll_eq [where g = refBytes])
  then show ?thesis
    by (simp add: EncodeReadPropertyMultipleRequest_def appendAll_eq [where g = specBytes])
qed

lemma atClosing_simps [simp]:
  "atClosing t (closingTag t @ r)"
  "atClosing t (uintBytes u n @ r) \<longleftrightarrow> False"
  by (simp_all add: atClosing_def peek_uint IsClosing_def minUnsigned_not_marker)

lemma noPrimitive_simps [simp]:
  "noPrimitive t (uintBytes u n @ r) \<longleftrightarrow> u \<noteq> t"
  "noPrimitive t (closingTag u @ r)"
  "noPrimitive t (openingTag u @ r)"
  by (auto simp: noPrimitive_def peek_uint IsClosing_def IsOpening_def minUnsigned_not_marker)

lemma record_collapse [simp]:
  "\<lparr>Property = Property p, ArrayIndex = ArrayIndex p\<rparr> = p"
  "\<lparr>SpecObject = SpecObject s, Properties = Properties s\<rparr> = s"
  "\<lparr>Property = Property q, ArrayIndex = ArrayIndex q, ResultValues = ResultValues q,
     ResultErr = ResultErr q\<rparr> = q"
  "\<lparr>ResultObject = ResultObject a, Results = Results a\<rparr> = a"
  by simp_all

lemma decodeReferences_roundtrip:
  assumes "fits (concat (map refBytes refs) @ closingTag 1 @ r)"
  shows "decodeReferences (pre @ concat (map refBytes refs) @ closingTag 1 @ r) acc (length pre)
    = Ok (acc @ refs, length pre + length (concat (map refBytes refs)))"
  using assms
proof (induction refs arbitrary: pre acc)
  case Nil
  then show ?case by (subst decodeReferences.simps) simp
next
  case (Cons p refs)
  let ?rest = "concat (map refBytes refs) @ closingTag 1 @ r"
  have "noPrimitive 1 ?rest" by (cases refs) (simp_all add: refBytes_def)
  moreover have "fits (indexBytes 1 (ArrayIndex p) @ ?rest)" "fits ?rest"
      "fits (uintBytes 0 (Property p) @ indexBytes 1 (ArrayIndex p) @ ?rest)"
    using Cons.prems by (simp_all add: refBytes_def [of p] fits_def)
  moreover have "decodeReferences ((pre @ refBytes p) @ ?rest) (acc @ [p]) (length (pre @ refBytes p))
      = Ok ((acc @ [p]) @ refs, length (pre @ refBytes p) + length (concat (map refBytes refs)))"
    using Cons.IH calculation by blast
  ultimately show ?case
    by (subst decodeReferences.simps)
      (simp add: advance_def refBytes_def [of p] add.assoc decodeContextEnumerated_roundtrip optPrimitive_roundtrip)
qed

lemma decodeSpecs_roundtrip:
  assumes "list_all (\<lambda>s. wireObject (SpecObject s)) specs" and "fits (concat (map specBytes specs))"
  shows "decodeSpecs (pre @ concat (map specBytes specs)) acc (length pre) = Ok (acc @ specs)"
  using assms
proof (induction specs arbitrary: pre acc)
  case Nil
  then show ?case by (subst decodeSpecs.simps) simp
next
  case (Cons s specs)
  let ?rest = "concat (map specBytes specs)"
  let ?refs = "concat (map refBytes (Properties s)) @ closingTag 1 @ ?rest"
  have f: "fits (oidBytes 0 (SpecObject s) @ openingTag 1 @ ?refs)" "fits ?refs" "fits ?rest"
    using Cons.prems(2) by (simp_all add: specBytes_def [of s] fits_def)
  have refs: "decodeReferences (pre @ oidBytes 0 (SpecObject s) @ openingTag 1 @ ?refs) []
      (length pre + (length (oidBytes 0 (SpecObject s)) + length (openingTag 1)))
    = Ok (Properties s, length pre + (length (oidBytes 0 (SpecObject s)) + (length (openingTag 1)
        + length (concat (map refBytes (Properties s))))))"
    using decodeReferences_roundtrip [OF f(2), of "pre @ oidBytes 0 (SpecObject s) @ openingTag 1" "[]"]
    by (simp add: add.assoc)
  have "decodeSpecs ((pre @ specBytes s) @ ?rest) (acc @ [s]) (length (pre @ specBytes s)) = Ok ((acc @ [s]) @ specs)"
    using Cons.prems(1) f(3) by (intro Cons.IH) simp_all
  with refs f Cons.prems(1) show ?case
    by (subst decodeSpecs.simps)
      (simp add: advance_def only_def specBytes_def [of s] add.assoc decodeContextObjectID_roundtrip)
qed

lemma DecodeReadPropertyMultipleRequest_roundtrip:
  assumes "list_all (\<lambda>s. wireObject (SpecObject s)) specs" and "fits (concat (map specBytes specs))"
  shows "DecodeReadPropertyMultipleRequest (concat (map specBytes specs)) = Ok specs"
  using decodeSpecs_roundtrip [OF assms, of "[]" "[]"]
  by (simp add: DecodeReadPropertyMultipleRequest_def)

definition resultBytes :: "PropertyResult \<Rightarrow> byte list" where
  "resultBytes pr = uintBytes 2 (Property pr) @ indexBytes 3 (ArrayIndex pr) @
     (case ResultErr pr of
        Some e \<Rightarrow> openingTag 5 @ errorBytes e @ closingTag 5
      | None \<Rightarrow> openingTag 4 @ valuesBytes (ResultValues pr) @ closingTag 4)"

definition accessResultBytes :: "ReadAccessResult \<Rightarrow> byte list" where
  "accessResultBytes r =
    oidBytes 0 (ResultObject r) @ openingTag 1 @ concat (map resultBytes (Results r)) @ closingTag 1"

text \<open>A result carries values or an error; one with an error has no values.\<close>

definition wireResult :: "PropertyResult \<Rightarrow> bool" where
  "wireResult pr \<longleftrightarrow>
    (case ResultErr pr of
       Some _ \<Rightarrow> ResultValues pr = []
     | None \<Rightarrow> list_all (wireValue maxNesting) (ResultValues pr))"

definition wireAccessResult :: "ReadAccessResult \<Rightarrow> bool" where
  "wireAccessResult r \<longleftrightarrow> wireObject (ResultObject r) \<and> list_all wireResult (Results r)"

lemma EncodeReadPropertyMultipleACK_eq:
  "EncodeReadPropertyMultipleACK rs = Ok (concat (map accessResultBytes rs))"
proof -
  have "appendResult buf p = Ok (buf @ resultBytes p)" for buf p
    by (simp add: appendResult_def appendContext_eq resultBytes_def appendErrorSequence_eq
        appendMarker_eq AppendValue_eq split: option.split)
  then have "appendAccessResult buf s = Ok (buf @ accessResultBytes s)" for buf s
    by (simp add: appendAccessResult_def appendContext_eq appendMarker_eq accessResultBytes_def
        appendAll_eq [where g = resultBytes])
  then show ?thesis
    by (simp add: EncodeReadPropertyMultipleACK_def appendAll_eq [where g = accessResultBytes])
qed

lemma closingTag_small: "t < 15 \<Longrightarrow> length (closingTag t) = 1"
  by (simp add: markerTag_def)

lemma decodeResultBody_roundtrip:
  assumes "case e of Some _ \<Rightarrow> vs = [] | None \<Rightarrow> list_all (wireValue maxNesting) vs"
    and body: "body = (case e of Some e \<Rightarrow> openingTag 5 @ errorBytes e @ closingTag 5
      | None \<Rightarrow> openingTag 4 @ valuesBytes vs @ closingTag 4)"
    and fits: "fits (body @ r)"
  shows "decodeResultBody (pre @ body @ r) (length pre) = Ok ((vs, e), length pre + length body)"
proof (cases e)
  case (Some err)
  with assms(1) show ?thesis
    by (simp add: decodeResultBody_def body advance_def add.assoc decodeErrorSequence_roundtrip
        closingTag_small)
next
  case None
  have "decodeValues (valuesBytes vs @ closingTag 4 @ r) = Ok (vs, length (valuesBytes vs))"
    using assms(1) fits body None by (intro decodeValues_roundtrip) (simp_all add: fits_def)
  with None show ?thesis
    by (simp add: decodeResultBody_def body advance_def add.assoc closingTag_small)
qed

lemma decodeResults_roundtrip:
  assumes "list_all wireResult rs" and "fits (concat (map resultBytes rs) @ closingTag 1 @ r)"
  shows "decodeResults (pre @ concat (map resultBytes rs) @ closingTag 1 @ r) acc (length pre)
    = Ok (acc @ rs, length pre + length (concat (map resultBytes rs)))"
  using assms
proof (induction rs arbitrary: pre acc)
  case Nil
  then show ?case by (subst decodeResults.simps) simp
next
  case (Cons p rs)
  let ?rest = "concat (map resultBytes rs) @ closingTag 1 @ r"
  obtain body where body: "body = (case ResultErr p of Some e \<Rightarrow> openingTag 5 @ errorBytes e @ closingTag 5
      | None \<Rightarrow> openingTag 4 @ valuesBytes (ResultValues p) @ closingTag 4)" by simp
  have p: "resultBytes p = uintBytes 2 (Property p) @ indexBytes 3 (ArrayIndex p) @ body"
    by (simp add: resultBytes_def body)
  have f: "fits (uintBytes 2 (Property p) @ indexBytes 3 (ArrayIndex p) @ body @ ?rest)"
      "fits (indexBytes 3 (ArrayIndex p) @ body @ ?rest)" "fits (body @ ?rest)" "fits ?rest"
    using Cons.prems(2) by (simp_all add: p fits_def)
  have "noPrimitive 3 (body @ ?rest)" by (simp add: body split: option.split)
  moreover have "decodeResultBody (pre @ uintBytes 2 (Property p) @ indexBytes 3 (ArrayIndex p) @ body @ ?rest)
      (length pre + (length (uintBytes 2 (Property p)) + length (indexBytes 3 (ArrayIndex p))))
    = Ok ((ResultValues p, ResultErr p), length pre + (length (uintBytes 2 (Property p))
        + (length (indexBytes 3 (ArrayIndex p)) + length body)))"
    using Cons.prems(1) decodeResultBody_roundtrip [OF _ body f(3),
      of "pre @ uintBytes 2 (Property p) @ indexBytes 3 (ArrayIndex p)"]
    by (simp add: wireResult_def add.assoc)
  moreover have "decodeResults ((pre @ resultBytes p) @ ?rest) (acc @ [p]) (length (pre @ resultBytes p))
      = Ok ((acc @ [p]) @ rs, length (pre @ resultBytes p) + length (concat (map resultBytes rs)))"
    using Cons.prems(1) f(4) by (intro Cons.IH) simp_all
  ultimately show ?case
    using f by (subst decodeResults.simps)
      (simp add: advance_def p add.assoc decodeContextEnumerated_roundtrip optPrimitive_roundtrip)
qed

lemma decodeAccessResults_roundtrip:
  assumes "list_all wireAccessResult rs" and "fits (concat (map accessResultBytes rs))"
  shows "decodeAccessResults (pre @ concat (map accessResultBytes rs)) acc (length pre) = Ok (acc @ rs)"
  using assms
proof (induction rs arbitrary: pre acc)
  case Nil
  then show ?case by (subst decodeAccessResults.simps) simp
next
  case (Cons a rs)
  let ?rest = "concat (map accessResultBytes rs)"
  let ?res = "concat (map resultBytes (Results a)) @ closingTag 1 @ ?rest"
  have f: "fits (oidBytes 0 (ResultObject a) @ openingTag 1 @ ?res)" "fits ?res" "fits ?rest"
    using Cons.prems(2) by (simp_all add: accessResultBytes_def [of a] fits_def)
  have a: "list_all wireResult (Results a)" "wireObject (ResultObject a)"
    using Cons.prems(1) by (simp_all add: wireAccessResult_def [of a])
  have res: "decodeResults (pre @ oidBytes 0 (ResultObject a) @ openingTag 1 @ ?res) []
      (length pre + (length (oidBytes 0 (ResultObject a)) + length (openingTag 1)))
    = Ok (Results a, length pre + (length (oidBytes 0 (ResultObject a)) + (length (openingTag 1)
        + length (concat (map resultBytes (Results a))))))"
    using decodeResults_roundtrip [OF a(1) f(2), of "pre @ oidBytes 0 (ResultObject a) @ openingTag 1" "[]"]
    by (simp add: add.assoc)
  have "decodeAccessResults ((pre @ accessResultBytes a) @ ?rest) (acc @ [a]) (length (pre @ accessResultBytes a))
      = Ok ((acc @ [a]) @ rs)"
    using Cons.prems(1) f(3) by (intro Cons.IH) simp_all
  with res f a show ?case
    by (subst decodeAccessResults.simps)
      (simp add: advance_def only_def accessResultBytes_def [of a] add.assoc decodeContextObjectID_roundtrip)
qed

lemma DecodeReadPropertyMultipleACK_roundtrip:
  assumes "list_all wireAccessResult rs" and "fits (concat (map accessResultBytes rs))"
  shows "DecodeReadPropertyMultipleACK (concat (map accessResultBytes rs)) = Ok rs"
  using decodeAccessResults_roundtrip [OF assms, of "[]" "[]"]
  by (simp add: DecodeReadPropertyMultipleACK_def)

section \<open>Who-Is and I-Am\<close>

definition whoIsBytes :: "WhoIsRequest \<Rightarrow> byte list" where
  "whoIsBytes r = (case (LowLimit r, HighLimit r) of
     (Some low, Some high) \<Rightarrow> uintBytes 0 low @ uintBytes 1 high | _ \<Rightarrow> [])"

lemma EncodeWhoIsRequest_eq: "EncodeWhoIsRequest r = Ok (whoIsBytes r)"
  by (simp add: EncodeWhoIsRequest_def whoIsBytes_def appendContext_eq split: option.split)

lemma uintBytes_length: "length (uintBytes t n) \<le> 11"
  using tagHeader_length [of t True "word_of_nat (length (minUnsignedBytes (ucast n)))"]
    minUnsignedBytes_u32 [of n]
  by (simp add: uintBytes_def tagged_def)

text \<open>A Who-Is with only one limit is sent without limits.\<close>

lemma DecodeWhoIsRequest_roundtrip:
  "DecodeWhoIsRequest (whoIsBytes r)
    = Ok (if LowLimit r \<noteq> None \<and> HighLimit r \<noteq> None then r else \<lparr>LowLimit = None, HighLimit = None\<rparr>)"
proof (cases "LowLimit r \<noteq> None \<and> HighLimit r \<noteq> None")
  case True
  then obtain low high where lh: "LowLimit r = Some low" "HighLimit r = Some high" by auto
  have "fits (uintBytes 0 low @ uintBytes 1 high)" "fits (uintBytes 1 high)"
    using uintBytes_length [of 0 low] uintBytes_length [of 1 high] by (simp_all add: fits_def)
  then show ?thesis
    using lh decodeContextUnsigned_roundtrip [of 1 high "[]"]
    by (cases r) (simp add: DecodeWhoIsRequest_def whoIsBytes_def decodeContextUnsigned_roundtrip)
next
  case False
  then have "whoIsBytes r = []" by (auto simp: whoIsBytes_def split: option.splits)
  with False show ?thesis by (auto simp: DecodeWhoIsRequest_def)
qed

definition iAmValues :: "IAm \<Rightarrow> Value list" where
  "iAmValues v = [ObjectIDValue (Device v), UnsignedValue (ucast (MaxAPDULength v)),
     EnumeratedValue (SegmentationSupported v), UnsignedValue (ucast (VendorID v))]"

lemma EncodeIAm_eq: "EncodeIAm v = Ok (valuesBytes (iAmValues v))"
  by (simp add: EncodeIAm_def iAmValues_def AppendValue_eq del: valueBytes.simps)

lemma DecodeIAm_roundtrip:
  assumes "wireObject (Device v)" and "fits (valuesBytes (iAmValues v))"
  shows "DecodeIAm (valuesBytes (iAmValues v)) = Ok v"
proof -
  have "list_all wirePrimitive (iAmValues v)"
    using assms(1) by (simp add: iAmValues_def wirePrimitive_def)
  from decodeApplicationValues_roundtrip [OF this assms(2)] show ?thesis
    by (simp add: DecodeIAm_def del: valueBytes.simps)
      (simp add: iAmValues_def isObjectID_def ObjectField_def UnsignedField_def EnumField_def)
qed

section \<open>The codecs\<close>

interpretation errorCodec: codec decodeErrorSequence errorBytes "\<lambda>_. True"
  by standard (auto intro: decodeErrorSequence_roundtrip decoder_safe decoder_bound
    decoder_decodeErrorSequence)

interpretation oidCodec: codec "decodeContextObjectID t" "oidBytes t" wireObject for t
  by standard (auto intro: safe_intros decodeContextObjectID_roundtrip dest: decodeContext_bound)

interpretation enumCodec: codec "decodeContextEnumerated t" "uintBytes t" "\<lambda>_. True" for t
  by standard (auto intro: safe_intros decodeContextEnumerated_roundtrip dest: decodeContext_bound)

end
