(* ===== verification/Bacnet_Wire.thy ===== *)
theory Bacnet_Wire
  imports Bacnet_Services_Codec
begin

text \<open>
  \<^verbatim>\<open>internal/bacnet/apdu.go\<close>, \<^verbatim>\<open>npdu.go\<close> and \<^verbatim>\<open>bvlc.go\<close>: the APDU headers and the
  network and link layer envelopes around them. No packet makes the decoder panic, and a packet
  built by the encoders decodes to the APDU it carries, also when a BBMD forwarded it or a router
  added network addresses.
\<close>

section \<open>APDUs\<close>

type_synonym PDUType = byte

definition PDUConfirmedRequest :: PDUType where "PDUConfirmedRequest = 0"
definition PDUUnconfirmedRequest :: PDUType where "PDUUnconfirmedRequest = 1"
definition PDUSimpleACK :: PDUType where "PDUSimpleACK = 2"
definition PDUComplexACK :: PDUType where "PDUComplexACK = 3"
definition PDUSegmentACK :: PDUType where "PDUSegmentACK = 4"
definition PDUError :: PDUType where "PDUError = 5"
definition PDUReject :: PDUType where "PDUReject = 6"
definition PDUAbort :: PDUType where "PDUAbort = 7"

lemmas PDU_defs = PDUConfirmedRequest_def PDUUnconfirmedRequest_def PDUSimpleACK_def
  PDUComplexACK_def PDUSegmentACK_def PDUError_def PDUReject_def PDUAbort_def

definition ServiceConfirmedReadProperty :: byte where "ServiceConfirmedReadProperty = 12"
definition ServiceConfirmedReadPropertyMultiple :: byte where "ServiceConfirmedReadPropertyMultiple = 14"
definition ServiceConfirmedWriteProperty :: byte where "ServiceConfirmedWriteProperty = 15"
definition ServiceUnconfirmedIAm :: byte where "ServiceUnconfirmedIAm = 0"
definition ServiceUnconfirmedWhoIs :: byte where "ServiceUnconfirmedWhoIs = 8"

lemmas Service_defs = ServiceConfirmedReadProperty_def ServiceConfirmedReadPropertyMultiple_def
  ServiceConfirmedWriteProperty_def ServiceUnconfirmedIAm_def ServiceUnconfirmedWhoIs_def

record APDU =
  PduType :: PDUType
  InvokeID :: byte
  ServiceChoice :: byte
  RejectReason :: byte
  AbortReason :: byte
  Params :: "byte list"

text \<open>The zero value of the struct with its type set.\<close>

definition newAPDU :: "PDUType \<Rightarrow> APDU" where
  "newAPDU t = \<lparr>PduType = t, InvokeID = 0, ServiceChoice = 0, RejectReason = 0, AbortReason = 0, Params = []\<rparr>"

definition EncodeConfirmedRequestAPDU :: "byte \<Rightarrow> byte \<Rightarrow> byte list \<Rightarrow> byte list" where
  "EncodeConfirmedRequestAPDU invokeID serviceChoice params = [0x00, 0x05, invokeID, serviceChoice] @ params"

definition EncodeUnconfirmedRequestAPDU :: "byte \<Rightarrow> byte list \<Rightarrow> byte list" where
  "EncodeUnconfirmedRequestAPDU serviceChoice params =
    [push_bit 4 PDUUnconfirmedRequest, serviceChoice] @ params"

definition EncodeSimpleACKAPDU :: "byte \<Rightarrow> byte \<Rightarrow> byte list" where
  "EncodeSimpleACKAPDU invokeID serviceChoice = [push_bit 4 PDUSimpleACK, invokeID, serviceChoice]"

definition EncodeComplexACKAPDU :: "byte \<Rightarrow> byte \<Rightarrow> byte list \<Rightarrow> byte list" where
  "EncodeComplexACKAPDU invokeID serviceChoice params =
    [push_bit 4 PDUComplexACK, invokeID, serviceChoice] @ params"

definition EncodeErrorAPDU :: "byte \<Rightarrow> byte \<Rightarrow> BACnetError \<Rightarrow> byte list result" where
  "EncodeErrorAPDU invokeID serviceChoice bacErr =
    appendErrorSequence [push_bit 4 PDUError, invokeID, serviceChoice] bacErr"

definition EncodeRejectAPDU :: "byte \<Rightarrow> byte \<Rightarrow> byte list" where
  "EncodeRejectAPDU invokeID reason = [push_bit 4 PDUReject, invokeID, reason]"

definition EncodeAbortAPDU :: "byte \<Rightarrow> byte \<Rightarrow> byte list" where
  "EncodeAbortAPDU invokeID reason = [push_bit 4 PDUAbort OR 0x01, invokeID, reason]"

definition DecodeAPDU :: "byte list \<Rightarrow> APDU result" where
  "DecodeAPDU buf =
    (if length buf < 1 then Err (PduErr EmptyAPDU)
     else res_bind (index buf 0) (\<lambda>b0.
       let pduType = drop_bit 4 b0 in
       if pduType = PDUConfirmedRequest then
         if b0 AND 0x08 \<noteq> 0 then Err (PduErr SegmentedRequest)
         else if length buf < 4 then Err (PduErr TruncatedConfirmedRequest)
         else res_bind (index buf 2) (\<lambda>id. res_bind (index buf 3) (\<lambda>svc.
              res_bind (sliceFrom buf 4) (\<lambda>params.
              Ok ((newAPDU pduType)\<lparr>InvokeID := id, ServiceChoice := svc, Params := params\<rparr>))))
       else if pduType = PDUUnconfirmedRequest then
         if length buf < 2 then Err (PduErr TruncatedUnconfirmedRequest)
         else res_bind (index buf 1) (\<lambda>svc. res_bind (sliceFrom buf 2) (\<lambda>params.
              Ok ((newAPDU pduType)\<lparr>ServiceChoice := svc, Params := params\<rparr>)))
       else if pduType = PDUSimpleACK then
         if length buf < 3 then Err (PduErr TruncatedSimpleACK)
         else res_bind (index buf 1) (\<lambda>id. res_bind (index buf 2) (\<lambda>svc.
              Ok ((newAPDU pduType)\<lparr>InvokeID := id, ServiceChoice := svc\<rparr>)))
       else if pduType = PDUComplexACK then
         if b0 AND 0x08 \<noteq> 0 then Err (PduErr SegmentedComplexACK)
         else if length buf < 3 then Err (PduErr TruncatedComplexACK)
         else res_bind (index buf 1) (\<lambda>id. res_bind (index buf 2) (\<lambda>svc.
              res_bind (sliceFrom buf 3) (\<lambda>params.
              Ok ((newAPDU pduType)\<lparr>InvokeID := id, ServiceChoice := svc, Params := params\<rparr>))))
       else if pduType = PDUError then
         if length buf < 3 then Err (PduErr TruncatedErrorPDU)
         else res_bind (index buf 1) (\<lambda>id. res_bind (index buf 2) (\<lambda>svc.
              res_bind (sliceFrom buf 3) (\<lambda>params.
              Ok ((newAPDU pduType)\<lparr>InvokeID := id, ServiceChoice := svc, Params := params\<rparr>))))
       else if pduType = PDUReject then
         if length buf < 3 then Err (PduErr TruncatedReject)
         else res_bind (index buf 1) (\<lambda>id. res_bind (index buf 2) (\<lambda>reason.
              Ok ((newAPDU pduType)\<lparr>InvokeID := id, RejectReason := reason\<rparr>)))
       else if pduType = PDUAbort then
         if length buf < 3 then Err (PduErr TruncatedAbort)
         else res_bind (index buf 1) (\<lambda>id. res_bind (index buf 2) (\<lambda>reason.
              Ok ((newAPDU pduType)\<lparr>InvokeID := id, AbortReason := reason\<rparr>)))
       else Err (PduErr (UnsupportedAPDUType pduType))))"

lemma DecodeAPDU_safe [safe_intros]: "safe (DecodeAPDU buf)"
  unfolding DecodeAPDU_def Let_def by (intro safe_intros; simp)

section \<open>NPDU\<close>

definition encodeNPDU :: "byte list \<Rightarrow> byte list" where
  "encodeNPDU apdu =
    (let control = (if length apdu > 0 \<and> drop_bit 4 (apdu ! 0) = PDUConfirmedRequest then 0x04 else 0x00)
     in [0x01, control] @ apdu)"

text \<open>A destination or source specifier: network number, address length and address.\<close>

definition skipAddress :: "pdu_error \<Rightarrow> byte list \<Rightarrow> bool \<Rightarrow> nat \<Rightarrow> nat result" where
  "skipAddress e buf present pos =
    (if present then
       if length buf < pos + 3 then Err (PduErr e)
       else res_bind (index buf (pos + 2)) (\<lambda>len. Ok (pos + (3 + unat len)))
     else Ok pos)"

definition decodeNPDU :: "byte list \<Rightarrow> byte list result" where
  "decodeNPDU buf =
    (if length buf < 2 then Err (PduErr TruncatedNPDUHeader)
     else res_bind (index buf 1) (\<lambda>control.
       if control AND 0x80 \<noteq> 0 then Err (PduErr NetworkLayerMessage)
       else res_bind (skipAddress TruncatedNPDUDestination buf (control AND 0x20 \<noteq> 0) 2) (\<lambda>pos.
            res_bind (skipAddress TruncatedNPDUSource buf (control AND 0x08 \<noteq> 0) pos) (\<lambda>pos.
            let pos = (if control AND 0x20 \<noteq> 0 then pos + 1 else pos) in
            if length buf < pos + 1 then Err (PduErr NPDUWithoutAPDU)
            else sliceFrom buf pos))))"

lemma decodeNPDU_safe [safe_intros]: "safe (decodeNPDU buf)"
  unfolding decodeNPDU_def skipAddress_def Let_def by (intro safe_intros; simp split: if_splits)

section \<open>BVLC\<close>

definition bvlcTypeIP :: byte where "bvlcTypeIP = 0x81"
definition bvlcFuncForwardedNPDU :: byte where "bvlcFuncForwardedNPDU = 0x04"
definition bvlcFuncOriginalUnicast :: byte where "bvlcFuncOriginalUnicast = 0x0A"
definition bvlcFuncOriginalBroadcast :: byte where "bvlcFuncOriginalBroadcast = 0x0B"

lemmas bvlc_defs = bvlcTypeIP_def bvlcFuncForwardedNPDU_def bvlcFuncOriginalUnicast_def
  bvlcFuncOriginalBroadcast_def

text \<open>\<open>byteOf\<close> is Go's conversion \<^verbatim>\<open>byte(n)\<close> of an \<^verbatim>\<open>int\<close>: it keeps the low octet.\<close>

definition byteOf :: "nat \<Rightarrow> byte" where
  "byteOf n = word_of_nat n"

definition EncodeUnicastPacket :: "byte list \<Rightarrow> byte list" where
  "EncodeUnicastPacket apdu =
    (let npdu = encodeNPDU apdu;
         total = 4 + length npdu
     in [bvlcTypeIP, bvlcFuncOriginalUnicast, byteOf (drop_bit 8 total), byteOf total] @ npdu)"

definition DecodeIncomingPacket :: "byte list \<Rightarrow> APDU result" where
  "DecodeIncomingPacket pkt =
    (if length pkt < 4 then Err (PduErr TruncatedBVLCHeader)
     else res_bind (index pkt 0) (\<lambda>b0.
       if b0 \<noteq> bvlcTypeIP then Err (PduErr (UnsupportedBVLCType b0))
       else res_bind (index pkt 1) (\<lambda>func.
         if func \<noteq> bvlcFuncOriginalUnicast \<and> func \<noteq> bvlcFuncOriginalBroadcast
            \<and> func \<noteq> bvlcFuncForwardedNPDU
         then Err (PduErr (UnsupportedBVLCFunction func))
         else let header = (if func = bvlcFuncForwardedNPDU then 4 + 6 else 4) in
           res_bind (index pkt 2) (\<lambda>hi. res_bind (index pkt 3) (\<lambda>lo.
           let len = push_bit 8 (unat hi) OR unat lo in
           if len \<noteq> length pkt then Err (PduErr (BVLCLengthMismatch len (length pkt)))
           else if length pkt < header then Err (PduErr TruncatedBVLCHeader)
           else res_bind (decAt pkt header decodeNPDU) DecodeAPDU)))))"

lemma DecodeIncomingPacket_safe: "safe (DecodeIncomingPacket pkt)"
  unfolding DecodeIncomingPacket_def Let_def by (intro safe_intros; auto)

section \<open>Round trips\<close>

lemma DecodeAPDU_roundtrip:
  "DecodeAPDU (EncodeConfirmedRequestAPDU i s ps)
    = Ok ((newAPDU PDUConfirmedRequest)\<lparr>InvokeID := i, ServiceChoice := s, Params := ps\<rparr>)"
  "DecodeAPDU (EncodeUnconfirmedRequestAPDU s ps)
    = Ok ((newAPDU PDUUnconfirmedRequest)\<lparr>ServiceChoice := s, Params := ps\<rparr>)"
  "DecodeAPDU (EncodeSimpleACKAPDU i s) = Ok ((newAPDU PDUSimpleACK)\<lparr>InvokeID := i, ServiceChoice := s\<rparr>)"
  "DecodeAPDU (EncodeComplexACKAPDU i s ps)
    = Ok ((newAPDU PDUComplexACK)\<lparr>InvokeID := i, ServiceChoice := s, Params := ps\<rparr>)"
  "DecodeAPDU (EncodeRejectAPDU i r) = Ok ((newAPDU PDUReject)\<lparr>InvokeID := i, RejectReason := r\<rparr>)"
  "DecodeAPDU (EncodeAbortAPDU i r) = Ok ((newAPDU PDUAbort)\<lparr>InvokeID := i, AbortReason := r\<rparr>)"
  by (simp_all add: DecodeAPDU_def PDU_defs EncodeConfirmedRequestAPDU_def
      EncodeUnconfirmedRequestAPDU_def EncodeSimpleACKAPDU_def EncodeComplexACKAPDU_def
      EncodeRejectAPDU_def EncodeAbortAPDU_def Let_def)

definition errorAPDU :: "byte \<Rightarrow> byte \<Rightarrow> BACnetError \<Rightarrow> byte list" where
  "errorAPDU i s e = [push_bit 4 PDUError, i, s] @ errorBytes e"

lemma EncodeErrorAPDU_eq: "EncodeErrorAPDU i s e = Ok (errorAPDU i s e)"
  by (simp add: EncodeErrorAPDU_def errorAPDU_def appendErrorSequence_eq)

lemma DecodeAPDU_error:
  "DecodeAPDU (errorAPDU i s e)
    = Ok ((newAPDU PDUError)\<lparr>InvokeID := i, ServiceChoice := s, Params := errorBytes e\<rparr>)"
  by (simp add: DecodeAPDU_def PDU_defs errorAPDU_def Let_def)

text \<open>
  The network layer header with every optional part: \<open>dst\<close> and \<open>src\<close> are network number,
  address length and address; the hop count is there when the destination is.
\<close>

definition addressOk :: "byte list \<Rightarrow> bool" where
  "addressOk a \<longleftrightarrow> (\<exists>n1 n2 len adr. a = [n1, n2, len] @ adr \<and> length adr = unat len)"

lemma skipAddress_present:
  assumes "addressOk a"
  shows "skipAddress e (pre @ a @ r) True (length pre) = Ok (length pre + length a)"
  using assms by (auto simp: addressOk_def skipAddress_def index_def nth_append)

lemma decodeNPDU_general:
  assumes "control AND 0x80 = 0" and "apdu \<noteq> []"
    and dst: "if control AND 0x20 \<noteq> 0 then addressOk dst \<and> length hops = 1 else dst = [] \<and> hops = []"
    and src: "if control AND 0x08 \<noteq> 0 then addressOk src else src = []"
  shows "decodeNPDU ([version, control] @ dst @ src @ hops @ apdu) = Ok apdu"
proof -
  let ?buf = "[version, control] @ dst @ src @ hops @ apdu"
  have d: "skipAddress TruncatedNPDUDestination ?buf (control AND 0x20 \<noteq> 0) 2 = Ok (2 + length dst)"
    using dst skipAddress_present [of dst TruncatedNPDUDestination "[version, control]" "src @ hops @ apdu"]
    by (auto simp: skipAddress_def numeral_2_eq_2 split: if_splits)
  have s: "skipAddress TruncatedNPDUSource ?buf (control AND 0x08 \<noteq> 0) (2 + length dst)
      = Ok (2 + length dst + length src)"
    using src skipAddress_present [of src TruncatedNPDUSource "[version, control] @ dst" "hops @ apdu"]
    by (auto simp: skipAddress_def numeral_2_eq_2 split: if_splits)
  have len: "1 \<le> length apdu" using assms(2) by (simp add: Suc_le_eq)
  have body: "sliceFrom ?buf (2 + length dst + length src + length hops) = Ok apdu"
    using sliceFrom_length [of "[version, control] @ dst @ src @ hops" apdu] by (simp add: add.assoc)
  have pos: "(if control AND 0x20 \<noteq> 0 then 2 + length dst + length src + 1 else 2 + length dst + length src)
      = 2 + length dst + length src + length hops"
    using dst by (simp split: if_splits)
  have two: "\<not> length ?buf < 2" and one: "index ?buf 1 = (Ok control :: byte result)"
    and room: "\<not> length ?buf < 2 + length dst + length src + length hops + 1"
    using len by (simp_all add: assms(2))
  show ?thesis
    unfolding decodeNPDU_def Let_def using assms(1)
    by (simp only: two one res_bind.simps d s pos room body if_False simp_thms)
qed

lemma decodeNPDU_roundtrip: "apdu \<noteq> [] \<Longrightarrow> decodeNPDU (encodeNPDU apdu) = Ok apdu"
  using decodeNPDU_general [of 0 apdu "[]" "[]" "[]" 1] decodeNPDU_general [of 4 apdu "[]" "[]" "[]" 1]
  by (simp add: encodeNPDU_def Let_def)

lemma total_octets: "n < 65536 \<Longrightarrow> push_bit 8 (unat (byteOf (drop_bit 8 n))) OR unat (byteOf n) = n"
proof -
  assume n: "n < 65536"
  have "drop_bit 8 n < 256" using n by (simp add: drop_bit_eq_div less_mult_imp_div_less)
  then have "unat (byteOf (drop_bit 8 n)) = drop_bit 8 n" by (simp add: byteOf_def unat_of_nat)
  moreover have "unat (byteOf n) = take_bit 8 n" by (simp add: byteOf_def unat_of_nat take_bit_eq_mod)
  moreover have "push_bit 8 (drop_bit 8 n) OR take_bit 8 n = n"
    by (rule bit_eqI) (auto simp: bit_simps)
  ultimately show ?thesis by simp
qed

text \<open>A BVLC packet with function \<open>f\<close>; \<open>origin\<close> is the forwarded sender address.\<close>

definition bvlcPacket :: "byte \<Rightarrow> byte list \<Rightarrow> byte list \<Rightarrow> byte list" where
  "bvlcPacket f origin npdu =
    (let total = 4 + length origin + length npdu
     in [bvlcTypeIP, f, byteOf (drop_bit 8 total), byteOf total] @ origin @ npdu)"

lemma EncodeUnicastPacket_eq: "EncodeUnicastPacket apdu = bvlcPacket bvlcFuncOriginalUnicast [] (encodeNPDU apdu)"
  by (simp add: EncodeUnicastPacket_def bvlcPacket_def Let_def)

lemma DecodeIncomingPacket_bvlc:
  assumes "f \<in> {bvlcFuncOriginalUnicast, bvlcFuncOriginalBroadcast} \<and> origin = []
      \<or> f = bvlcFuncForwardedNPDU \<and> length origin = 6"
    and "4 + length origin + length npdu < 65536"
  shows "DecodeIncomingPacket (bvlcPacket f origin npdu) = res_bind (decodeNPDU npdu) DecodeAPDU"
proof -
  let ?total = "4 + length origin + length npdu"
  let ?h = "[bvlcTypeIP, f, byteOf (drop_bit 8 ?total), byteOf ?total]"
  have "(if f = bvlcFuncForwardedNPDU then 4 + 6 else 4) = length ?h + length origin"
    using assms(1) by (auto simp: bvlc_defs)
  moreover have "decAt (?h @ origin @ npdu) (length ?h + length origin) decodeNPDU = decodeNPDU npdu"
    by (simp only: decAt_append decAt_length)
  ultimately show ?thesis
    using assms total_octets [of ?total]
    by (auto simp: DecodeIncomingPacket_def bvlcPacket_def Let_def bvlc_defs)
qed

lemma DecodeIncomingPacket_roundtrip:
  assumes "apdu \<noteq> []" and "length apdu < 65530"
  shows "DecodeIncomingPacket (EncodeUnicastPacket apdu) = DecodeAPDU apdu"
  using assms DecodeIncomingPacket_bvlc [of bvlcFuncOriginalUnicast "[]" "encodeNPDU apdu"]
  by (simp add: EncodeUnicastPacket_eq decodeNPDU_roundtrip) (simp add: encodeNPDU_def Let_def)

end
