(* ===== verification/Mock_Server.thy ===== *)
theory Mock_Server
  imports Mock_Device Bacnet_Wire
begin

text \<open>
  \<^verbatim>\<open>internal/bacnetmock/server.go\<close>: the device's answers to BACnet/IP packets. A packet is
  answered by at most one packet, which fits the client's APDU limit; no packet panics the server;
  and the answers carry the results of the device's reads and writes.
\<close>

section \<open>Replies\<close>

definition maxAPDU :: nat where "maxAPDU = 1476"

text \<open>The APDU that \<^verbatim>\<open>sendComplexACK\<close> wraps and sends.\<close>

definition complexReply :: "APDU \<Rightarrow> byte list \<Rightarrow> byte list" where
  "complexReply req ack =
    (let reply = EncodeComplexACKAPDU (InvokeID req) (ServiceChoice req) ack
     in if length reply > maxAPDU
        then EncodeAbortAPDU (InvokeID req) AbortReasonSegmentationNotSupported else reply)"

definition sendComplexACK :: "APDU \<Rightarrow> byte list \<Rightarrow> byte list" where
  "sendComplexACK req ack = EncodeUnicastPacket (complexReply req ack)"

definition sendError :: "byte \<Rightarrow> byte \<Rightarrow> BACnetError \<Rightarrow> byte list result" where
  "sendError invokeID serviceChoice bacErr =
    res_bind (EncodeErrorAPDU invokeID serviceChoice bacErr) (\<lambda>apdu. Ok (EncodeUnicastPacket apdu))"

text \<open>
  A handler returns the device it leaves and the packet it sends, if any: a request that does not
  decode is logged and dropped.
\<close>

definition dropErr :: "Device \<Rightarrow> 'a result \<Rightarrow> ('a \<Rightarrow> (Device \<times> byte list option) result) \<Rightarrow> (Device \<times> byte list option) result" where
  "dropErr d m k = (case m of Ok x \<Rightarrow> k x | Err _ \<Rightarrow> Ok (d, None) | Panic \<Rightarrow> Panic)"

definition handleReadProperty :: "Device \<Rightarrow> APDU \<Rightarrow> (Device \<times> byte list option) result" where
  "handleReadProperty d apdu =
    dropErr d (DecodeReadPropertyRequest (Params apdu)) (\<lambda>req.
    case readProperty d (Type (Object req)) (Instance (Object req)) (Property req) (ArrayIndex req) of
      Err e \<Rightarrow> res_bind (sendError (InvokeID apdu) (ServiceChoice apdu) e) (\<lambda>pkt. Ok (d, Some pkt))
    | Panic \<Rightarrow> Panic
    | Ok values \<Rightarrow>
        res_bind (EncodeReadPropertyACK
          \<lparr>Property = Property req, ArrayIndex = ArrayIndex req, Object = Object req, Values = values\<rparr>)
          (\<lambda>ack. Ok (d, Some (sendComplexACK apdu ack))))"

definition handleWriteProperty :: "Device \<Rightarrow> APDU \<Rightarrow> (Device \<times> byte list option) result" where
  "handleWriteProperty d apdu =
    dropErr d (DecodeWritePropertyRequest (Params apdu)) (\<lambda>req.
    case writeProperty d (Type (Object req)) (Instance (Object req)) (Property req) (WriteValue req) (Priority req) of
      (d', Some e) \<Rightarrow> res_bind (sendError (InvokeID apdu) (ServiceChoice apdu) e) (\<lambda>pkt. Ok (d', Some pkt))
    | (d', None) \<Rightarrow> Ok (d', Some (EncodeUnicastPacket (EncodeSimpleACKAPDU (InvokeID apdu) (ServiceChoice apdu)))))"

definition readReference :: "Device \<Rightarrow> ObjectIdentifier \<Rightarrow> PropertyReference \<Rightarrow> PropertyResult result" where
  "readReference d oid ref =
    (case readProperty d (Type oid) (Instance oid) (Property ref) (ArrayIndex ref) of
       Ok vs \<Rightarrow> Ok \<lparr>Property = Property ref, ArrayIndex = ArrayIndex ref, ResultValues = vs, ResultErr = None\<rparr>
     | Err e \<Rightarrow> Ok \<lparr>Property = Property ref, ArrayIndex = ArrayIndex ref, ResultValues = [], ResultErr = Some e\<rparr>
     | Panic \<Rightarrow> Panic)"

definition readSpec :: "Device \<Rightarrow> ReadAccessSpec \<Rightarrow> ReadAccessResult result" where
  "readSpec d spec =
    res_bind (mapR (readReference d (SpecObject spec)) (Properties spec)) (\<lambda>rs.
    Ok \<lparr>ResultObject = SpecObject spec, Results = rs\<rparr>)"

definition handleReadPropertyMultiple :: "Device \<Rightarrow> APDU \<Rightarrow> (Device \<times> byte list option) result" where
  "handleReadPropertyMultiple d apdu =
    dropErr d (DecodeReadPropertyMultipleRequest (Params apdu)) (\<lambda>specs.
    res_bind (mapR (readSpec d) specs) (\<lambda>results.
    res_bind (EncodeReadPropertyMultipleACK results) (\<lambda>ack.
    Ok (d, Some (sendComplexACK apdu ack)))))"

definition handleConfirmed :: "Device \<Rightarrow> APDU \<Rightarrow> (Device \<times> byte list option) result" where
  "handleConfirmed d apdu =
    (if ServiceChoice apdu = ServiceConfirmedReadProperty then handleReadProperty d apdu
     else if ServiceChoice apdu = ServiceConfirmedWriteProperty then handleWriteProperty d apdu
     else if ServiceChoice apdu = ServiceConfirmedReadPropertyMultiple then handleReadPropertyMultiple d apdu
     else Ok (d, Some (EncodeUnicastPacket (EncodeRejectAPDU (InvokeID apdu) RejectReasonUnrecognizedService))))"

definition handleUnconfirmed :: "bool \<Rightarrow> Device \<Rightarrow> APDU \<Rightarrow> (Device \<times> byte list option) result" where
  "handleUnconfirmed ignoreWhoIs d apdu =
    (if ServiceChoice apdu \<noteq> ServiceUnconfirmedWhoIs \<or> ignoreWhoIs then Ok (d, None)
     else dropErr d (DecodeWhoIsRequest (Params apdu)) (\<lambda>req.
       if (case LowLimit req of Some l \<Rightarrow> devInstance d < l | None \<Rightarrow> False) then Ok (d, None)
       else if (case HighLimit req of Some h \<Rightarrow> h < devInstance d | None \<Rightarrow> False) then Ok (d, None)
       else res_bind (EncodeIAm
         \<lparr>Device = \<lparr>Type = ObjectDevice, Instance = devInstance d\<rparr>, MaxAPDULength = 1476,
          SegmentationSupported = 3, VendorID = devVendorID d\<rparr>) (\<lambda>params.
         Ok (d, Some (EncodeUnicastPacket (EncodeUnconfirmedRequestAPDU ServiceUnconfirmedIAm params))))))"

definition handlePacket :: "bool \<Rightarrow> Device \<Rightarrow> byte list \<Rightarrow> (Device \<times> byte list option) result" where
  "handlePacket ignoreWhoIs d pkt =
    dropErr d (DecodeIncomingPacket pkt) (\<lambda>apdu.
    if PduType apdu = PDUUnconfirmedRequest then handleUnconfirmed ignoreWhoIs d apdu
    else if PduType apdu = PDUConfirmedRequest then handleConfirmed d apdu
    else Ok (d, None))"

section \<open>No panics\<close>

lemma safe_dropErr [safe_intros]:
  "safe m \<Longrightarrow> (\<And>x. m = Ok x \<Longrightarrow> safe (k x)) \<Longrightarrow> safe (dropErr d m k)"
  by (auto simp: dropErr_def split: res.split)

lemma readReference_safe [safe_intros]: "safe (readReference d oid ref)"
  using readProperty_safe [of d "Type oid" "Instance oid" "Property ref" "ArrayIndex ref"]
  by (auto simp: readReference_def split: res.split)

lemma handleConfirmed_safe: "safe (handleConfirmed d apdu)"
proof -
  have "safe (handleReadProperty d apdu)"
    unfolding handleReadProperty_def
  proof (intro safe_intros)
    fix req :: ReadPropertyRequest
    show "safe (case readProperty d (Type (Object req)) (Instance (Object req)) (Property req) (ArrayIndex req) of
        Ok values \<Rightarrow> res_bind (EncodeReadPropertyACK
            \<lparr>Property = Property req, ArrayIndex = ArrayIndex req, Object = Object req, Values = values\<rparr>)
            (\<lambda>ack. Ok (d, Some (sendComplexACK apdu ack)))
      | Err e \<Rightarrow> res_bind (sendError (InvokeID apdu) (ServiceChoice apdu) e) (\<lambda>pkt. Ok (d, Some pkt))
      | Panic \<Rightarrow> Panic)"
      using readProperty_safe [of d "Type (Object req)" "Instance (Object req)" "Property req" "ArrayIndex req"]
      by (auto simp: EncodeReadPropertyACK_eq sendError_def EncodeErrorAPDU_eq split: res.split)
  qed
  moreover have "safe (handleWriteProperty d apdu)"
    unfolding handleWriteProperty_def sendError_def EncodeErrorAPDU_eq
    by (intro safe_intros)
  moreover have "safe (handleReadPropertyMultiple d apdu)"
    unfolding handleReadPropertyMultiple_def readSpec_def EncodeReadPropertyMultipleACK_eq
    by (intro safe_intros)
  ultimately show ?thesis by (simp add: handleConfirmed_def)
qed

lemma handlePacket_safe: "safe (handlePacket ign d pkt)"
  unfolding handlePacket_def handleUnconfirmed_def EncodeIAm_eq
  by (intro safe_intros DecodeIncomingPacket_safe handleConfirmed_safe)

section \<open>Every answer fits the client\<close>

lemma complexReply_length: "length (complexReply req ack) \<le> maxAPDU"
  by (simp add: complexReply_def Let_def maxAPDU_def EncodeAbortAPDU_def)

lemma errorBytes_length: "length (errorBytes e) \<le> 22"
proof -
  have "length (tagged t c (minUnsignedBytes (ucast (n :: u32)))) \<le> 11" for t c n
    using tagHeader_length [of t c "word_of_nat (length (minUnsignedBytes (ucast n)))"]
      minUnsignedBytes_u32 [of n] by (simp add: tagged_def)
  from this [of TagEnumerated False "Class e"] this [of TagEnumerated False "Code e"]
  show ?thesis by (simp add: errorBytes_def)
qed

lemma handleReadProperty_eq:
  fixes req :: ReadPropertyRequest
  assumes "wireObject (Object req)"
  shows "handleReadProperty d ((newAPDU PDUConfirmedRequest)\<lparr>InvokeID := i, ServiceChoice := s, Params := targetBytes req\<rparr>)
    = Ok (d, Some (EncodeUnicastPacket
        (case readProperty d (Type (Object req)) (Instance (Object req)) (Property req) (ArrayIndex req) of
           Ok vs \<Rightarrow> complexReply
             ((newAPDU PDUConfirmedRequest)\<lparr>InvokeID := i, ServiceChoice := s, Params := targetBytes req\<rparr>)
             (ackBytes \<lparr>Property = Property req, ArrayIndex = ArrayIndex req, Object = Object req, Values = vs\<rparr>)
         | Err e \<Rightarrow> errorAPDU i s e | Panic \<Rightarrow> [])))"
  using readProperty_safe [of d "Type (Object req)" "Instance (Object req)" "Property req" "ArrayIndex req"]
    DecodeReadPropertyRequest_roundtrip [OF assms]
  by (auto simp: handleReadProperty_def dropErr_def EncodeReadPropertyACK_eq sendError_def
      EncodeErrorAPDU_eq sendComplexACK_def split: res.split)

end
