(* ===== verification/Go_Net.thy ===== *)
theory Go_Net
  imports Go_Strings
begin

text \<open>
  The part of Go's \<^verbatim>\<open>net\<close> package the program relies on: IP addresses as byte slices (nil is
  the empty one), their equality across the IPv4 forms, and host:port strings.
\<close>

type_synonym IP = "byte list"

definition v4InV6Prefix :: "byte list" where
  "v4InV6Prefix = replicate 10 0 @ [0xFF, 0xFF]"

text \<open>\<^verbatim>\<open>ip.To4()\<close>: nil when the address is not an IPv4 address.\<close>

definition To4 :: "IP \<Rightarrow> IP" where
  "To4 ip =
    (if length ip = 4 then ip
     else if length ip = 16 \<and> take 12 ip = v4InV6Prefix then drop 12 ip
     else [])"

definition IPEqual :: "IP \<Rightarrow> IP \<Rightarrow> bool" where
  "IPEqual ip x =
    (if length ip = length x then ip = x
     else if length ip = 4 \<and> length x = 16 then take 12 x = v4InV6Prefix \<and> ip = drop 12 x
     else if length ip = 16 \<and> length x = 4 then take 12 ip = v4InV6Prefix \<and> drop 12 ip = x
     else False)"

lemma IPEqual_refl [simp]: "IPEqual ip ip"
  by (simp add: IPEqual_def)

lemma IPEqual_sym: "IPEqual a b \<longleftrightarrow> IPEqual b a"
  by (auto simp: IPEqual_def)

lemma length_v4Prefix [simp]: "length v4InV6Prefix = 12"
  by (simp add: v4InV6Prefix_def)

text \<open>Two addresses are equal exactly when they are the same host: the 16-byte forms agree.\<close>

definition To16 :: "IP \<Rightarrow> IP" where
  "To16 ip = (if length ip = 4 then v4InV6Prefix @ ip else ip)"

lemma IPEqual_To16:
  assumes "length a \<in> {0, 4, 16}" and "length b \<in> {0, 4, 16}"
  shows "IPEqual a b \<longleftrightarrow> To16 a = To16 b"
proof -
  have mapped: "take 12 y = v4InV6Prefix \<and> x = drop 12 y \<longleftrightarrow> v4InV6Prefix @ x = y"
    if "length y = 16" for x y :: IP
    using that by (metis append_eq_conv_conj length_v4Prefix)
  show ?thesis
    using assms mapped [of a b] mapped [of b a] by (auto simp: IPEqual_def To16_def)
qed

lemma IPEqual_trans:
  assumes "IPEqual a b" and "IPEqual b c"
    and "length a \<in> {0, 4, 16}" and "length b \<in> {0, 4, 16}" and "length c \<in> {0, 4, 16}"
  shows "IPEqual a c"
  using assms by (simp add: IPEqual_To16)

section \<open>host:port\<close>

definition IndexByte :: "string \<Rightarrow> char \<Rightarrow> nat option" where
  "IndexByte s c = (if c \<in> set s then Some (length (takeWhile (\<lambda>x. x \<noteq> c) s)) else None)"

definition LastIndexByte :: "string \<Rightarrow> char \<Rightarrow> nat option" where
  "LastIndexByte s c =
    (case IndexByte (rev s) c of None \<Rightarrow> None | Some i \<Rightarrow> Some (length s - 1 - i))"

text \<open>\<open>None\<close> is any of the errors of \<^verbatim>\<open>net.SplitHostPort\<close>; its callers do not tell them apart.\<close>

definition SplitHostPort :: "string \<Rightarrow> (string \<times> string) option" where
  "SplitHostPort hostport =
    (case LastIndexByte hostport (CHR '':'') of
       None \<Rightarrow> None
     | Some i \<Rightarrow>
         if hostport ! 0 = CHR ''['' then
           case IndexByte hostport (CHR '']'') of
             None \<Rightarrow> None
           | Some end' \<Rightarrow>
               if end' + 1 \<noteq> i then None
               else if CHR ''['' \<in> set (drop 1 hostport) \<or> CHR '']'' \<in> set (drop (end' + 1) hostport) then None
               else Some (take (end' - 1) (drop 1 hostport), drop (i + 1) hostport)
         else
           let host = take i hostport in
           if CHR '':'' \<in> set host then None
           else if CHR ''['' \<in> set hostport \<or> CHR '']'' \<in> set hostport then None
           else Some (host, drop (i + 1) hostport))"

definition JoinHostPort :: "string \<Rightarrow> string \<Rightarrow> string" where
  "JoinHostPort host port =
    (if CHR '':'' \<in> set host then ''['' @ host @ '']:'' @ port else host @ '':'' @ port)"

lemma IndexByte_append: "c \<notin> set s \<Longrightarrow> IndexByte (s @ c # t) c = Some (length s)"
proof -
  assume "c \<notin> set s"
  then have "takeWhile (\<lambda>x. x \<noteq> c) s = s" by (auto simp: takeWhile_eq_all_conv)
  then show ?thesis by (simp add: IndexByte_def takeWhile_tail)
qed

lemma LastIndexByte_append:
  assumes "c \<notin> set t"
  shows "LastIndexByte (s @ c # t) c = Some (length s)"
  using IndexByte_append [of c "rev t" "rev s"] assms by (simp add: LastIndexByte_def)

text \<open>A name without brackets, as hosts and ports are.\<close>

definition unbracketed :: "string \<Rightarrow> bool" where
  "unbracketed s \<longleftrightarrow> CHR ''['' \<notin> set s \<and> CHR '']'' \<notin> set s"

lemma SplitHostPort_plain:
  assumes "unbracketed host" "unbracketed port" "CHR '':'' \<notin> set host" "CHR '':'' \<notin> set port"
  shows "SplitHostPort (host @ CHR '':'' # port) = Some (host, port)"
proof -
  have "(host @ CHR '':'' # port) ! 0 \<noteq> CHR ''[''"
    using assms(1) by (cases host) (auto simp: unbracketed_def)
  then show ?thesis
    using assms LastIndexByte_append [of "CHR '':''" port host]
    by (simp add: SplitHostPort_def Let_def unbracketed_def)
qed

lemma SplitHostPort_bracketed:
  assumes "unbracketed host" "unbracketed port" "CHR '':'' \<notin> set port"
  shows "SplitHostPort (''['' @ host @ '']:'' @ port) = Some (host, port)"
proof -
  have "LastIndexByte ((''['' @ host @ '']'') @ CHR '':'' # port) (CHR '':'') = Some (length host + 2)"
    using LastIndexByte_append [OF assms(3), of "''['' @ host @ '']''"] by simp
  moreover have "IndexByte ((''['' @ host) @ CHR '']'' # CHR '':'' # port) (CHR '']'') = Some (length host + 1)"
    using assms(1) IndexByte_append [of "CHR '']''" "''['' @ host" "CHR '':'' # port"]
    by (simp add: unbracketed_def)
  ultimately show ?thesis
    using assms by (simp add: SplitHostPort_def unbracketed_def)
qed

lemma SplitHostPort_JoinHostPort:
  assumes "unbracketed host" "unbracketed port" "CHR '':'' \<notin> set port"
  shows "SplitHostPort (JoinHostPort host port) = Some (host, port)"
  using assms SplitHostPort_plain [of host port] SplitHostPort_bracketed [of host port]
  by (simp add: JoinHostPort_def)

text \<open>Two colons outside brackets: the error \<^verbatim>\<open>too many colons in address\<close>.\<close>

lemma SplitHostPort_colons:
  assumes "CHR '':'' \<in> set host" and "CHR '':'' \<notin> set port" and "host ! 0 \<noteq> CHR ''[''"
  shows "SplitHostPort (host @ CHR '':'' # port) = None"
proof -
  have "(host @ CHR '':'' # port) ! 0 \<noteq> CHR ''[''" using assms(1,3) by (cases host) auto
  then show ?thesis
    using LastIndexByte_append [OF assms(2), of host] assms(1) by (simp add: SplitHostPort_def Let_def)
qed

end
