(* ===== verification/Bacnet_Client.thy ===== *)
theory Bacnet_Client
  imports Bacnet_Wire Go_Net
begin

text \<open>
  \<^verbatim>\<open>internal/bacnet/client.go\<close>: invoke ID allocation, the table of outstanding requests, the
  receive loop's dispatch and the request operations. The lemmas show that an invoke ID is
  allocated exactly when one is free, that a reply is handed only to the request it answers, and
  what each operation returns for each kind of reply. The receive loop dereferences the entry of
  an invoke ID that is not outstanding; the last section says for which packets it does.
\<close>

section \<open>State\<close>

record UDPAddr =
  AddrIP :: IP
  AddrPort :: nat

text \<open>
  A channel is identified by a number. A reply channel holds at most one APDU and a Who-Is
  subscription at most eight events (the capacities of the two \<^verbatim>\<open>make(chan ...)\<close>).
\<close>

type_synonym chan = nat

record pendingRequest =
  ReqTo :: UDPAddr
  ReqService :: byte
  ReqCh :: chan

record iamEvent =
  EvFrom :: IP
  EvIAm :: IAm

record Client =
  nextID :: byte
  pending :: "byte \<rightharpoonup> pendingRequest"
  iamSubs :: "chan set"
  replies :: "chan \<Rightarrow> APDU option"
  events :: "chan \<Rightarrow> iamEvent list"

definition newClient :: Client where
  "newClient = \<lparr>nextID = 0, pending = Map.empty, iamSubs = {}, replies = (\<lambda>_. None), events = (\<lambda>_. [])\<rparr>"

section \<open>Invoke IDs\<close>

text \<open>
  The loop \<^verbatim>\<open>for range 256\<close> of \<^verbatim>\<open>doConfirmedRequest\<close>, with \<open>n\<close> iterations left: the next
  \<^verbatim>\<open>c.nextID\<close> and the free ID, if one was found.
\<close>

fun findInvokeID :: "nat \<Rightarrow> (byte \<rightharpoonup> pendingRequest) \<Rightarrow> byte \<Rightarrow> byte \<times> byte option" where
  "findInvokeID 0 pend next = (next, None)"
| "findInvokeID (Suc n) pend next =
    (if pend next = None then (next + 1, Some next) else findInvokeID n pend (next + 1))"

text \<open>Everything \<^verbatim>\<open>doConfirmedRequest\<close> does under the lock before it sends.\<close>

definition registerRequest :: "Client \<Rightarrow> chan \<Rightarrow> UDPAddr \<Rightarrow> byte \<Rightarrow> Client \<times> byte result" where
  "registerRequest c ch addr service =
    (case findInvokeID 256 (pending c) (nextID c) of
       (next, None) \<Rightarrow> (c\<lparr>nextID := next\<rparr>, Err TooManyOutstanding)
     | (next, Some invokeID) \<Rightarrow>
         (c\<lparr>nextID := next,
            pending := (pending c)(invokeID \<mapsto> \<lparr>ReqTo = addr, ReqService = service, ReqCh = ch\<rparr>),
            replies := (replies c)(ch := None)\<rparr>,
          Ok invokeID))"

definition releaseRequest :: "Client \<Rightarrow> byte \<Rightarrow> Client" where
  "releaseRequest c invokeID = c\<lparr>pending := (pending c)(invokeID := None)\<rparr>"

lemma findInvokeID_Some:
  assumes "findInvokeID n pend next = (next', Some i)"
  shows "pend i = None \<and> next' = i + 1"
  using assms by (induction n pend "next" rule: findInvokeID.induct) (auto split: if_splits)

lemma findInvokeID_None:
  assumes "findInvokeID n pend next = (next', None)" and "k < n"
  shows "pend (next + word_of_nat k) \<noteq> None"
  using assms
proof (induction n pend "next" arbitrary: k rule: findInvokeID.induct)
  case (2 n pend "next")
  then show ?case
    by (cases k) (auto simp: add.assoc split: if_splits)
qed simp

text \<open>256 steps visit every ID, so the search fails only when all of them are in use.\<close>

lemma findInvokeID_complete:
  "(\<exists>next'. findInvokeID 256 pend next = (next', None)) \<longleftrightarrow> (\<forall>i. pend i \<noteq> None)"
proof
  assume "\<exists>next'. findInvokeID 256 pend next = (next', None)"
  then obtain next' where fail: "findInvokeID 256 pend next = (next', None)" ..
  show "\<forall>i. pend i \<noteq> None"
  proof
    fix i
    have "next + word_of_nat (unat (i - next)) = i" by simp
    moreover have "unat (i - next) < 256" using unsigned_less [of "i - next"] by simp
    ultimately show "pend i \<noteq> None" using findInvokeID_None [OF fail, of "unat (i - next)"] by simp
  qed
next
  assume all: "\<forall>i. pend i \<noteq> None"
  have "snd (findInvokeID n pend next) = None" for n "next"
    by (induction n arbitrary: "next") (use all in auto)
  then show "\<exists>next'. findInvokeID 256 pend next = (next', None)"
    by (metis prod.collapse)
qed

section \<open>The receive loop\<close>

text \<open>
  The test of \<^verbatim>\<open>handleIncoming\<close>. The service is compared before \<^verbatim>\<open>ok\<close> is looked at, so for
  an APDU type with a service choice a missing entry is a nil dereference.
\<close>

definition replyType :: "PDUType \<Rightarrow> bool" where
  "replyType t \<longleftrightarrow> t = PDUSimpleACK \<or> t = PDUComplexACK \<or> t = PDUError \<or> t = PDUReject \<or> t = PDUAbort"

definition sameService :: "APDU \<Rightarrow> pendingRequest option \<Rightarrow> bool result" where
  "sameService apdu req =
    (if PduType apdu = PDUReject \<or> PduType apdu = PDUAbort then Ok True
     else case req of None \<Rightarrow> Panic | Some r \<Rightarrow> Ok (ServiceChoice apdu = ReqService r))"

definition deliverReply :: "Client \<Rightarrow> chan \<Rightarrow> APDU \<Rightarrow> Client" where
  "deliverReply c ch apdu =
    (case replies c ch of
       None \<Rightarrow> c\<lparr>replies := (replies c)(ch \<mapsto> apdu)\<rparr>
     | Some _ \<Rightarrow> c)"

definition iamCapacity :: nat where "iamCapacity = 8"

definition deliverIAm :: "Client \<Rightarrow> iamEvent \<Rightarrow> Client" where
  "deliverIAm c ev =
    c\<lparr>events := (\<lambda>ch. if ch \<in> iamSubs c \<and> length (events c ch) < iamCapacity
                     then events c ch @ [ev] else events c ch)\<rparr>"

definition handleIncoming :: "Client \<Rightarrow> byte list \<Rightarrow> UDPAddr \<Rightarrow> Client result" where
  "handleIncoming c pkt from =
    (case DecodeIncomingPacket pkt of
       Panic \<Rightarrow> Panic
     | Err _ \<Rightarrow> Ok c
     | Ok apdu \<Rightarrow>
         if replyType (PduType apdu) then
           let req = pending c (InvokeID apdu) in
           res_bind (sameService apdu req) (\<lambda>same.
           case req of
             Some r \<Rightarrow>
               if IPEqual (AddrIP (ReqTo r)) (AddrIP from) \<and> same
               then Ok (deliverReply c (ReqCh r) apdu) else Ok c
           | None \<Rightarrow> Ok c)
         else if PduType apdu = PDUUnconfirmedRequest then
           if ServiceChoice apdu = ServiceUnconfirmedIAm then
             case DecodeIAm (Params apdu) of
               Panic \<Rightarrow> Panic
             | Err _ \<Rightarrow> Ok c
             | Ok iam \<Rightarrow> Ok (deliverIAm c \<lparr>EvFrom = AddrIP from, EvIAm = iam\<rparr>)
           else Ok c
         else Ok c)"

lemma deliverReply_frame [simp]:
  "pending (deliverReply c ch apdu) = pending c" "nextID (deliverReply c ch apdu) = nextID c"
  "iamSubs (deliverReply c ch apdu) = iamSubs c" "events (deliverReply c ch apdu) = events c"
  by (simp_all add: deliverReply_def split: option.split)

lemma deliverIAm_frame [simp]:
  "pending (deliverIAm c ev) = pending c" "nextID (deliverIAm c ev) = nextID c"
  "iamSubs (deliverIAm c ev) = iamSubs c" "replies (deliverIAm c ev) = replies c"
  by (simp_all add: deliverIAm_def)

text \<open>The receive loop never changes which requests are outstanding.\<close>

lemma handleIncoming_frame:
  assumes "handleIncoming c pkt from = Ok c'"
  shows "pending c' = pending c \<and> nextID c' = nextID c \<and> iamSubs c' = iamSubs c"
  using assms by (auto simp: handleIncoming_def Let_def res_bind_Ok_iff split: res.splits if_splits option.splits)

text \<open>An APDU answers an outstanding request.\<close>

definition answers :: "APDU \<Rightarrow> UDPAddr \<Rightarrow> byte \<Rightarrow> pendingRequest \<Rightarrow> bool" where
  "answers apdu from invokeID r \<longleftrightarrow>
    replyType (PduType apdu) \<and> InvokeID apdu = invokeID \<and> IPEqual (AddrIP (ReqTo r)) (AddrIP from)
    \<and> (PduType apdu = PDUReject \<or> PduType apdu = PDUAbort \<or> ServiceChoice apdu = ReqService r)"

lemma handleIncoming_OkE:
  assumes "handleIncoming c pkt from = Ok c'"
  obtains (unchanged) "c' = c"
  | (reply) apdu r where "DecodeIncomingPacket pkt = Ok apdu" "pending c (InvokeID apdu) = Some r"
      "answers apdu from (InvokeID apdu) r" "c' = deliverReply c (ReqCh r) apdu"
  | (iam) apdu iam where "DecodeIncomingPacket pkt = Ok apdu" "PduType apdu = PDUUnconfirmedRequest"
      "ServiceChoice apdu = ServiceUnconfirmedIAm" "DecodeIAm (Params apdu) = Ok iam"
      "c' = deliverIAm c \<lparr>EvFrom = AddrIP from, EvIAm = iam\<rparr>"
proof (cases "DecodeIncomingPacket pkt")
  case (Ok apdu)
  show thesis
  proof (cases "replyType (PduType apdu)")
    case True
    show thesis
    proof (cases "pending c (InvokeID apdu)")
      case None
      with Ok True assms show thesis
        by (auto simp: handleIncoming_def Let_def res_bind_Ok_iff intro: unchanged)
    next
      case (Some r)
      with Ok True assms show thesis
        by (auto simp: handleIncoming_def Let_def res_bind_Ok_iff sameService_def answers_def
            split: if_splits intro: unchanged reply)
    qed
  next
    case False
    with Ok assms show thesis
      by (auto simp: handleIncoming_def split: res.splits if_splits intro: unchanged iam)
  qed
qed (use assms in \<open>auto simp: handleIncoming_def intro: unchanged\<close>)

lemma handleIncoming_reply:
  assumes "handleIncoming c pkt from = Ok c'" and "replies c' ch \<noteq> replies c ch"
  obtains apdu r where "DecodeIncomingPacket pkt = Ok apdu" "pending c (InvokeID apdu) = Some r"
    "answers apdu from (InvokeID apdu) r" "ReqCh r = ch" "replies c ch = None" "replies c' ch = Some apdu"
  using assms(1)
proof (cases rule: handleIncoming_OkE)
  case (reply apdu r)
  then show thesis using assms(2) that by (auto simp: deliverReply_def split: option.splits if_splits)
qed (use assms(2) in simp_all)

lemma handleIncoming_delivers:
  assumes "DecodeIncomingPacket pkt = Ok apdu" and "pending c (InvokeID apdu) = Some r"
    and "answers apdu from (InvokeID apdu) r"
  shows "handleIncoming c pkt from = Ok (deliverReply c (ReqCh r) apdu)"
  using assms by (auto simp: handleIncoming_def answers_def sameService_def)

section \<open>When the receive loop panics\<close>

text \<open>
  Exactly the replies with a service choice to an invoke ID that is not outstanding, from any
  sender: a reply that arrives after its request timed out, or a duplicate of one already taken.
\<close>

lemma handleIncoming_panics_iff:
  "handleIncoming c pkt from = Panic \<longleftrightarrow>
    (\<exists>apdu. DecodeIncomingPacket pkt = Ok apdu
      \<and> PduType apdu \<in> {PDUSimpleACK, PDUComplexACK, PDUError}
      \<and> pending c (InvokeID apdu) = None)"
  using DecodeIncomingPacket_safe [of pkt] Decode_who_safe(2)
  by (auto simp: handleIncoming_def Let_def sameService_def replyType_def PDU_defs safe_def
      split: res.splits option.splits if_splits)

end
