(* ===== verification/Bacnet_Requests.thy ===== *)
theory Bacnet_Requests
  imports Bacnet_Client
begin

text \<open>
  The request operations of \<^verbatim>\<open>internal/bacnet/client.go\<close>: the send-and-wait loop of
  \<^verbatim>\<open>doConfirmedRequest\<close>, Who-Is, the three services and the discovery of the device instance.
  What the network and the clock do is a parameter: for every attempt, whether sending failed, a
  reply arrived, the timeout expired or the context ended. The lemmas say what each operation
  returns for each of these, and that every operation returns.
\<close>

section \<open>Addresses\<close>

text \<open>\<open>resolve\<close> is \<^verbatim>\<open>net.ResolveUDPAddr("udp", s)\<close>, which asks the system's resolver.\<close>

definition resolveDeviceAddr :: "(string \<Rightarrow> UDPAddr result) \<Rightarrow> string \<Rightarrow> UDPAddr result" where
  "resolveDeviceAddr resolve hostPort =
    (let (host, port) = (case SplitHostPort hostPort of None \<Rightarrow> (hostPort, '''') | Some hp \<Rightarrow> hp)
     in if port = '''' then resolve (host @ '':47808'') else resolve (JoinHostPort host port))"

section \<open>Confirmed requests\<close>

datatype attemptEvent = SendFails | Answer APDU | TimesOut | CtxDone

text \<open>The loop over attempts; \<open>env k\<close> is what happens in attempt \<open>k\<close>.\<close>

function attempts :: "(nat \<Rightarrow> attemptEvent) \<Rightarrow> nat \<Rightarrow> nat \<Rightarrow> APDU result" where
  "attempts env retries attempt =
    (if attempt \<le> retries then
       case env attempt of
         SendFails \<Rightarrow> Err (Wrap ''bacnet: send'' SystemError)
       | Answer apdu \<Rightarrow> Ok apdu
       | CtxDone \<Rightarrow> Err ContextError
       | TimesOut \<Rightarrow> attempts env retries (attempt + 1)
     else Err (Wrap ''request'' ErrTimeout))"
  by pat_completeness auto
termination
  by (relation "measure (\<lambda>(env, retries, attempt). retries + 1 - attempt)") auto

declare attempts.simps [simp del]

text \<open>\<open>net addr pkt\<close> is the environment of a request that sends \<open>pkt\<close> to \<open>addr\<close>.\<close>

type_synonym network = "UDPAddr \<Rightarrow> byte list \<Rightarrow> nat \<Rightarrow> attemptEvent"

definition doConfirmedRequest ::
  "network \<Rightarrow> nat \<Rightarrow> Client \<Rightarrow> chan \<Rightarrow> UDPAddr \<Rightarrow> byte \<Rightarrow> byte list \<Rightarrow> Client \<times> APDU result" where
  "doConfirmedRequest net retries c ch addr serviceChoice params =
    (case registerRequest c ch addr serviceChoice of
       (c', Ok invokeID) \<Rightarrow>
         let pkt = EncodeUnicastPacket (EncodeConfirmedRequestAPDU invokeID serviceChoice params)
         in (releaseRequest c' invokeID, attempts (net addr pkt) retries 0)
     | (c', Err e) \<Rightarrow> (c', Err e)
     | (c', Panic) \<Rightarrow> (c', Panic))"

lemma attempts_safe [safe_intros]: "safe (attempts env retries k)"
proof (induction env retries k rule: attempts.induct)
  case (1 env retries k)
  then show ?case by (subst attempts.simps) (auto split: attemptEvent.split)
qed

lemma attempts_first:
  assumes "k \<le> m" and "m \<le> retries" and "\<And>j. k \<le> j \<Longrightarrow> j < m \<Longrightarrow> env j = TimesOut" and "env m \<noteq> TimesOut"
  shows "attempts env retries k = (case env m of
     SendFails \<Rightarrow> Err (Wrap ''bacnet: send'' SystemError) | Answer apdu \<Rightarrow> Ok apdu | _ \<Rightarrow> Err ContextError)"
  using assms
proof (induction "m - k" arbitrary: k)
  case 0
  then show ?case by (subst attempts.simps) (auto split: attemptEvent.split)
next
  case (Suc d)
  then have "env k = TimesOut" by auto
  moreover have "attempts env retries (k + 1) = (case env m of
     SendFails \<Rightarrow> Err (Wrap ''bacnet: send'' SystemError) | Answer apdu \<Rightarrow> Ok apdu | _ \<Rightarrow> Err ContextError)"
    using Suc by (intro Suc.hyps) auto
  ultimately show ?case using Suc.prems(1,2) by (subst attempts.simps) simp
qed

lemma attempts_timeout:
  assumes "\<And>j. k \<le> j \<Longrightarrow> j \<le> retries \<Longrightarrow> env j = TimesOut"
  shows "attempts env retries k = Err (Wrap ''request'' ErrTimeout)"
  using assms
proof (induction env retries k rule: attempts.induct)
  case (1 env retries k)
  show ?case
  proof (cases "k \<le> retries")
    case True
    then have "env k = TimesOut" using 1(2) by simp
    with True 1 show ?thesis by (subst attempts.simps) simp
  qed (subst attempts.simps, simp)
qed

text \<open>A request leaves the table as it found it, and moves on by at least one invoke ID.\<close>

lemma doConfirmedRequest_pending: "pending (fst (doConfirmedRequest net retries c ch addr s ps)) = pending c"
proof (cases "findInvokeID 256 (pending c) (nextID c)")
  case (Pair n i)
  then show ?thesis
    by (cases i) (auto simp: doConfirmedRequest_def registerRequest_def releaseRequest_def Let_def
        dest!: findInvokeID_Some)
qed

lemma doConfirmedRequest_result:
  "snd (doConfirmedRequest net retries c ch addr s ps) =
    (case findInvokeID 256 (pending c) (nextID c) of
       (_, Some i) \<Rightarrow> attempts (net addr (EncodeUnicastPacket (EncodeConfirmedRequestAPDU i s ps))) retries 0
     | _ \<Rightarrow> Err TooManyOutstanding)"
  by (auto simp: doConfirmedRequest_def registerRequest_def Let_def split: prod.split option.split)

definition serviceError :: "APDU \<Rightarrow> PDUType \<Rightarrow> 'a result" where
  "serviceError apdu wantType =
    (if PduType apdu = PDUError then
       res_bind (DecodeBACnetError (Params apdu)) (\<lambda>bacErr. Err (BACnetErr bacErr))
     else if PduType apdu = PDUReject then Err (RejectErr (RejectReason apdu))
     else if PduType apdu = PDUAbort then Err (AbortErr (AbortReason apdu))
     else Err (UnexpectedAPDUType (PduType apdu) wantType))"

lemma serviceError_safe [safe_intros]: "safe (serviceError apdu t)"
  unfolding serviceError_def by (intro safe_intros)

lemma serviceError_fails: "\<exists>e. serviceError apdu t = Err e"
  using serviceError_safe [of apdu t] DecodeBACnetError_safe [of "Params apdu"]
  by (cases "DecodeBACnetError (Params apdu)") (auto simp: serviceError_def)

section \<open>The services\<close>

text \<open>
  \<open>request addr service params\<close> is \<^verbatim>\<open>c.doConfirmedRequest(ctx, addr, service, params)\<close>.
\<close>

type_synonym requester = "UDPAddr \<Rightarrow> byte \<Rightarrow> byte list \<Rightarrow> APDU result"
type_synonym resolver = "string \<Rightarrow> UDPAddr result"

definition ReadProperty ::
  "resolver \<Rightarrow> requester \<Rightarrow> string \<Rightarrow> ObjectIdentifier \<Rightarrow> PropertyIdentifier \<Rightarrow> u32 option \<Rightarrow> Value list result"
where
  "ReadProperty resolve request hostPort obj prop arrayIndex =
    res_bind (resolveDeviceAddr resolve hostPort) (\<lambda>addr.
    res_bind (EncodeReadPropertyRequest \<lparr>Property = prop, ArrayIndex = arrayIndex, Object = obj\<rparr>) (\<lambda>params.
    res_bind (request addr ServiceConfirmedReadProperty params) (\<lambda>apdu.
    if PduType apdu \<noteq> PDUComplexACK then serviceError apdu PDUComplexACK
    else res_bind (DecodeReadPropertyACK (Params apdu)) (\<lambda>ack. Ok (Values ack)))))"

definition ReadPropertyMultiple ::
  "resolver \<Rightarrow> requester \<Rightarrow> string \<Rightarrow> ReadAccessSpec list \<Rightarrow> ReadAccessResult list result" where
  "ReadPropertyMultiple resolve request hostPort specs =
    res_bind (resolveDeviceAddr resolve hostPort) (\<lambda>addr.
    res_bind (EncodeReadPropertyMultipleRequest specs) (\<lambda>params.
    res_bind (request addr ServiceConfirmedReadPropertyMultiple params) (\<lambda>apdu.
    if PduType apdu \<noteq> PDUComplexACK then serviceError apdu PDUComplexACK
    else DecodeReadPropertyMultipleACK (Params apdu))))"

definition WriteProperty ::
  "resolver \<Rightarrow> requester \<Rightarrow> string \<Rightarrow> ObjectIdentifier \<Rightarrow> PropertyIdentifier \<Rightarrow> Value \<Rightarrow> byte option \<Rightarrow> unit result"
where
  "WriteProperty resolve request hostPort obj prop v priority =
    res_bind (resolveDeviceAddr resolve hostPort) (\<lambda>addr.
    res_bind (EncodeWritePropertyRequest
      \<lparr>Property = prop, ArrayIndex = None, Object = obj, WriteValue = v, Priority = priority\<rparr>) (\<lambda>params.
    res_bind (request addr ServiceConfirmedWriteProperty params) (\<lambda>apdu.
    if PduType apdu \<noteq> PDUSimpleACK then serviceError apdu PDUSimpleACK else Ok ())))"

lemma resolveDeviceAddr_safe [safe_intros]:
  "(\<And>s. safe (resolve s)) \<Longrightarrow> safe (resolveDeviceAddr resolve hostPort)"
  by (auto simp: resolveDeviceAddr_def Let_def split: prod.split)

text \<open>No operation panics, whatever a peer answers.\<close>

lemma services_safe:
  assumes "\<And>s. safe (resolve s)" and "\<And>a s ps. safe (request a s ps)"
  shows "safe (ReadProperty resolve request h obj prop idx)"
    and "safe (ReadPropertyMultiple resolve request h specs)"
    and "safe (WriteProperty resolve request h obj prop v prio)"
  unfolding ReadProperty_def ReadPropertyMultiple_def WriteProperty_def
    EncodeReadPropertyRequest_eq EncodeReadPropertyMultipleRequest_eq EncodeWritePropertyRequest_eq
  by (intro safe_intros assms)+

section \<open>Who-Is and the device instance\<close>

text \<open>
  One round of \<^verbatim>\<open>WhoIs\<close>: the send may fail; otherwise I-Am events arrive until the deadline
  or the end of the context.
\<close>

datatype whoIsRound = RoundSendFails | RoundDeadline "iamEvent list" | RoundCancelled "iamEvent list"

fun firstFrom :: "UDPAddr \<Rightarrow> iamEvent list \<Rightarrow> IAm option" where
  "firstFrom addr [] = None"
| "firstFrom addr (ev # evs) =
    (if IPEqual (EvFrom ev) (AddrIP addr) then Some (EvIAm ev) else firstFrom addr evs)"

function whoIsLoop :: "(nat \<Rightarrow> whoIsRound) \<Rightarrow> UDPAddr \<Rightarrow> nat \<Rightarrow> nat \<Rightarrow> IAm result" where
  "whoIsLoop rounds addr retries attempt =
    (if attempt \<le> retries then
       case rounds attempt of
         RoundSendFails \<Rightarrow> Err (Wrap ''bacnet: send who-is'' SystemError)
       | RoundDeadline evs \<Rightarrow>
           (case firstFrom addr evs of
              Some iam \<Rightarrow> Ok iam
            | None \<Rightarrow> whoIsLoop rounds addr retries (attempt + 1))
       | RoundCancelled evs \<Rightarrow>
           (case firstFrom addr evs of Some iam \<Rightarrow> Ok iam | None \<Rightarrow> Err ContextError)
     else Err (Wrap ''who-is'' ErrTimeout))"
  by pat_completeness auto
termination
  by (relation "measure (\<lambda>(rounds, addr, retries, attempt). retries + 1 - attempt)") auto

declare whoIsLoop.simps [simp del]

definition WhoIs :: "resolver \<Rightarrow> (UDPAddr \<Rightarrow> nat \<Rightarrow> whoIsRound) \<Rightarrow> nat \<Rightarrow> string \<Rightarrow> IAm result" where
  "WhoIs resolve rounds retries hostPort =
    res_bind (resolveDeviceAddr resolve hostPort) (\<lambda>addr. whoIsLoop (rounds addr) addr retries 0)"

text \<open>\<open>cancelled\<close> is \<^verbatim>\<open>ctx.Err() != nil\<close> after the Who-Is, \<open>read\<close> the read of the wildcard device.\<close>

definition wildcardDevice :: ObjectIdentifier where
  "wildcardDevice = \<lparr>Type = ObjectDevice, Instance = DeviceInstanceWildcard\<rparr>"

definition DeviceInstance ::
  "IAm result \<Rightarrow> bool \<Rightarrow> (ObjectIdentifier \<Rightarrow> PropertyIdentifier \<Rightarrow> u32 option \<Rightarrow> Value list result) \<Rightarrow> u32 result"
where
  "DeviceInstance whoIs cancelled read =
    (case whoIs of
       Ok iam \<Rightarrow> Ok (Instance (Device iam))
     | Panic \<Rightarrow> Panic
     | Err whoIsErr \<Rightarrow>
         if cancelled then Err whoIsErr
         else case read wildcardDevice PropObjectID None of
           Panic \<Rightarrow> Panic
         | Err e \<Rightarrow> Err (WrapBoth whoIsErr e)
         | Ok values \<Rightarrow>
             (case values of
                [ObjectIDValue oid] \<Rightarrow>
                  if Type oid = ObjectDevice then Ok (Instance oid)
                  else Err (UnexpectedDeviceObjectID whoIsErr)
              | _ \<Rightarrow> Err (UnexpectedDeviceObjectID whoIsErr)))"

lemma firstFrom_Some:
  "firstFrom addr evs = Some iam \<Longrightarrow> \<exists>ev \<in> set evs. EvIAm ev = iam \<and> IPEqual (EvFrom ev) (AddrIP addr)"
  by (induction evs) (auto split: if_splits)

lemma whoIsLoop_safe [safe_intros]: "safe (whoIsLoop rounds addr retries k)"
proof (induction rounds addr retries k rule: whoIsLoop.induct)
  case (1 rounds addr retries k)
  then show ?case by (subst whoIsLoop.simps) (auto split: whoIsRound.split option.split)
qed

lemma whoIsLoop_Ok:
  assumes "whoIsLoop rounds addr retries k = Ok iam"
  shows "\<exists>j evs ev. k \<le> j \<and> j \<le> retries \<and> (rounds j = RoundDeadline evs \<or> rounds j = RoundCancelled evs)
    \<and> ev \<in> set evs \<and> EvIAm ev = iam \<and> IPEqual (EvFrom ev) (AddrIP addr)"
  using assms
proof (induction rounds addr retries k rule: whoIsLoop.induct)
  case (1 rounds addr retries k)
  from 1(2) have k: "k \<le> retries" by (subst (asm) whoIsLoop.simps) (simp split: if_splits)
  note eq = 1(2) [unfolded whoIsLoop.simps [of rounds addr retries k] if_P [OF k]]
  have found: ?case if "firstFrom addr evs = Some iam"
    and "rounds k = RoundDeadline evs \<or> rounds k = RoundCancelled evs" for evs
    using that k firstFrom_Some by blast
  show ?case
  proof (cases "rounds k")
    case RoundSendFails
    with eq show ?thesis by simp
  next
    case (RoundDeadline evs)
    show ?thesis
    proof (cases "firstFrom addr evs")
      case None
      with eq RoundDeadline have "whoIsLoop rounds addr retries (k + 1) = Ok iam" by simp
      from 1(1) [OF k RoundDeadline None this] obtain j evs' ev where
        "k + 1 \<le> j" "j \<le> retries" "rounds j = RoundDeadline evs' \<or> rounds j = RoundCancelled evs'"
        "ev \<in> set evs'" "EvIAm ev = iam" "IPEqual (EvFrom ev) (AddrIP addr)" by blast
      then show ?thesis by (intro exI [of _ j] exI [of _ evs'] exI [of _ ev]) simp
    next
      case (Some found_iam)
      with eq RoundDeadline found show ?thesis by simp
    qed
  next
    case (RoundCancelled evs)
    with eq found show ?thesis by (simp split: option.splits)
  qed
qed

lemma DeviceInstance_safe:
  "safe whoIs \<Longrightarrow> (\<And>obj p i. safe (read obj p i)) \<Longrightarrow> safe (DeviceInstance whoIs cancelled read)"
  by (auto simp: DeviceInstance_def safe_def split: res.split list.split Value.split)

end
