(* ===== verification/Bacnet_EndToEnd.thy ===== *)
theory Bacnet_EndToEnd
  imports Mock_Server Bacnet_Requests
begin

text \<open>
  The client (\<^verbatim>\<open>internal/bacnet/client.go\<close>) against the device (\<^verbatim>\<open>internal/bacnetmock\<close>),
  over the wire format both use: what the client's operations return is what the device's object
  store says. One exchange registers the request, gives the packet to the device and the answer
  to the client's receive loop, and takes the reply from the request's channel.
\<close>

definition exchange ::
  "Device \<Rightarrow> Client \<Rightarrow> chan \<Rightarrow> UDPAddr \<Rightarrow> byte \<Rightarrow> byte list \<Rightarrow> (Device \<times> APDU option) result" where
  "exchange d c ch addr service params =
    (case registerRequest c ch addr service of
       (c', Ok i) \<Rightarrow>
         res_bind (handlePacket False d (EncodeUnicastPacket (EncodeConfirmedRequestAPDU i service params)))
           (\<lambda>(d', reply).
             case reply of
               None \<Rightarrow> Ok (d', None)
             | Some pkt \<Rightarrow> res_bind (handleIncoming c' pkt addr) (\<lambda>c''. Ok (d', replies c'' ch)))
     | (_, Err e) \<Rightarrow> Err e
     | (_, Panic) \<Rightarrow> Panic)"

text \<open>The exchange as the client's \<^verbatim>\<open>doConfirmedRequest\<close>: without an answer it times out.\<close>

definition deviceRequest :: "Device \<Rightarrow> Client \<Rightarrow> chan \<Rightarrow> requester" where
  "deviceRequest d c ch addr service params =
    res_bind (exchange d c ch addr service params) (\<lambda>(d', reply).
    case reply of Some apdu \<Rightarrow> Ok apdu | None \<Rightarrow> Err (Wrap ''request'' ErrTimeout))"

lemma registerRequest_ok:
  assumes "pending c j = None"
  obtains c' i where "registerRequest c ch addr s = (c', Ok i)"
    "pending c' i = Some \<lparr>ReqTo = addr, ReqService = s, ReqCh = ch\<rparr>" "replies c' ch = None"
proof -
  obtain n i where "findInvokeID 256 (pending c) (nextID c) = (n, Some i)"
    using findInvokeID_complete [of "pending c" "nextID c"] assms
    by (cases "findInvokeID 256 (pending c) (nextID c)") (metis not_Some_eq)
  then show thesis using that by (simp add: registerRequest_def)
qed

text \<open>The device sees the request the client sent.\<close>

lemma handlePacket_request:
  assumes "length params < 65500"
  shows "handlePacket ign d (EncodeUnicastPacket (EncodeConfirmedRequestAPDU i s params))
    = handleConfirmed d ((newAPDU PDUConfirmedRequest)\<lparr>InvokeID := i, ServiceChoice := s, Params := params\<rparr>)"
proof -
  have "DecodeIncomingPacket (EncodeUnicastPacket (EncodeConfirmedRequestAPDU i s params))
      = Ok ((newAPDU PDUConfirmedRequest)\<lparr>InvokeID := i, ServiceChoice := s, Params := params\<rparr>)"
    using assms by (subst DecodeIncomingPacket_roundtrip)
      (simp_all add: DecodeAPDU_roundtrip, simp_all add: EncodeConfirmedRequestAPDU_def)
  then show ?thesis
    by (simp add: handlePacket_def dropErr_def newAPDU_def PDU_defs)
qed

text \<open>The client takes the answer as the reply to its request.\<close>

lemma exchange_answer:
  assumes free: "pending c j = None" and "length params < 65500"
    and device: "\<And>i. handleConfirmed d ((newAPDU PDUConfirmedRequest)\<lparr>InvokeID := i, ServiceChoice := s, Params := params\<rparr>)
      = Ok (d', Some (EncodeUnicastPacket (rep i)))"
    and rep: "\<And>i. rep i \<noteq> []" "\<And>i. length (rep i) < 65530" "\<And>i. DecodeAPDU (rep i) = Ok (apdu i)"
    and reply: "\<And>i. replyType (PduType (apdu i)) \<and> InvokeID (apdu i) = i
      \<and> (PduType (apdu i) = PDUReject \<or> PduType (apdu i) = PDUAbort \<or> ServiceChoice (apdu i) = s)"
  obtains i where "exchange d c ch addr s params = Ok (d', Some (apdu i))"
proof -
  obtain c' i where c': "registerRequest c ch addr s = (c', Ok i)"
    "pending c' i = Some \<lparr>ReqTo = addr, ReqService = s, ReqCh = ch\<rparr>" "replies c' ch = None"
    using free by (rule registerRequest_ok)
  have "DecodeIncomingPacket (EncodeUnicastPacket (rep i)) = Ok (apdu i)"
    using DecodeIncomingPacket_roundtrip [OF rep(1,2)] rep(3) by simp
  then have "handleIncoming c' (EncodeUnicastPacket (rep i)) addr = Ok (deliverReply c' ch (apdu i))"
    using handleIncoming_delivers [of _ "apdu i" c' "\<lparr>ReqTo = addr, ReqService = s, ReqCh = ch\<rparr>" addr]
      c'(2) reply [of i] by (simp add: answers_def)
  then have "exchange d c ch addr s params = Ok (d', Some (apdu i))"
    using c' device [of i]
    by (simp add: exchange_def handlePacket_request [OF assms(2)] deliverReply_def)
  then show thesis by (rule that)
qed

lemma replyType_simps [simp]:
  "replyType PDUSimpleACK" "replyType PDUComplexACK" "replyType PDUError" "replyType PDUReject" "replyType PDUAbort"
  by (simp_all add: replyType_def)

lemma apdu_fields [simp]:
  "PduType (newAPDU t) = t" by (simp add: newAPDU_def)

section \<open>Reading a property\<close>

definition ackOf :: "ReadPropertyRequest \<Rightarrow> Value list \<Rightarrow> ReadPropertyACK" where
  "ackOf r vs = \<lparr>Property = Property r, ArrayIndex = ArrayIndex r, Object = Object r, Values = vs\<rparr>"

text \<open>
  What the client should return: the values, the device's error, or, when the reply does not fit
  one APDU, the abort.
\<close>

definition readOutcome :: "Device \<Rightarrow> ReadPropertyRequest \<Rightarrow> Value list result" where
  "readOutcome d r =
    (case readProperty d (Type (Object r)) (Instance (Object r)) (Property r) (ArrayIndex r) of
       Ok vs \<Rightarrow>
         if 3 + length (ackBytes (ackOf r vs)) > maxAPDU then Err (AbortErr AbortReasonSegmentationNotSupported)
         else Ok vs
     | Err e \<Rightarrow> Err (BACnetErr e)
     | Panic \<Rightarrow> Panic)"

definition wireStore :: "Device \<Rightarrow> bool" where
  "wireStore d \<longleftrightarrow> (\<forall>t i prop idx vs. readProperty d t i prop idx = Ok vs \<longrightarrow> list_all (wireValue maxNesting) vs)"

lemma readProperty_end_to_end:
  assumes free: "pending c j = None" and obj: "wireObject (Object r)" and store: "wireStore d"
    and addr: "resolveDeviceAddr resolve host = Ok addr"
  shows "ReadProperty resolve (deviceRequest d c ch) host (Object r) (Property r) (ArrayIndex r) = readOutcome d r"
proof -
  have r: "\<lparr>Property = Property r, ArrayIndex = ArrayIndex r, Object = Object r\<rparr> = r" by (cases r) simp
  have params: "EncodeReadPropertyRequest \<lparr>Property = Property r, ArrayIndex = ArrayIndex r, Object = Object r\<rparr>
      = Ok (targetBytes r)" by (simp only: r EncodeReadPropertyRequest_eq)
  have len: "length (targetBytes r) < 65500" using targetBytes_length [of r] by simp
  let ?s = ServiceConfirmedReadProperty
  let ?req = "\<lambda>i. (newAPDU PDUConfirmedRequest)\<lparr>InvokeID := i, ServiceChoice := ?s, Params := targetBytes r\<rparr>"
  let ?read = "readProperty d (Type (Object r)) (Instance (Object r)) (Property r) (ArrayIndex r)"
  have handle: "handleConfirmed d (?req i) = Ok (d, Some (EncodeUnicastPacket
      (case ?read of Ok vs \<Rightarrow> complexReply (?req i) (ackBytes (ackOf r vs)) | Err e \<Rightarrow> errorAPDU i ?s e | Panic \<Rightarrow> [])))" for i
    unfolding ackOf_def
    using handleReadProperty_eq [OF obj, where d = d and i = i and s = ?s] by (simp add: handleConfirmed_def)
  have run: "ReadProperty resolve (deviceRequest d c ch) host (Object r) (Property r) (ArrayIndex r) =
      (if PduType apdu \<noteq> PDUComplexACK then serviceError apdu PDUComplexACK
       else res_bind (DecodeReadPropertyACK (Params apdu)) (\<lambda>ack. Ok (Values ack)))"
    if "exchange d c ch addr ?s (targetBytes r) = Ok (d, Some apdu)" for apdu
    using that by (simp add: ReadProperty_def addr params deviceRequest_def)
  show ?thesis
  proof (cases ?read)
    case (Err e)
    obtain i where "exchange d c ch addr ?s (targetBytes r)
        = Ok (d, Some ((newAPDU PDUError)\<lparr>InvokeID := i, ServiceChoice := ?s, Params := errorBytes e\<rparr>))"
      by (rule exchange_answer [OF free len, where rep = "\<lambda>i. errorAPDU i ?s e", of d ?s])
        (use handle Err errorBytes_length [of e] in \<open>simp_all add: DecodeAPDU_error, simp_all add: errorAPDU_def\<close>)
    from run [OF this] Err show ?thesis
      by (simp add: serviceError_def readOutcome_def DecodeBACnetError_roundtrip PDU_defs)
  next
    case (Ok vs)
    let ?ack = "ackBytes (ackOf r vs)"
    show ?thesis
    proof (cases "3 + length ?ack > maxAPDU")
      case True
      obtain i where "exchange d c ch addr ?s (targetBytes r)
          = Ok (d, Some ((newAPDU PDUAbort)\<lparr>InvokeID := i, AbortReason := AbortReasonSegmentationNotSupported\<rparr>))"
        by (rule exchange_answer [OF free len,
              where rep = "\<lambda>i. EncodeAbortAPDU i AbortReasonSegmentationNotSupported", of d ?s])
          (use handle Ok True in \<open>simp_all add: DecodeAPDU_roundtrip complexReply_def Let_def
            EncodeComplexACKAPDU_def, simp_all add: EncodeAbortAPDU_def\<close>)
      from run [OF this] Ok True show ?thesis by (simp add: serviceError_def readOutcome_def PDU_defs)
    next
      case False
      then have reply: "complexReply (?req i) ?ack = EncodeComplexACKAPDU i ?s ?ack" for i
        by (simp add: complexReply_def Let_def EncodeComplexACKAPDU_def)
      have size: "EncodeComplexACKAPDU i ?s ?ack \<noteq> []" "length (EncodeComplexACKAPDU i ?s ?ack) < 65530" for i
        using False by (simp_all add: EncodeComplexACKAPDU_def maxAPDU_def)
      obtain i where "exchange d c ch addr ?s (targetBytes r)
          = Ok (d, Some ((newAPDU PDUComplexACK)\<lparr>InvokeID := i, ServiceChoice := ?s, Params := ?ack\<rparr>))"
        by (rule exchange_answer [OF free len, where rep = "\<lambda>i. EncodeComplexACKAPDU i ?s ?ack", of d ?s])
          (use handle Ok reply size in \<open>simp_all add: DecodeAPDU_roundtrip, simp_all\<close>)
      moreover have "DecodeReadPropertyACK ?ack = Ok (ackOf r vs)"
      proof (rule DecodeReadPropertyACK_roundtrip)
        show "wireACK (ackOf r vs)" using obj store Ok by (auto simp: wireACK_def ackOf_def wireStore_def)
        show "fits ?ack" using False by (simp add: fits_def maxAPDU_def)
      qed
      ultimately show ?thesis using run Ok False by (simp add: readOutcome_def ackOf_def)
    qed
  next
    case Panic
    then show ?thesis using readProperty_safe by (metis safe_simps(3))
  qed
qed

section \<open>Writing a property\<close>

lemma handleWriteProperty_eq:
  assumes "wireObject (Object w)" and "wirePrimitive (WriteValue w)" and "fits (writeBytes w)"
  shows "handleConfirmed d ((newAPDU PDUConfirmedRequest)\<lparr>InvokeID := i,
      ServiceChoice := ServiceConfirmedWriteProperty, Params := writeBytes w\<rparr>)
    = (case writeProperty d (Type (Object w)) (Instance (Object w)) (Property w) (WriteValue w) (Priority w) of
         (d', e) \<Rightarrow> Ok (d', Some (EncodeUnicastPacket
           (case e of Some err \<Rightarrow> errorAPDU i ServiceConfirmedWriteProperty err
            | None \<Rightarrow> EncodeSimpleACKAPDU i ServiceConfirmedWriteProperty))))"
  using DecodeWritePropertyRequest_roundtrip [OF assms]
  by (auto simp: handleConfirmed_def handleWriteProperty_def dropErr_def sendError_def EncodeErrorAPDU_eq
      Service_defs split: prod.split option.split)

text \<open>A write is sent without an array index, so that is what the device is asked to do.\<close>

lemma writeProperty_end_to_end:
  assumes free: "pending c j = None" and obj: "wireObject obj" and v: "wirePrimitive v"
    and addr: "resolveDeviceAddr resolve host = Ok addr"
    and small: "length (writeBytes \<lparr>Property = prop, ArrayIndex = None, Object = obj, WriteValue = v, Priority = prio\<rparr>) < 65500"
    and w: "writeProperty d (Type obj) (Instance obj) prop v prio = (d', e)"
  shows "WriteProperty resolve (deviceRequest d c ch) host obj prop v prio
      = (case e of None \<Rightarrow> Ok () | Some err \<Rightarrow> Err (BACnetErr err))"
    and "\<exists>reply. exchange d c ch addr ServiceConfirmedWriteProperty
      (writeBytes \<lparr>Property = prop, ArrayIndex = None, Object = obj, WriteValue = v, Priority = prio\<rparr>) = Ok (d', reply)"
proof -
  let ?w = "\<lparr>Property = prop, ArrayIndex = None, Object = obj, WriteValue = v, Priority = prio\<rparr>"
  let ?s = ServiceConfirmedWriteProperty
  have "fits (writeBytes ?w)" using small by (simp add: fits_def)
  then have handle: "handleConfirmed d ((newAPDU PDUConfirmedRequest)\<lparr>InvokeID := i, ServiceChoice := ?s, Params := writeBytes ?w\<rparr>)
      = Ok (d', Some (EncodeUnicastPacket (case e of Some err \<Rightarrow> errorAPDU i ?s err | None \<Rightarrow> EncodeSimpleACKAPDU i ?s)))" for i
    using handleWriteProperty_eq [of ?w d i] obj v w by simp
  have run: "WriteProperty resolve (deviceRequest d c ch) host obj prop v prio =
      (if PduType apdu \<noteq> PDUSimpleACK then serviceError apdu PDUSimpleACK else Ok ())"
    if "exchange d c ch addr ?s (writeBytes ?w) = Ok (d', Some apdu)" for apdu
    using that by (simp add: WriteProperty_def addr EncodeWritePropertyRequest_eq deviceRequest_def)
  have "WriteProperty resolve (deviceRequest d c ch) host obj prop v prio
      = (case e of None \<Rightarrow> Ok () | Some err \<Rightarrow> Err (BACnetErr err))
    \<and> (\<exists>reply. exchange d c ch addr ?s (writeBytes ?w) = Ok (d', reply))"
  proof (cases e)
    case None
    obtain i where ex: "exchange d c ch addr ?s (writeBytes ?w)
        = Ok (d', Some ((newAPDU PDUSimpleACK)\<lparr>InvokeID := i, ServiceChoice := ?s\<rparr>))"
      by (rule exchange_answer [OF free small, where rep = "\<lambda>i. EncodeSimpleACKAPDU i ?s", of d ?s d'])
        (use handle None in \<open>simp_all add: DecodeAPDU_roundtrip, simp_all add: EncodeSimpleACKAPDU_def\<close>)
    from run [OF ex] None ex show ?thesis by auto
  next
    case (Some err)
    obtain i where ex: "exchange d c ch addr ?s (writeBytes ?w)
        = Ok (d', Some ((newAPDU PDUError)\<lparr>InvokeID := i, ServiceChoice := ?s, Params := errorBytes err\<rparr>))"
      by (rule exchange_answer [OF free small, where rep = "\<lambda>i. errorAPDU i ?s err", of d ?s d'])
        (use handle Some errorBytes_length [of err] in \<open>simp_all add: DecodeAPDU_error, simp_all add: errorAPDU_def\<close>)
    from run [OF ex] Some ex show ?thesis
      by (auto simp: serviceError_def DecodeBACnetError_roundtrip PDU_defs)
  qed
  then show "WriteProperty resolve (deviceRequest d c ch) host obj prop v prio
      = (case e of None \<Rightarrow> Ok () | Some err \<Rightarrow> Err (BACnetErr err))"
    and "\<exists>reply. exchange d c ch addr ?s (writeBytes ?w) = Ok (d', reply)" by auto
qed

end
