(* ===== verification/Bacnet_Concurrency.thy ===== *)
theory Bacnet_Concurrency
  imports Bacnet_Requests
begin

text \<open>
  Many requests at once on one client (\<^verbatim>\<open>internal/bacnet/client.go\<close>): a step relation in which
  every critical section, send, channel operation, timeout and received packet is one step. Its
  invariant says that outstanding requests hold distinct invoke IDs and that a request only ever
  takes a reply to itself, received after it was registered.
\<close>

section \<open>Requests\<close>

text \<open>
  The program counter of \<^verbatim>\<open>doConfirmedRequest\<close>: about to send in an attempt, in the select,
  returned from the loop with its deferred release still to run, and returned.
\<close>

datatype phase =
    Sending nat
  | Waiting nat
  | Leaving "APDU result"
  | Done "APDU result"

record Req =
  rAddr :: UDPAddr
  rService :: byte
  rInvoke :: byte
  rSince :: nat
  rPhase :: phase

text \<open>
  The client, its requests (each with the reply channel of its own number) and the packets the
  receive loop has taken from the socket, oldest first.
\<close>

record Sys =
  cl :: Client
  reqs :: "nat \<rightharpoonup> Req"
  arrived :: "(byte list \<times> UDPAddr) list"

definition initSys :: Sys where
  "initSys = \<lparr>cl = newClient, reqs = Map.empty, arrived = []\<rparr>"

definition setPhase :: "Sys \<Rightarrow> nat \<Rightarrow> Req \<Rightarrow> phase \<Rightarrow> Sys" where
  "setPhase s r q p = s\<lparr>reqs := (reqs s)(r \<mapsto> q\<lparr>rPhase := p\<rparr>)\<rparr>"

definition takeReply :: "Client \<Rightarrow> nat \<Rightarrow> Client" where
  "takeReply c r = c\<lparr>replies := (replies c)(r := None)\<rparr>"

inductive step :: "nat \<Rightarrow> Sys \<Rightarrow> Sys \<Rightarrow> bool" for retries :: nat where
  register: "reqs s r = None \<Longrightarrow> registerRequest (cl s) r addr svc = (c', Ok i) \<Longrightarrow>
    step retries s (s\<lparr>cl := c', reqs := (reqs s)(r \<mapsto>
      \<lparr>rAddr = addr, rService = svc, rInvoke = i, rSince = length (arrived s), rPhase = Sending 0\<rparr>)\<rparr>)"
| refused: "reqs s r = None \<Longrightarrow> registerRequest (cl s) r addr svc = (c', Err e) \<Longrightarrow>
    step retries s (s\<lparr>cl := c'\<rparr>)"
| sent: "reqs s r = Some q \<Longrightarrow> rPhase q = Sending a \<Longrightarrow> step retries s (setPhase s r q (Waiting a))"
| send_failed: "reqs s r = Some q \<Longrightarrow> rPhase q = Sending a \<Longrightarrow>
    step retries s (setPhase s r q (Leaving (Err (Wrap ''bacnet: send'' SystemError))))"
| took: "reqs s r = Some q \<Longrightarrow> rPhase q = Waiting a \<Longrightarrow> replies (cl s) r = Some apdu \<Longrightarrow>
    step retries s (setPhase (s\<lparr>cl := takeReply (cl s) r\<rparr>) r q (Leaving (Ok apdu)))"
| timed_out: "reqs s r = Some q \<Longrightarrow> rPhase q = Waiting a \<Longrightarrow>
    step retries s (setPhase s r q
      (if a + 1 \<le> retries then Sending (a + 1) else Leaving (Err (Wrap ''request'' ErrTimeout))))"
| cancelled: "reqs s r = Some q \<Longrightarrow> rPhase q = Waiting a \<Longrightarrow>
    step retries s (setPhase s r q (Leaving (Err ContextError)))"
| released: "reqs s r = Some q \<Longrightarrow> rPhase q = Leaving res \<Longrightarrow>
    step retries s (setPhase (s\<lparr>cl := releaseRequest (cl s) (rInvoke q)\<rparr>) r q (Done res))"
| received: "handleIncoming (cl s) pkt from = Ok c' \<Longrightarrow>
    step retries s (s\<lparr>cl := c', arrived := arrived s @ [(pkt, from)]\<rparr>)"

inductive reachable :: "nat \<Rightarrow> Sys \<Rightarrow> bool" for retries :: nat where
  start: "reachable retries initSys"
| continue: "reachable retries s \<Longrightarrow> step retries s s' \<Longrightarrow> reachable retries s'"

section \<open>The invariant\<close>

definition entryOf :: "nat \<Rightarrow> Req \<Rightarrow> pendingRequest" where
  "entryOf r q = \<lparr>ReqTo = rAddr q, ReqService = rService q, ReqCh = r\<rparr>"

definition holdsID :: "Req \<Rightarrow> bool" where
  "holdsID q \<longleftrightarrow> (case rPhase q of Done _ \<Rightarrow> False | _ \<Rightarrow> True)"

text \<open>A reply that request \<open>r\<close> may take: it answers the request and arrived after it was registered.\<close>

definition ownReply :: "Sys \<Rightarrow> nat \<Rightarrow> Req \<Rightarrow> APDU \<Rightarrow> bool" where
  "ownReply s r q apdu \<longleftrightarrow>
    (\<exists>pkt from. (pkt, from) \<in> set (drop (rSince q) (arrived s)) \<and> DecodeIncomingPacket pkt = Ok apdu
      \<and> answers apdu from (rInvoke q) (entryOf r q))"

definition phaseOk :: "nat \<Rightarrow> phase \<Rightarrow> bool" where
  "phaseOk retries p \<longleftrightarrow> (case p of
     Sending a \<Rightarrow> a \<le> retries
   | Waiting a \<Rightarrow> a \<le> retries
   | Leaving _ \<Rightarrow> True
   | Done _ \<Rightarrow> True)"

definition resultIs :: "phase \<Rightarrow> APDU \<Rightarrow> bool" where
  "resultIs p apdu \<longleftrightarrow> p = Leaving (Ok apdu) \<or> p = Done (Ok apdu)"

text \<open>The five parts of the invariant.\<close>

definition tableOk :: "Sys \<Rightarrow> bool" where
  "tableOk s \<longleftrightarrow> (\<forall>i p. pending (cl s) i = Some p \<longrightarrow>
     (\<exists>r q. reqs s r = Some q \<and> holdsID q \<and> rInvoke q = i \<and> p = entryOf r q))"

definition heldOk :: "Sys \<Rightarrow> bool" where
  "heldOk s \<longleftrightarrow> (\<forall>r q. reqs s r = Some q \<longrightarrow> holdsID q \<longrightarrow> pending (cl s) (rInvoke q) = Some (entryOf r q))"

definition repliesOk :: "Sys \<Rightarrow> bool" where
  "repliesOk s \<longleftrightarrow> (\<forall>r apdu. replies (cl s) r = Some apdu \<longrightarrow> (\<exists>q. reqs s r = Some q \<and> ownReply s r q apdu))"

definition resultsOk :: "Sys \<Rightarrow> bool" where
  "resultsOk s \<longleftrightarrow> (\<forall>r q apdu. reqs s r = Some q \<longrightarrow> resultIs (rPhase q) apdu \<longrightarrow> ownReply s r q apdu)"

definition phasesOk :: "nat \<Rightarrow> Sys \<Rightarrow> bool" where
  "phasesOk retries s \<longleftrightarrow>
    (\<forall>r q. reqs s r = Some q \<longrightarrow> phaseOk retries (rPhase q) \<and> rSince q \<le> length (arrived s))"

definition inv :: "nat \<Rightarrow> Sys \<Rightarrow> bool" where
  "inv retries s \<longleftrightarrow> tableOk s \<and> heldOk s \<and> repliesOk s \<and> resultsOk s \<and> phasesOk retries s"

named_theorems sys_simps \<open>how a step changes the parts of the state\<close>

lemma setPhase_simps [sys_simps]:
  "cl (setPhase s r q p) = cl s" "arrived (setPhase s r q p) = arrived s"
  "reqs (setPhase s r q p) = (reqs s)(r \<mapsto> q\<lparr>rPhase := p\<rparr>)"
  by (simp_all add: setPhase_def)

lemma client_simps [sys_simps]:
  "pending (takeReply c r) = pending c" "replies (takeReply c r) = (replies c)(r := None)"
  "pending (releaseRequest c i) = (pending c)(i := None)" "replies (releaseRequest c i) = replies c"
  by (simp_all add: takeReply_def releaseRequest_def)

lemma entryOf_phase [sys_simps]: "entryOf r (q\<lparr>rPhase := p\<rparr>) = entryOf r q"
  by (simp add: entryOf_def)

lemma holdsID_phase [sys_simps]:
  "holdsID (q\<lparr>rPhase := Sending a\<rparr>)" "holdsID (q\<lparr>rPhase := Waiting a\<rparr>)"
  "holdsID (q\<lparr>rPhase := Leaving res\<rparr>)" "\<not> holdsID (q\<lparr>rPhase := Done res\<rparr>)"
  by (simp_all add: holdsID_def)

lemma holdsID_intro:
  "rPhase q = Sending a \<Longrightarrow> holdsID q" "rPhase q = Waiting a \<Longrightarrow> holdsID q" "rPhase q = Leaving res \<Longrightarrow> holdsID q"
  by (simp_all add: holdsID_def)

lemma ownReply_phase [sys_simps]: "ownReply s r (q\<lparr>rPhase := p\<rparr>) apdu = ownReply s r q apdu"
  by (simp add: ownReply_def entryOf_def)

lemma ownReply_arrived:
  "arrived s' = arrived s \<Longrightarrow> ownReply s' r q apdu = ownReply s r q apdu"
  by (simp add: ownReply_def)

lemma ownReply_more:
  assumes "ownReply s r q apdu" and "arrived s' = arrived s @ xs"
  shows "ownReply s' r q apdu"
  using assms by (auto simp: ownReply_def)

text \<open>A step that only moves one request on, keeping its hold on its ID, keeps the table in order.\<close>

lemma move_table:
  assumes "tableOk s" "heldOk s" "reqs s r = Some q" "holdsID q" "holdsID (q\<lparr>rPhase := p\<rparr>)"
    and "cl s' = c'" "pending c' = pending (cl s)" "reqs s' = (reqs s)(r \<mapsto> q\<lparr>rPhase := p\<rparr>)"
  shows "tableOk s' \<and> heldOk s'"
proof
  show "tableOk s'"
    unfolding tableOk_def assms(6-8)
  proof (intro allI impI)
    fix i e assume "pending (cl s) i = Some e"
    then obtain r' q' where "reqs s r' = Some q'" "holdsID q'" "rInvoke q' = i" "e = entryOf r' q'"
      using assms(1) unfolding tableOk_def by blast
    then show "\<exists>r' q'. ((reqs s)(r \<mapsto> q\<lparr>rPhase := p\<rparr>)) r' = Some q' \<and> holdsID q' \<and> rInvoke q' = i \<and> e = entryOf r' q'"
      using assms(3,5) by (cases "r' = r") (auto simp: sys_simps)
  qed
  show "heldOk s'"
    using assms(2-4) unfolding heldOk_def assms(6-8) by (auto simp: sys_simps)
qed

lemma move_results:
  assumes "resultsOk s" "reqs s' = (reqs s)(r \<mapsto> q\<lparr>rPhase := p\<rparr>)" "arrived s' = arrived s"
    and "\<And>apdu. resultIs p apdu \<Longrightarrow> ownReply s r q apdu"
  shows "resultsOk s'"
  using assms(1,4) unfolding resultsOk_def assms(2)
  by (auto simp: sys_simps ownReply_arrived [OF assms(3)])

lemma move_replies:
  assumes "repliesOk s" "reqs s r = Some q" "reqs s' = (reqs s)(r \<mapsto> q\<lparr>rPhase := p\<rparr>)"
    and "arrived s' = arrived s" "\<And>k apdu. replies (cl s') k = Some apdu \<Longrightarrow> replies (cl s) k = Some apdu"
  shows "repliesOk s'"
  unfolding repliesOk_def assms(3)
proof (intro allI impI)
  fix k apdu assume "replies (cl s') k = Some apdu"
  with assms(1,5) obtain q' where q': "reqs s k = Some q'" "ownReply s k q' apdu"
    unfolding repliesOk_def by blast
  then show "\<exists>q'. ((reqs s)(r \<mapsto> q\<lparr>rPhase := p\<rparr>)) k = Some q' \<and> ownReply s' k q' apdu"
    using assms(2) by (cases "k = r") (auto simp: sys_simps ownReply_arrived [OF assms(4)])
qed

lemma move_phases:
  assumes "phasesOk retries s" "reqs s r = Some q" "reqs s' = (reqs s)(r \<mapsto> q\<lparr>rPhase := p\<rparr>)"
    and "arrived s' = arrived s" "phaseOk retries p"
  shows "phasesOk retries s'"
  using assms(1,2,5) unfolding phasesOk_def assms(3,4) by auto

lemma move_inv:
  assumes inv: "inv retries s" and q: "reqs s r = Some q" "holdsID q" "holdsID (q\<lparr>rPhase := p\<rparr>)"
    and s': "reqs s' = (reqs s)(r \<mapsto> q\<lparr>rPhase := p\<rparr>)" "arrived s' = arrived s" "pending (cl s') = pending (cl s)"
    and "\<And>k apdu. replies (cl s') k = Some apdu \<Longrightarrow> replies (cl s) k = Some apdu"
    and "phaseOk retries p" and "\<And>apdu. resultIs p apdu \<Longrightarrow> ownReply s r q apdu"
  shows "inv retries s'"
  using assms move_table [of s r q p s' "cl s'"] move_results [of s s' r p q]
    move_replies [of s r q s' p] move_phases [of retries s r q s' p]
  by (simp add: inv_def)

lemma phaseOk_ends [simp]: "phaseOk retries (Leaving res)" "phaseOk retries (Done res)"
  by (simp_all add: phaseOk_def)

lemma inv_init: "inv retries initSys"
  by (simp add: inv_def tableOk_def heldOk_def repliesOk_def resultsOk_def phasesOk_def initSys_def newClient_def)

lemma inv_phase:
  "inv retries s \<Longrightarrow> reqs s r = Some q \<Longrightarrow> phaseOk retries (rPhase q) \<and> rSince q \<le> length (arrived s)"
  by (simp add: inv_def phasesOk_def)

lemma inv_held:
  "inv retries s \<Longrightarrow> reqs s r = Some q \<Longrightarrow> holdsID q \<Longrightarrow> pending (cl s) (rInvoke q) = Some (entryOf r q)"
  by (simp add: inv_def heldOk_def)

lemma inv_reply:
  assumes "inv retries s" and "replies (cl s) r = Some apdu"
  obtains q where "reqs s r = Some q" and "ownReply s r q apdu"
  using assms unfolding inv_def repliesOk_def by blast

lemma inv_result:
  "inv retries s \<Longrightarrow> reqs s r = Some q \<Longrightarrow> resultIs (rPhase q) apdu \<Longrightarrow> ownReply s r q apdu"
  by (simp add: inv_def resultsOk_def)

lemma inv_register:
  assumes "inv retries s" and r: "reqs s r = None" and reg: "registerRequest (cl s) r addr svc = (c', Ok i)"
  shows "inv retries (s\<lparr>cl := c', reqs := (reqs s)(r \<mapsto>
    \<lparr>rAddr = addr, rService = svc, rInvoke = i, rSince = length (arrived s), rPhase = Sending 0\<rparr>)\<rparr>)"
    (is "inv retries ?s'")
proof -
  let ?q = "\<lparr>rAddr = addr, rService = svc, rInvoke = i, rSince = length (arrived s), rPhase = Sending 0\<rparr>"
  from reg have i: "pending (cl s) i = None"
    and c': "pending c' = (pending (cl s))(i \<mapsto> entryOf r ?q)" "replies c' = (replies (cl s))(r := None)"
    by (auto simp: registerRequest_def entryOf_def split: prod.splits option.splits dest: findInvokeID_Some)
  have old: "k \<noteq> r" if "reqs s k = Some q" for k q using that r by auto
  have "tableOk ?s'"
    unfolding tableOk_def
  proof (intro allI impI)
    fix j p assume p: "pending (cl ?s') j = Some p"
    show "\<exists>k q. reqs ?s' k = Some q \<and> holdsID q \<and> rInvoke q = j \<and> p = entryOf k q"
    proof (cases "j = i")
      case True
      with p show ?thesis by (intro exI [of _ r] exI [of _ ?q]) (simp add: c' holdsID_def)
    next
      case False
      with p have "pending (cl s) j = Some p" by (simp add: c')
      then obtain k q where k: "reqs s k = Some q" "holdsID q" "rInvoke q = j" "p = entryOf k q"
        using assms(1) unfolding inv_def tableOk_def by blast
      then show ?thesis using old [OF k(1)] by (intro exI [of _ k] exI [of _ q]) simp
    qed
  qed
  moreover have "heldOk ?s'"
    unfolding heldOk_def
  proof (intro allI impI)
    fix k q assume k: "reqs ?s' k = Some q" and hold: "holdsID q"
    show "pending (cl ?s') (rInvoke q) = Some (entryOf k q)"
    proof (cases "k = r")
      case True
      with k show ?thesis by (auto simp: c')
    next
      case False
      with k have "reqs s k = Some q" by simp
      from inv_held [OF assms(1) this hold] i show ?thesis by (auto simp: c')
    qed
  qed
  moreover have "repliesOk ?s'"
    unfolding repliesOk_def
  proof (intro allI impI)
    fix k apdu assume k: "replies (cl ?s') k = Some apdu"
    then have "k \<noteq> r" "replies (cl s) k = Some apdu" by (auto simp: c' split: if_splits)
    from assms(1) this(2) obtain q where "reqs s k = Some q" "ownReply s k q apdu" by (rule inv_reply)
    with \<open>k \<noteq> r\<close> show "\<exists>q. reqs ?s' k = Some q \<and> ownReply ?s' k q apdu"
      by (auto simp: ownReply_def)
  qed
  moreover have "resultsOk ?s'"
    using assms(1) unfolding inv_def resultsOk_def by (auto simp: resultIs_def ownReply_def)
  moreover have "phasesOk retries ?s'"
    using assms(1) unfolding inv_def phasesOk_def by (auto simp: phaseOk_def)
  ultimately show ?thesis by (simp add: inv_def)
qed

lemma inv_released:
  assumes "inv retries s" and q: "reqs s r = Some q" "rPhase q = Leaving res"
  shows "inv retries (setPhase (s\<lparr>cl := releaseRequest (cl s) (rInvoke q)\<rparr>) r q (Done res))"
    (is "inv retries ?s'")
proof -
  have held: "pending (cl s) (rInvoke q) = Some (entryOf r q)"
    using inv_held [OF assms(1) q(1)] q(2) by (simp add: holdsID_def)
  have reqs': "reqs ?s' = (reqs s)(r \<mapsto> q\<lparr>rPhase := Done res\<rparr>)" by (simp add: sys_simps)
  have "tableOk ?s'"
    unfolding tableOk_def
  proof (intro allI impI)
    fix i p assume "pending (cl ?s') i = Some p"
    then have i: "i \<noteq> rInvoke q" "pending (cl s) i = Some p" by (auto simp: sys_simps split: if_splits)
    then obtain r' q' where r': "reqs s r' = Some q'" "holdsID q'" "rInvoke q' = i" "p = entryOf r' q'"
      using assms(1) unfolding inv_def tableOk_def by blast
    with i q have "r' \<noteq> r" by auto
    with r' show "\<exists>r q. reqs ?s' r = Some q \<and> holdsID q \<and> rInvoke q = i \<and> p = entryOf r q"
      by (auto simp: sys_simps)
  qed
  moreover have "heldOk ?s'"
    unfolding heldOk_def
  proof (intro allI impI)
    fix k q' assume k: "reqs ?s' k = Some q'" and hold: "holdsID q'"
    then have "k \<noteq> r" by (auto simp: sys_simps split: if_splits)
    with k have k': "reqs s k = Some q'" by (simp add: sys_simps)
    from inv_held [OF assms(1) this hold]
    have e: "pending (cl s) (rInvoke q') = Some (entryOf k q')" .
    with held \<open>k \<noteq> r\<close> have "rInvoke q' \<noteq> rInvoke q" by (auto simp: entryOf_def)
    with e show "pending (cl ?s') (rInvoke q') = Some (entryOf k q')" by (simp add: sys_simps)
  qed
  moreover have "repliesOk ?s'"
  proof (rule move_replies [where s = s and r = r and q = q and p = "Done res"])
  qed (use assms(1) q in \<open>simp_all add: inv_def sys_simps\<close>)
  moreover have "resultsOk ?s'"
  proof (rule move_results [where s = s and r = r and q = q and p = "Done res"])
    show "ownReply s r q apdu" if "resultIs (Done res) apdu" for apdu
      using that q by (intro inv_result [OF assms(1) q(1)]) (simp add: resultIs_def)
  qed (use assms(1) in \<open>simp_all add: inv_def sys_simps\<close>)
  moreover have "phasesOk retries ?s'"
  proof (rule move_phases [where s = s and r = r and q = q and p = "Done res"])
  qed (use assms(1) q in \<open>simp_all add: inv_def sys_simps\<close>)
  ultimately show ?thesis by (simp add: inv_def)
qed

lemma inv_received:
  assumes "inv retries s" and ok: "handleIncoming (cl s) pkt from = Ok c'"
  shows "inv retries (s\<lparr>cl := c', arrived := arrived s @ [(pkt, from)]\<rparr>)" (is "inv retries ?s'")
proof -
  have pend: "pending c' = pending (cl s)" using handleIncoming_frame [OF ok] by simp
  have more: "ownReply ?s' r q apdu" if "ownReply s r q apdu" for r q apdu
    using ownReply_more [OF that] by simp
  have "tableOk ?s'" "heldOk ?s'"
    using assms(1) by (simp_all add: inv_def tableOk_def heldOk_def pend)
  moreover have "resultsOk ?s'"
    using assms(1) more by (simp add: inv_def resultsOk_def)
  moreover have "phasesOk retries ?s'"
    using assms(1) by (auto simp: inv_def phasesOk_def intro: le_SucI)
  moreover have "repliesOk ?s'"
    unfolding repliesOk_def
  proof (intro allI impI)
    fix r apdu assume new: "replies (cl ?s') r = Some apdu"
    show "\<exists>q. reqs ?s' r = Some q \<and> ownReply ?s' r q apdu"
    proof (cases "replies c' r = replies (cl s) r")
      case True
      with new have "replies (cl s) r = Some apdu" by simp
      with assms(1) obtain q where "reqs s r = Some q" "ownReply s r q apdu" by (rule inv_reply)
      then show ?thesis using more by auto
    next
      case False
      from ok False obtain apdu' e where d: "DecodeIncomingPacket pkt = Ok apdu'"
        "pending (cl s) (InvokeID apdu') = Some e" "answers apdu' from (InvokeID apdu') e"
        "ReqCh e = r" "replies c' r = Some apdu'"
        by (rule handleIncoming_reply)
      with assms(1) obtain k q where q: "reqs s k = Some q" "rInvoke q = InvokeID apdu'" "e = entryOf k q"
        unfolding inv_def tableOk_def by blast
      with d have "k = r" by (simp add: entryOf_def)
      moreover have "rSince q \<le> length (arrived s)" using inv_phase [OF assms(1) q(1)] by simp
      ultimately show ?thesis using d q new by (auto simp: ownReply_def)
    qed
  qed
  ultimately show ?thesis by (simp add: inv_def)
qed

lemma inv_step:
  assumes "step retries s s'" and "inv retries s"
  shows "inv retries s'"
  using assms
proof (induction rule: step.induct)
  case (register s r addr svc c' i)
  then show ?case by (intro inv_register)
next
  case (refused s r addr svc c' e)
  then have "pending c' = pending (cl s)" "replies c' = replies (cl s)"
    by (auto simp: registerRequest_def split: prod.splits option.splits)
  with refused(3) show ?case
    by (simp add: inv_def tableOk_def heldOk_def repliesOk_def resultsOk_def phasesOk_def ownReply_def)
next
  case (sent s r q a)
  then have "a \<le> retries" using inv_phase [of retries s r q] by (simp add: phaseOk_def)
  then show ?case
    by (intro move_inv [where p = "Waiting a", OF sent(3,1)])
      (simp_all add: sent sys_simps resultIs_def phaseOk_def holdsID_def)
next
  case (send_failed s r q a)
  then show ?case
    by (intro move_inv [where p = "Leaving (Err (Wrap ''bacnet: send'' SystemError))", OF send_failed(3,1)])
      (simp_all add: send_failed sys_simps resultIs_def holdsID_def)
next
  case (took s r q a apdu)
  obtain q' where "reqs s r = Some q'" "ownReply s r q' apdu"
    using took(4) took(3) by (rule inv_reply)
  then show ?case using took(1,2)
    by (intro move_inv [where p = "Leaving (Ok apdu)", OF took(4,1)])
      (simp_all add: took sys_simps resultIs_def holdsID_def split: if_splits)
next
  case (timed_out s r q a)
  let ?p = "if a + 1 \<le> retries then Sending (a + 1) else Leaving (Err (Wrap ''request'' ErrTimeout))"
  have "phaseOk retries ?p" by (simp add: phaseOk_def [of _ "Sending (Suc a)"])
  then show ?case
    by (intro move_inv [where p = ?p, OF timed_out(3,1)])
      (simp_all add: timed_out sys_simps resultIs_def holdsID_def split: if_splits)
next
  case (cancelled s r q a)
  then show ?case
    by (intro move_inv [where p = "Leaving (Err ContextError)", OF cancelled(3,1)])
      (simp_all add: cancelled sys_simps resultIs_def holdsID_def)
next
  case (released s r q res)
  then show ?case by (intro inv_released)
next
  case (received s pkt src c')
  then show ?case by (intro inv_received)
qed

lemma reachable_inv: "reachable retries s \<Longrightarrow> inv retries s"
  by (induction rule: reachable.induct) (auto intro: inv_init inv_step)

lemma distinct_ids:
  assumes "inv retries s" "reqs s r = Some q" "reqs s r' = Some q'" "holdsID q" "holdsID q'"
    and "rInvoke q = rInvoke q'"
  shows "r = r'"
  using inv_held [OF assms(1,2,4)] inv_held [OF assms(1,3,5)] assms(6) by (simp add: entryOf_def)

text \<open>When every request has returned, no invoke ID is left in use.\<close>

lemma no_leak:
  assumes "inv retries s" and "\<And>r q. reqs s r = Some q \<Longrightarrow> \<exists>res. rPhase q = Done res"
  shows "pending (cl s) = Map.empty"
proof (rule ccontr)
  assume "pending (cl s) \<noteq> Map.empty"
  then obtain i p where "pending (cl s) i = Some p" by (meson not_Some_eq ext)
  then obtain r q where "reqs s r = Some q" "holdsID q"
    using assms(1) unfolding inv_def tableOk_def by blast
  with assms(2) [of r q] show False by (auto simp: holdsID_def)
qed

end
