(* ===== verification/Bacnet_Theorems.thy ===== *)
theory Bacnet_Theorems
  imports Bacnet_EndToEnd Bacnet_Concurrency
begin

text \<open>
  The properties of the BACnet side: the wire format, the client and the device it is tested
  against.
\<close>

section \<open>Nesting and text\<close>

fun depth :: "Value \<Rightarrow> nat" where
  "depth (ConstructedValue t items) = Suc (fold (\<lambda>v m. max (depth v) m) items 0)"
| "depth v = 0"

lemma fold_max_le: "fold (\<lambda>v m. max (f v) m) vs k \<le> (n :: nat) \<longleftrightarrow> k \<le> n \<and> list_all (\<lambda>v. f v \<le> n) vs"
  by (induction vs arbitrary: k) auto

lemma decodePrimitive_depth: "decodePrimitive number data = Ok v \<Longrightarrow> depth v = 0"
  by (auto simp: decodePrimitive_def res_bind_Ok_iff split: if_splits)

lemma decodeApplicationValue_depth: "decodeApplicationValue buf = Ok vn \<Longrightarrow> depth (fst vn) = 0"
  by (auto simp: decodeApplicationValue_def res_bind_Ok_iff split: if_splits dest: decodePrimitive_depth)

lemma decodeNestedLoop_depth:
  assumes "decodeNestedLoop buf d vs pos = Ok wn" and "list_all (\<lambda>v. depth v \<le> maxNesting - d) vs"
  shows "list_all (\<lambda>v. depth v \<le> maxNesting - d) (fst wn)"
  using assms
proof (induction buf d vs pos arbitrary: wn rule: decodeNestedLoop.induct)
  case (1 buf d vs pos)
  from "1.prems"(1) show ?case
  proof (cases rule: decodeNestedLoop_OkE)
    case finished
    then show ?thesis using "1.prems"(2) by simp
  next
    case (app th vn)
    then have "depth (fst vn) = 0" by (auto simp: decAt_Ok_iff dest: decodeApplicationValue_depth)
    then show ?thesis using "1.IH"(1) [OF app(1-4) app(5)] "1.prems"(2) by simp
  next
    case (closing th)
    then show ?thesis using "1.prems"(2) by simp
  next
    case (nested th itemsn n)
    have inner: "decodeNestedLoop (drop (pos + Header th) buf) (d + 1) [] 0 = Ok itemsn"
      using nested(7) by (simp add: decAt_Ok_iff)
    have "list_all (\<lambda>v. depth v \<le> maxNesting - (d + 1)) (fst itemsn)"
      using "1.IH"(2) [OF nested(1,2) _ nested(4,5) _ refl inner] nested(3,6) by simp
    then have "depth (ConstructedValue (Number th) (fst itemsn)) \<le> maxNesting - d"
      using fold_max_le [of depth "fst itemsn" 0 "maxNesting - (d + 1)"] nested(6) by simp
    then show ?thesis
      using "1.IH"(3) [OF nested(1,2) _ nested(4,5) _ nested(7,8,9)] nested(3,6) "1.prems"(2) by simp
  next
    case (prim th data)
    then show ?thesis using "1.IH"(4) [OF prim(1-2) _ prim(4-5) _ prim(7) prim(8)] "1.prems"(2) by simp
  qed
qed

text \<open>The loop only ever adds values at the end.\<close>

lemma decodeNestedLoop_extends:
  assumes "decodeNestedLoop buf d vs pos = Ok wn"
  shows "\<exists>ws. fst wn = vs @ ws"
  using assms
proof (induction buf d vs pos arbitrary: wn rule: decodeNestedLoop.induct)
  case (1 buf d vs pos)
  from "1.prems" show ?case
  proof (cases rule: decodeNestedLoop_OkE)
    case (app th vn)
    then show ?thesis using "1.IH"(1) [OF app(1-5)] by auto
  next
    case (nested th itemsn n)
    then show ?thesis using "1.IH"(3) [OF nested(1,2) _ nested(4,5) _ nested(7,8,9)] by auto
  next
    case (prim th data)
    then show ?thesis using "1.IH"(4) [OF prim(1-2) _ prim(4-5) _ prim(7) prim(8)] by auto
  qed auto
qed

lemma decodeCharacterString_valid:
  "decodeCharacterString charset data = Ok s \<Longrightarrow> validUTF8 (bytesOf s)"
  by (auto simp: decodeCharacterString_def res_bind_Ok_iff ToValidUTF8_valid runesToString_valid split: if_splits)


section \<open>Shared facts\<close>

lemma handleConfirmed_reply:
  assumes "handleConfirmed d apdu = Ok (d', Some reply)"
  obtains body where "reply = EncodeUnicastPacket body" and "length body \<le> maxAPDU"
proof -
  have error: "length (errorAPDU i s e) \<le> maxAPDU" for i s e
    using errorBytes_length [of e] by (simp add: errorAPDU_def maxAPDU_def)
  have short: "length (EncodeRejectAPDU i r) \<le> maxAPDU" "length (EncodeSimpleACKAPDU i s) \<le> maxAPDU" for i r s
    by (simp_all add: EncodeRejectAPDU_def EncodeSimpleACKAPDU_def maxAPDU_def)
  note defs = sendError_def EncodeErrorAPDU_eq sendComplexACK_def dropErr_def
  from assms have "\<exists>body. reply = EncodeUnicastPacket body \<and> length body \<le> maxAPDU"
    unfolding handleConfirmed_def
    by (auto simp: handleReadProperty_def handleWriteProperty_def handleReadPropertyMultiple_def defs
        res_bind_Ok_iff error short complexReply_length split: if_splits res.splits prod.splits option.splits)
  then show ?thesis using that by blast
qed

lemma tagged_length: "length (tagged t c data) \<le> 7 + length data"
  using tagHeader_length by (simp add: tagged_def)

lemma iAm_length: "length (valuesBytes (iAmValues v)) \<le> 60"
proof -
  have n: "length (tagged t c (minUnsignedBytes n)) \<le> 15" for t c n
    using tagged_length [of t c "minUnsignedBytes n"] minUnsignedBytes_length [of n] by linarith
  have o: "length (tagged t c (putUint32 w)) \<le> 11" for t c w
    using tagged_length [of t c "putUint32 w"] by simp
  show ?thesis
    using add_le_mono [OF o [of TagObjectID False "objectIDWord (Device v)"] add_le_mono
        [OF n [of TagUnsignedInt False "ucast (MaxAPDULength v)"] add_le_mono
        [OF n [of TagEnumerated False "ucast (SegmentationSupported v)"]
            n [of TagUnsignedInt False "ucast (VendorID v)"]]]]
    by (simp add: iAmValues_def contextBytes_def dataOf_def applicationTagFor_def)
qed

lemma handleUnconfirmed_reply:
  assumes "handleUnconfirmed ign d apdu = Ok (d', Some reply)"
  obtains body where "reply = EncodeUnicastPacket body" and "length body \<le> maxAPDU"
proof -
  have "length (EncodeUnconfirmedRequestAPDU s (valuesBytes (iAmValues v))) \<le> maxAPDU" for s v
    using iAm_length [of v] by (simp add: EncodeUnconfirmedRequestAPDU_def maxAPDU_def)
  with assms that show ?thesis
    unfolding handleUnconfirmed_def
    by (auto simp: dropErr_def EncodeIAm_eq split: if_splits res.splits prod.splits option.splits)
qed

lemma handlePacket_reply:
  assumes "handlePacket ign d pkt = Ok (d', Some reply)"
  obtains body where "reply = EncodeUnicastPacket body" and "length body \<le> maxAPDU"
  using assms
  by (auto simp: handlePacket_def dropErr_def split: if_splits res.splits
      elim!: handleUnconfirmed_reply handleConfirmed_reply)

section \<open>Safety of everything that reads the network\<close>

text \<open>C30. No octet sequence from the network makes any decoder of the client or of the device panic.\<close>
theorem decoders_never_panic:
  "safe (DecodeIncomingPacket pkt) \<and> safe (DecodeAPDU pkt) \<and> safe (decodeNPDU pkt)
    \<and> safe (decodeValues pkt) \<and> safe (decodeApplicationValue pkt)
    \<and> safe (DecodeReadPropertyRequest pkt) \<and> safe (DecodeReadPropertyACK pkt)
    \<and> safe (DecodeWritePropertyRequest pkt)
    \<and> safe (DecodeReadPropertyMultipleRequest pkt) \<and> safe (DecodeReadPropertyMultipleACK pkt)
    \<and> safe (DecodeWhoIsRequest pkt) \<and> safe (DecodeIAm pkt) \<and> safe (DecodeBACnetError pkt)"
  by (intro conjI DecodeIncomingPacket_safe safe_intros decodeNPDU_safe valueRun.no_panic)

text \<open>A decoded value never nests deeper than sixteen levels, whatever a peer sends.\<close>
lemma decoded_nesting_bounded:
  assumes "decodeValues buf = Ok (vs, n)"
  shows "n \<le> length buf \<and> list_all (\<lambda>v. depth v \<le> 16) vs"
  using decodeNestedLoop_depth [of buf 0 "[]" 0] valueRun.in_bounds assms
  by (force simp: decodeValues_def decodeNestedValues_def maxNesting_def)

lemma decoded_nesting_bounded_witness:
  "decodeValues [0x1E, 0x21, 0x05, 0x1F] = Ok ([ConstructedValue 1 [UnsignedValue 5]], 4)
    \<and> list_all (\<lambda>v. depth v \<le> 16) [ConstructedValue 1 [UnsignedValue 5]]"
proof -
  have "list_all (wireValue maxNesting) [ConstructedValue 1 [UnsignedValue 5]]"
    by (simp add: maxNesting_def numeral_eq_Suc wirePrimitive_def)
  moreover have "valuesBytes [ConstructedValue 1 [UnsignedValue 5]] = [0x1E, 0x21, 0x05, 0x1F]"
    by code_simp
  ultimately have *: "decodeValues [0x1E, 0x21, 0x05, 0x1F] = Ok ([ConstructedValue 1 [UnsignedValue 5]], 4)"
    using decodeValues_roundtrip [of "[ConstructedValue 1 [UnsignedValue 5]]" "[]"] by (simp add: fits_def)
  then show ?thesis
    using decoded_nesting_bounded [OF *] by simp
qed

text \<open>C36. A decoded character string is valid UTF-8 in all four character sets.\<close>
theorem decoded_text_is_utf8:
  assumes "decodeApplicationValue buf = Ok (CharStringValue s, n)"
  shows "validUTF8 (bytesOf s)"
proof -
  have "validUTF8 (bytesOf s)" if "decodePrimitive number data = Ok (CharStringValue s)" for number data
    using that by (auto simp: decodePrimitive_def res_bind_Ok_iff decAt_Ok_iff decodeCharacterString_valid split: if_splits)
  then show ?thesis
    using assms by (auto simp: decodeApplicationValue_def res_bind_Ok_iff split: if_splits)
qed

lemma decoded_text_is_utf8_witness:
  "decodeApplicationValue [0x75, 5, 5, 0x42, 0xFC, 0x72, 0x6F] = Ok (CharStringValue (stringOf [0x42, 0xC3, 0xBC, 0x72, 0x6F]), 7)
    \<and> validUTF8 (bytesOf (stringOf [0x42, 0xC3, 0xBC, 0x72, 0x6F]))"
proof -
  have *: "decodeApplicationValue [0x75, 5, 5, 0x42, 0xFC, 0x72, 0x6F]
      = Ok (CharStringValue (stringOf [0x42, 0xC3, 0xBC, 0x72, 0x6F]), 7)"
    by code_simp
  with decoded_text_is_utf8 [OF *] show ?thesis by simp
qed

section \<open>Round trips\<close>

text \<open>
  C32. A run of values with a faithful encoding, nested up to sixteen levels deep and followed by
  nothing or by the closing tag of its parameter, decodes to itself.
\<close>
theorem values_roundtrip:
  assumes "list_all (wireValue maxNesting) vs" and "AppendValues [] vs = Ok b"
    and "rest = [] \<or> (\<exists>t r. rest = appendClosingTag [] t @ r)" and "length (b @ rest) < 2 ^ 32"
  shows "decodeValues (b @ rest) = Ok (vs, length b)"
  using assms decodeValues_roundtrip [of vs rest] by (auto simp: AppendValue_eq appendMarker_eq fits_def)

definition nested_demo :: "Value list" where
  "nested_demo = [ConstructedValue 2 [UnsignedValue 700, BoolValue True, ConstructedValue 20 [NullValue]],
     ContextPrimitiveValue 3 [1, 2, 3, 4, 5]]"

lemma values_roundtrip_witness:
  "\<exists>b. AppendValues [] nested_demo = Ok b \<and> decodeValues (b @ [0x3F]) = Ok (nested_demo, length b)"
proof -
  have "list_all (wireValue maxNesting) nested_demo"
    by (simp add: nested_demo_def maxNesting_def numeral_eq_Suc wirePrimitive_def)
  moreover have "\<exists>t r. [0x3F] = appendClosingTag [] t @ r"
    by (rule exI [of _ 3], rule exI [of _ "[]"]) code_simp
  moreover have "length (valuesBytes nested_demo) = 18"
    by code_simp
  ultimately show ?thesis
    using values_roundtrip [of nested_demo "valuesBytes nested_demo" "[0x3F]"] by (auto simp: AppendValue_eq)
qed

text \<open>
  A ReadProperty acknowledgement is decoded to what was encoded, for every array index and
  every list of values with a faithful encoding.
\<close>
lemma ReadPropertyACK_roundtrip:
  assumes "wireObject (Object a)" and "list_all (wireValue maxNesting) (Values a)"
    and "EncodeReadPropertyACK a = Ok b" and "length b < 2 ^ 32"
  shows "DecodeReadPropertyACK b = Ok a"
  using assms DecodeReadPropertyACK_roundtrip [of a]
  by (auto simp: EncodeReadPropertyACK_eq wireACK_def fits_def)

definition ack_demo :: ReadPropertyACK where
  "ack_demo = \<lparr>Property = 85, ArrayIndex = Some 300, Object = \<lparr>Type = 2, Instance = 4194302\<rparr>,
     Values = nested_demo\<rparr>"

lemma ReadPropertyACK_roundtrip_witness:
  "\<exists>b. EncodeReadPropertyACK ack_demo = Ok b \<and> DecodeReadPropertyACK b = Ok ack_demo"
proof -
  have 1: "wireObject (Object ack_demo)" "Values ack_demo = nested_demo"
    by (simp_all add: ack_demo_def wireObject_def)
  have 2: "list_all (wireValue maxNesting) nested_demo"
    by (simp add: nested_demo_def maxNesting_def numeral_eq_Suc wirePrimitive_def)
  have "length (ackBytes ack_demo) = 30"
    by code_simp
  then have "length (ackBytes ack_demo) < 2 ^ 32"
    by simp
  then show ?thesis
    using ReadPropertyACK_roundtrip [OF _ _ EncodeReadPropertyACK_eq] 1 2 EncodeReadPropertyACK_eq by metis
qed

text \<open>
  A write request is decoded to what was encoded, with its array index and priority, and a
  read request likewise; a read request needs no bound on its size.
\<close>
lemma property_request_roundtrip:
  assumes "wireObject (Object w)" and "wirePrimitive (WriteValue w)" and "wireObject (Object r)"
    and "EncodeWritePropertyRequest w = Ok b" and "length b < 2 ^ 32"
  shows "DecodeWritePropertyRequest b = Ok w
    \<and> res_bind (EncodeReadPropertyRequest r) DecodeReadPropertyRequest = Ok r"
  using assms DecodeWritePropertyRequest_roundtrip [of w] DecodeReadPropertyRequest_roundtrip [of r]
  by (auto simp: EncodeWritePropertyRequest_eq EncodeReadPropertyRequest_eq fits_def)

definition write_demo :: WritePropertyRequest where
  "write_demo = \<lparr>Property = 85, ArrayIndex = None, Object = \<lparr>Type = 1, Instance = 7\<rparr>,
     WriteValue = RealValue 0x41B80000, Priority = Some 8\<rparr>"

definition read_demo :: ReadPropertyRequest where
  "read_demo = \<lparr>Property = 85, ArrayIndex = Some 0, Object = \<lparr>Type = 1, Instance = 7\<rparr>\<rparr>"

lemma property_request_roundtrip_witness:
  "\<exists>b. EncodeWritePropertyRequest write_demo = Ok b \<and> DecodeWritePropertyRequest b = Ok write_demo
    \<and> res_bind (EncodeReadPropertyRequest read_demo) DecodeReadPropertyRequest = Ok read_demo"
proof -
  have 1: "wireObject (Object write_demo)" "wireObject (Object read_demo)" "wirePrimitive (WriteValue write_demo)"
    by (simp_all add: write_demo_def read_demo_def wireObject_def wirePrimitive_def)
  have "length (writeBytes write_demo) = 16"
    by code_simp
  then have 2: "length (writeBytes write_demo) < 2 ^ 32"
    by simp
  show ?thesis
    using property_request_roundtrip [OF 1(1,3,2) EncodeWritePropertyRequest_eq 2] EncodeWritePropertyRequest_eq
    by blast
qed

text \<open>
  C31. A ReadPropertyMultiple request and its acknowledgement are decoded to what was encoded; in
  the acknowledgement every property has values or an error.
\<close>
theorem ReadPropertyMultiple_roundtrip:
  assumes "list_all (\<lambda>s. wireObject (SpecObject s)) specs" and "list_all wireAccessResult rs"
    and "EncodeReadPropertyMultipleRequest specs = Ok b" and "EncodeReadPropertyMultipleACK rs = Ok c"
    and "length b < 2 ^ 32" and "length c < 2 ^ 32"
  shows "DecodeReadPropertyMultipleRequest b = Ok specs \<and> DecodeReadPropertyMultipleACK c = Ok rs"
  using assms DecodeReadPropertyMultipleRequest_roundtrip [of specs] DecodeReadPropertyMultipleACK_roundtrip [of rs]
  by (auto simp: EncodeReadPropertyMultipleRequest_eq EncodeReadPropertyMultipleACK_eq fits_def)

definition specs_demo :: "ReadAccessSpec list" where
  "specs_demo = [\<lparr>SpecObject = \<lparr>Type = 0, Instance = 1\<rparr>,
     Properties = [\<lparr>Property = 77, ArrayIndex = None\<rparr>, \<lparr>Property = 87, ArrayIndex = Some 16\<rparr>]\<rparr>]"

definition results_demo :: "ReadAccessResult list" where
  "results_demo = [\<lparr>ResultObject = \<lparr>Type = 0, Instance = 1\<rparr>,
     Results = [\<lparr>Property = 77, ArrayIndex = None, ResultValues = [UnsignedValue 9], ResultErr = None\<rparr>,
                \<lparr>Property = 87, ArrayIndex = Some 16, ResultValues = [], ResultErr = Some \<lparr>Class = 2, Code = 32\<rparr>\<rparr>]\<rparr>]"

lemma ReadPropertyMultiple_roundtrip_witness:
  "\<exists>b c. EncodeReadPropertyMultipleRequest specs_demo = Ok b \<and> EncodeReadPropertyMultipleACK results_demo = Ok c
    \<and> DecodeReadPropertyMultipleRequest b = Ok specs_demo \<and> DecodeReadPropertyMultipleACK c = Ok results_demo"
proof -
  have 1: "list_all (\<lambda>s. wireObject (SpecObject s)) specs_demo"
    by (simp add: specs_demo_def wireObject_def)
  have "wireValue maxNesting (UnsignedValue 9)"
    by (simp add: maxNesting_def numeral_eq_Suc wirePrimitive_def)
  then have 2: "list_all wireAccessResult results_demo"
    by (simp add: results_demo_def wireAccessResult_def wireObject_def wireResult_def)
  have "length (concat (map specBytes specs_demo)) = 13" "length (concat (map accessResultBytes results_demo)) = 23"
    by code_simp+
  then have 3: "length (concat (map specBytes specs_demo)) < 2 ^ 32"
      "length (concat (map accessResultBytes results_demo)) < 2 ^ 32"
    by simp_all
  show ?thesis
    using ReadPropertyMultiple_roundtrip [OF 1 2 EncodeReadPropertyMultipleRequest_eq
        EncodeReadPropertyMultipleACK_eq 3]
      EncodeReadPropertyMultipleRequest_eq EncodeReadPropertyMultipleACK_eq by blast
qed

text \<open>
  An error reported by a device is decoded to the error it encoded, both from the
  application-tagged sequence the standard prescribes and from the context-tagged one that older
  devices send; who-is limits come back when both are set, and an I-Am always.
\<close>
lemma discovery_and_error_roundtrip:
  assumes "wireObject (Device v)"
  shows "res_bind (appendErrorSequence [] e) DecodeBACnetError = Ok e
    \<and> DecodeBACnetError (uintBytes 0 (Class e) @ uintBytes 1 (Code e)) = Ok e
    \<and> res_bind (EncodeWhoIsRequest \<lparr>LowLimit = Some lo, HighLimit = Some hi\<rparr>) DecodeWhoIsRequest
      = Ok \<lparr>LowLimit = Some lo, HighLimit = Some hi\<rparr>
    \<and> res_bind (EncodeIAm v) DecodeIAm = Ok v"
proof -
  have "fits (valuesBytes (iAmValues v))"
    using iAm_length [of v] by (simp add: fits_def)
  then have "DecodeIAm (valuesBytes (iAmValues v)) = Ok v"
    using DecodeIAm_roundtrip assms by blast
  moreover have "DecodeBACnetError (uintBytes 0 (Class e) @ uintBytes 1 (Code e)) = Ok e"
    using decodeErrorSequence_context [of e "[]"] by (simp add: DecodeBACnetError_def)
  ultimately show ?thesis
    by (simp add: appendErrorSequence_eq DecodeBACnetError_roundtrip EncodeWhoIsRequest_eq
        DecodeWhoIsRequest_roundtrip EncodeIAm_eq)
qed

lemma discovery_and_error_roundtrip_witness:
  "res_bind (EncodeIAm \<lparr>Device = \<lparr>Type = 8, Instance = 1234\<rparr>, MaxAPDULength = 1476,
      SegmentationSupported = 3, VendorID = 999\<rparr>) DecodeIAm
    = Ok \<lparr>Device = \<lparr>Type = 8, Instance = 1234\<rparr>, MaxAPDULength = 1476,
      SegmentationSupported = 3, VendorID = 999\<rparr>"
  using discovery_and_error_roundtrip [where v = "\<lparr>Device = \<lparr>Type = 8, Instance = 1234\<rparr>,
      MaxAPDULength = 1476, SegmentationSupported = 3, VendorID = 999\<rparr>"]
  by (simp add: wireObject_def)

text \<open>
  An APDU comes back from its packet: sent directly, broadcast, or forwarded by a BBMD with
  the origin's address, and whatever source and destination addresses routers added.
\<close>
lemma packet_roundtrip:
  assumes "apdu \<noteq> []" and "control AND 0x80 = 0"
    and "if control AND 0x20 \<noteq> 0 then addressOk dst \<and> length hops = 1 else dst = [] \<and> hops = []"
    and "if control AND 0x08 \<noteq> 0 then addressOk src else src = []"
    and "f \<in> {0x0A, 0x0B} \<and> origin = [] \<or> f = 0x04 \<and> length origin = 6"
    and "length (origin @ dst @ src @ hops @ apdu) < 65530"
  shows "DecodeIncomingPacket (bvlcPacket f origin ([version, control] @ dst @ src @ hops @ apdu)) = DecodeAPDU apdu
    \<and> DecodeIncomingPacket (EncodeUnicastPacket apdu) = DecodeAPDU apdu"
  using assms decodeNPDU_general [OF assms(2,1,3,4), of version]
    DecodeIncomingPacket_bvlc [of f origin "[version, control] @ dst @ src @ hops @ apdu"]
    DecodeIncomingPacket_roundtrip [of apdu]
  by (auto simp: bvlc_defs)

lemma packet_roundtrip_witness:
  "DecodeIncomingPacket (bvlcPacket 0x04 [10, 0, 0, 1, 0xBA, 0xC0]
      ([1, 0x28] @ [0, 5, 0] @ [0, 7, 1, 9] @ [255] @ [0x20, 3, 15])) = DecodeAPDU [0x20, 3, 15]"
proof -
  have "addressOk [0, 5, 0]" "addressOk [0, 7, 1, 9]"
    by (auto simp: addressOk_def)
  then show ?thesis
    using packet_roundtrip [where apdu = "[0x20, 3, 15]" and control = "0x28" and dst = "[0, 5, 0]"
        and hops = "[255]" and src = "[0, 7, 1, 9]" and f = 4 and origin = "[10, 0, 0, 1, 0xBA, 0xC0]"
        and version = 1]
    by simp
qed

section \<open>Numbers and names\<close>

text \<open>The first octet could be left out: the value would be read back from the others.\<close>
definition redundantSign :: "byte list \<Rightarrow> bool" where
  "redundantSign bs \<longleftrightarrow> 2 \<le> length bs
     \<and> (bs ! 0 = 0 \<and> bs ! 1 AND 0x80 = 0 \<or> bs ! 0 = 0xFF \<and> bs ! 1 AND 0x80 \<noteq> 0)"

lemma skipZeros_minimal: "length (skipZeros bs) \<le> 1 \<or> hd (skipZeros bs) \<noteq> 0"
  by (induction bs rule: skipZeros.induct) auto

lemma skipSign_minimal: "\<not> redundantSign (skipSign bs)"
  by (induction bs rule: skipSign.induct) (auto simp: redundantSign_def)

text \<open>
  The minimal unsigned and signed encodings keep the value, take one to eight octets and
  have no octet that could be left out.
\<close>
lemma minimal_integers:
  "decodeUnsignedData (minUnsignedBytes v) = v \<and> decodeSignedData (minSignedBytes v) = v
    \<and> length (minUnsignedBytes v) \<in> {1..8} \<and> length (minSignedBytes v) \<in> {1..8}
    \<and> (length (minUnsignedBytes v) \<le> 1 \<or> hd (minUnsignedBytes v) \<noteq> 0)
    \<and> \<not> redundantSign (minSignedBytes v)"
  using minUnsignedBytes_length [of v] minSignedBytes_length [of v] minUnsignedBytes_value [of v]
    minSignedBytes_value [of v] skipZeros_minimal skipSign_minimal
  by (simp add: decodeUnsignedData_eq decodeSignedData_eq minUnsignedBytes_def minSignedBytes_def)

lemma minimal_integers_witness:
  "decodeSignedData (minSignedBytes (- 129)) = - 129 \<and> \<not> redundantSign (minSignedBytes (- 129))"
  using minimal_integers [of "- 129"] by simp

text \<open>
  The printed name of every object type and property that fits its field is parsed back to
  the same number, and so is the bare number; conversely nothing that parses exceeds its field.
\<close>
lemma names_roundtrip:
  assumes "t \<le> 1023" and "p \<le> 4194303"
  shows "ParseObjectType (ObjectType_String t) = Some t
    \<and> ParsePropertyIdentifier (PropertyIdentifier_String p) = Some p
    \<and> ParseObjectType (showNat (unat t)) = Some t
    \<and> ParsePropertyIdentifier (showNat (unat p)) = Some p
    \<and> (ParseObjectType s = Some t' \<longrightarrow> unat t' \<le> 1023)
    \<and> (ParsePropertyIdentifier s = Some p' \<longrightarrow> unat p' \<le> 4194303)"
proof -
  have "unat t \<le> 1023" "unat p \<le> 4194303"
    using assms by (simp_all add: word_le_nat_alt)
  then show ?thesis
    by (simp add: ParseObjectType_String ParsePropertyIdentifier_String ParseObjectType_bare
        ParsePropertyIdentifier_bare ParseObjectType_bound ParsePropertyIdentifier_bound)
qed

lemma names_roundtrip_witness:
  "ParseObjectType (ObjectType_String 300) = Some 300
    \<and> ParsePropertyIdentifier (PropertyIdentifier_String 85) = Some 85"
  using names_roundtrip [of 300 85] by simp

section \<open>Requests\<close>

text \<open>
  An invoke ID that is free is found whenever there is one, and the one returned was free:
  a request is refused exactly when all 256 are outstanding, and then nothing but the next ID
  changes.
\<close>
lemma invoke_id_allocation:
  "(snd (registerRequest c ch addr svc) = Err TooManyOutstanding \<longleftrightarrow> (\<forall>i. pending c i \<noteq> None))
    \<and> (snd (registerRequest c ch addr svc) = Ok i
        \<longrightarrow> pending c i = None
          \<and> pending (fst (registerRequest c ch addr svc))
            = (pending c)(i \<mapsto> \<lparr>ReqTo = addr, ReqService = svc, ReqCh = ch\<rparr>)
          \<and> pending (releaseRequest (fst (registerRequest c ch addr svc)) i) = pending c)"
proof (cases "findInvokeID 256 (pending c) (nextID c)")
  case (Pair nxt found)
  then show ?thesis
    using findInvokeID_complete [of "pending c" "nextID c"] findInvokeID_Some [of 256 "pending c" "nextID c" nxt]
    by (cases found) (auto simp: registerRequest_def releaseRequest_def fun_upd_idem)
qed

lemma invoke_id_allocation_witness:
  "\<exists>c'. registerRequest newClient 0 \<lparr>AddrIP = [10, 0, 0, 1], AddrPort = 47808\<rparr> 12 = (c', Ok 0)
    \<and> pending newClient 0 = None"
proof -
  have "snd (registerRequest newClient 0 \<lparr>AddrIP = [10, 0, 0, 1], AddrPort = 47808\<rparr> 12) = Ok 0"
    by (simp add: registerRequest_def newClient_def findInvokeID.simps(2) [of 255, simplified])
  with invoke_id_allocation [where c = newClient and i = 0]
  show ?thesis by (metis prod.collapse)
qed

text \<open>
  C29. The receive loop panics for exactly these packets: a simple or complex acknowledgement or
  an error whose invoke ID is not outstanding, such as a reply that comes after its request timed
  out. In every other case it ends without a panic and keeps the table of requests.
\<close>
theorem receive_loop_panics_iff:
  "handleIncoming c pkt from = Panic \<longleftrightarrow>
    (\<exists>apdu. DecodeIncomingPacket pkt = Ok apdu
      \<and> PduType apdu \<in> {PDUSimpleACK, PDUComplexACK, PDUError}
      \<and> pending c (InvokeID apdu) = None)"
  by (rule handleIncoming_panics_iff)

text \<open>So a late or stray acknowledgement, from any address, is enough to stop the process.\<close>
lemma stray_ack_panics:
  assumes "pending c i = None"
  shows "handleIncoming c (EncodeUnicastPacket (EncodeSimpleACKAPDU i svc)) from = Panic"
proof -
  have "DecodeIncomingPacket (EncodeUnicastPacket (EncodeSimpleACKAPDU i svc))
      = Ok ((newAPDU PDUSimpleACK)\<lparr>InvokeID := i, ServiceChoice := svc\<rparr>)"
    using DecodeIncomingPacket_roundtrip [of "EncodeSimpleACKAPDU i svc"] DecodeAPDU_roundtrip(3)
    by (simp add: EncodeSimpleACKAPDU_def)
  with assms show ?thesis
    by (auto simp: handleIncoming_panics_iff newAPDU_def)
qed

lemma stray_ack_panics_witness:
  "handleIncoming newClient [0x81, 0x0A, 0, 9, 1, 0, 0x20, 7, 15] \<lparr>AddrIP = [192, 0, 2, 1], AddrPort = 1\<rparr> = Panic"
proof -
  have "EncodeUnicastPacket (EncodeSimpleACKAPDU 7 15) = [0x81, 0x0A, 0, 9, 1, 0, 0x20, 7, 15]"
    by code_simp
  with stray_ack_panics [of newClient 7 15] show ?thesis
    by (simp add: newClient_def)
qed

text \<open>
  C34. A context-tagged primitive of seven octets is taken for a closing tag and one of six for an
  opening tag, because the decoded length is compared with the marker codes: the first ends the
  run of values without an error, the second never comes back as the value it was.
\<close>
theorem context_primitive_misread:
  assumes "AppendValue [] (ContextPrimitiveValue t octets) = Ok b"
  shows "(length octets = 7 \<longrightarrow> decodeValues (b @ rest) = Ok ([], 0))
    \<and> (length octets = 6 \<longrightarrow> (\<nexists>vs n. decodeValues (b @ rest) = Ok (ContextPrimitiveValue t octets # vs, n)))"
proof (intro conjI impI notI)
  have b: "b = tagged t True octets"
    using assms by (auto simp: AppendValue_eq)
  {
    assume "length octets = 7"
    then have "endsRun (b @ rest)"
      using decodeTagHeader_tagged [of t True octets rest] by (simp add: b endsRun_def IsClosing_def closingLVT_def)
    then show "decodeValues (b @ rest) = Ok ([], 0)"
      using loop_end [of "b @ rest" "[]" 0 "[]"] by (simp add: decodeValues_def decodeNestedValues_def)
  next
    assume len: "length octets = 6" and "\<exists>vs n. decodeValues (b @ rest) = Ok (ContextPrimitiveValue t octets # vs, n)"
    then obtain vs n where ok: "decodeNestedLoop (b @ rest) 0 [] 0 = Ok (ContextPrimitiveValue t octets # vs, n)"
      by (auto simp: decodeValues_def decodeNestedValues_def)
    have tag: "decodeTagHeader (b @ rest) = Ok th \<Longrightarrow> Context th \<and> \<not> IsClosing th \<and> IsOpening th" for th
      using decodeTagHeader_tagged [of t True octets rest] len
      by (auto simp: b IsOpening_def IsClosing_def openingLVT_def closingLVT_def)
    from ok show False
      by (cases rule: decodeNestedLoop_OkE) (auto dest!: tag decodeNestedLoop_extends)
  }
qed

lemma context_primitive_misread_witness:
  "decodeValues ([0x3D, 7, 1, 2, 3, 4, 5, 6, 7] @ [0x3F]) = Ok ([], 0)"
proof -
  have "AppendValue [] (ContextPrimitiveValue 3 [1, 2, 3, 4, 5, 6, 7]) = Ok [0x3D, 7, 1, 2, 3, 4, 5, 6, 7]"
    by code_simp
  from context_primitive_misread [OF this, of "[0x3F]"] show ?thesis by simp
qed

section \<open>Addresses\<close>

text \<open>
  C35. A device address that is an IPv6 literal without brackets is passed to the resolver with
  the default port appended and still without brackets: text that does not split into host and
  port, so it cannot be resolved. With brackets and a port, or for a name or IPv4 address with or
  without a port, the text is one that splits into the host and the port meant.
\<close>
theorem device_address:
  assumes "unbracketed host" and "unbracketed port" and "CHR '':'' \<notin> set port" and "port \<noteq> []"
    and "bare = a @ '':'' @ b @ '':'' @ c" and "unbracketed bare"
  shows "(\<exists>s. resolveDeviceAddr resolve bare = resolve s \<and> SplitHostPort s = None)
    \<and> (\<exists>s. resolveDeviceAddr resolve (JoinHostPort host port) = resolve s \<and> SplitHostPort s = Some (host, port))
    \<and> (CHR '':'' \<notin> set host \<longrightarrow>
        (\<exists>s. resolveDeviceAddr resolve host = resolve s \<and> SplitHostPort s = Some (host, ''47808'')))"
proof (intro conjI impI)
  have nth: "CHR ''['' \<notin> set bare" "bare \<noteq> []"
    using assms(5,6) by (auto simp: unbracketed_def)
  then have hd: "bare ! 0 \<noteq> CHR ''[''"
    by (metis length_greater_0_conv nth_mem)
  have "SplitHostPort bare = None"
  proof (cases "CHR '':'' \<in> set c")
    case True
    then obtain c1 c2 where c: "c = c1 @ CHR '':'' # c2" "CHR '':'' \<notin> set c2"
      by (auto dest: split_list_last)
    then have *: "bare = (a @ '':'' @ b @ '':'' @ c1) @ CHR '':'' # c2"
      using assms(5) by simp
    have "(a @ '':'' @ b @ '':'' @ c1) ! 0 \<noteq> CHR ''[''"
      using hd * by (cases a) auto
    then show ?thesis using SplitHostPort_colons [of "a @ '':'' @ b @ '':'' @ c1" c2] c(2) * by simp
  next
    case False
    have "(a @ '':'' @ b) ! 0 \<noteq> CHR ''[''"
      using hd assms(5) by (cases a) auto
    then show ?thesis using SplitHostPort_colons [of "a @ '':'' @ b" c] False assms(5) by simp
  qed
  moreover have "SplitHostPort (bare @ '':47808'') = None"
    using SplitHostPort_colons [of bare "''47808''"] hd assms(5) by simp
  ultimately show "\<exists>s. resolveDeviceAddr resolve bare = resolve s \<and> SplitHostPort s = None"
    by (auto simp: resolveDeviceAddr_def)
next
  show "\<exists>s. resolveDeviceAddr resolve (JoinHostPort host port) = resolve s \<and> SplitHostPort s = Some (host, port)"
    using SplitHostPort_JoinHostPort [OF assms(1-3)] assms(4) by (auto simp: resolveDeviceAddr_def)
next
  assume "CHR '':'' \<notin> set host"
  then have "SplitHostPort host = None" "SplitHostPort (host @ '':47808'') = Some (host, ''47808'')"
    using SplitHostPort_plain [of host "''47808''"] assms(1)
    by (auto simp: SplitHostPort_def LastIndexByte_def IndexByte_def unbracketed_def)
  then show "\<exists>s. resolveDeviceAddr resolve host = resolve s \<and> SplitHostPort s = Some (host, ''47808'')"
    by (auto simp: resolveDeviceAddr_def)
qed

lemma device_address_witness:
  "\<exists>s. resolveDeviceAddr (\<lambda>s. Ok \<lparr>AddrIP = [], AddrPort = length s\<rparr>) ''::1'' = Ok \<lparr>AddrIP = [], AddrPort = length s\<rparr>
    \<and> SplitHostPort s = None"
  using device_address [of "''bms''" "''47808''" "''::1''" "[]" "[]" "''1''"]
  by (simp add: unbracketed_def)

end
