(* ===== verification/System_Theorems.thy ===== *)
theory System_Theorems
  imports Bacnet_Theorems
begin

text \<open>
  The properties of the parts of the BACnet side that keep state: the device (an object store with
  priority arrays behind a packet handler), the client against that device over the wire, and the
  client with many requests at once.
\<close>

section \<open>The device\<close>

lemma handlePacket_device:
  assumes "handlePacket ign d pkt = Ok (d', r)"
  shows "d' = d \<or> (\<exists>t i prop v prio. d' = fst (writeProperty d t i prop v prio))"
  using assms
  by (auto simp: handlePacket_def handleConfirmed_def handleUnconfirmed_def handleReadProperty_def
      handleReadPropertyMultiple_def handleWriteProperty_def dropErr_def res_bind_Ok_iff
      split: if_splits res.splits prod.splits option.splits) (metis fst_conv)+

lemma mapR_no_Err: "(\<And>x e. f x \<noteq> Err e) \<Longrightarrow> mapR f xs \<noteq> Err e"
  by (induction xs arbitrary: e) (auto simp: res_bind_Err_iff)

lemma readSpec_no_Err: "readSpec d spec \<noteq> Err e"
proof -
  have "readReference d oid ref \<noteq> Err e" for oid ref e
    by (simp add: readReference_def split: res.split)
  from mapR_no_Err [of "readReference d (SpecObject spec)", OF this]
  show ?thesis by (auto simp: readSpec_def res_bind_Err_iff)
qed

lemma dropErr_no_Err: "(\<And>x. k x \<noteq> Err e) \<Longrightarrow> dropErr d m k \<noteq> Err e"
  by (cases m) (simp_all add: dropErr_def)

lemma bind_Ok_no_Err: "m \<noteq> Err e \<Longrightarrow> (\<And>x. f x \<noteq> Err e) \<Longrightarrow> res_bind m f \<noteq> Err e"
  by (cases m) simp_all

lemma sendError_no_Err: "sendError i s e \<noteq> Err e'"
  by (simp add: sendError_def EncodeErrorAPDU_eq)

lemma handlers_no_Err:
  "handleReadProperty d apdu \<noteq> Err e" "handleWriteProperty d apdu \<noteq> Err e"
  "handleReadPropertyMultiple d apdu \<noteq> Err e" "handleUnconfirmed ign d apdu \<noteq> Err e"
proof -
  note intros = dropErr_no_Err bind_Ok_no_Err sendError_no_Err mapR_no_Err readSpec_no_Err
  show "handleReadProperty d apdu \<noteq> Err e"
    unfolding handleReadProperty_def EncodeReadPropertyACK_eq
    by (intro dropErr_no_Err) (auto simp: res_bind_Err_iff sendError_no_Err split: res.split)
  show "handleWriteProperty d apdu \<noteq> Err e"
    unfolding handleWriteProperty_def
    by (intro dropErr_no_Err) (auto simp: res_bind_Err_iff sendError_no_Err split: prod.split option.split)
  show "handleReadPropertyMultiple d apdu \<noteq> Err e"
    unfolding handleReadPropertyMultiple_def EncodeReadPropertyMultipleACK_eq
    by (intro intros) simp_all
  show "handleUnconfirmed ign d apdu \<noteq> Err e"
    unfolding handleUnconfirmed_def EncodeIAm_eq
    by (cases "ServiceChoice apdu \<noteq> ServiceUnconfirmedWhoIs \<or> ign") (auto intro!: dropErr_no_Err split: if_splits)
qed

lemma handlePacket_no_Err: "handlePacket ign d pkt \<noteq> Err e"
  unfolding handlePacket_def handleConfirmed_def by (intro dropErr_no_Err) (simp add: handlers_no_Err)

text \<open>
  The device neither panics nor stops, whatever packet it receives; it answers with at most
  one packet, whose APDU fits the 1476 octets it advertises; and it stays well formed (distinct
  objects, sixteen priority slots in every property).
\<close>
lemma device_serves:
  assumes "deviceOk d"
  shows "\<exists>d' r. handlePacket ign d pkt = Ok (d', r) \<and> deviceOk d'
    \<and> (r = None \<or> (\<exists>apdu. r = Some (EncodeUnicastPacket apdu) \<and> length apdu \<le> 1476))"
proof -
  obtain d' r where dr: "handlePacket ign d pkt = Ok (d', r)"
    using handlePacket_no_Err handlePacket_safe [of ign d pkt] by (cases "handlePacket ign d pkt") auto
  moreover have "deviceOk d'"
    using handlePacket_device [OF dr] assms deviceOk_write by auto
  moreover have "r = None \<or> (\<exists>apdu. r = Some (EncodeUnicastPacket apdu) \<and> length apdu \<le> 1476)"
    using dr handlePacket_reply [of ign d pkt d'] by (cases r) (simp_all, metis maxAPDU_def)
  ultimately show ?thesis by blast
qed

lemma device_serves_witness:
  "\<exists>d' r. handlePacket False (NewDevice 7) [] = Ok (d', r) \<and> deviceOk d'"
proof -
  have "handlePacket False (NewDevice 7) [] = Ok (NewDevice 7, None)"
    by (simp add: handlePacket_def dropErr_def DecodeIncomingPacket_def)
  with device_serves [OF deviceOk_NewDevice [of 7], of False "[]"] show ?thesis by auto
qed

text \<open>
  The priority array: after a write at a priority, a read gives the value of the highest
  priority that is set: one above the write's if there is one, otherwise the value written, and
  when the write was a Null the next one below, or the relinquish default. Every other property of
  every object reads as before.
\<close>
lemma read_after_priority_write:
  assumes "deviceOk d" and "map_of (objects d) (objectKey t i) = Some ps" and "map_of ps prop = Some p"
    and "commandable p" and "plist p = None" and "1 \<le> writePriority prio" and "writePriority prio \<le> 16"
    and "prop \<notin> {PropObjectID, PropObjectList}" and "thisInstance d t i = i"
  shows "readProperty (fst (writeProperty d t i prop v prio)) t i prop idx
      = Ok [case firstSet (take (unat (writePriority prio) - 1) (priorities p)) of
              Some w \<Rightarrow> w
            | None \<Rightarrow> if v \<noteq> NullValue then v
                else case firstSet (drop (unat (writePriority prio)) (priorities p)) of
                  Some w \<Rightarrow> w | None \<Rightarrow> val p]
    \<and> (objectKey t' (thisInstance d t' i') \<noteq> objectKey t i \<or> prop' \<noteq> prop
        \<longrightarrow> readProperty (fst (writeProperty d t i prop v prio)) t' i' prop' idx' = readProperty d t' i' prop' idx')"
proof -
  have "Suc (unat (writePriority prio) - 1) = unat (writePriority prio)"
    using assms(6) by (simp add: word_le_nat_alt)
  then show ?thesis
    using read_after_write [OF assms, of v idx] read_other_property [of t' d i' t i prop' "prop" v prio idx']
    by (auto simp: commanded_def split: option.splits Value.splits)
qed

definition demoDevice :: Device where
  "demoDevice = AddObject (NewDevice 7) ObjectAnalogOutput 1 [(PropPresentValue, RealValue 0)]"

lemma demoDevice_ok: "deviceOk demoDevice"
  by (simp add: demoDevice_def deviceOk_NewDevice deviceOk_seed)

lemma demoDevice_objects:
  "map_of (objects demoDevice) (objectKey ObjectAnalogOutput 1)
    = Some [(PropPresentValue, seededProperty ObjectAnalogOutput PropPresentValue (RealValue 0))]"
  by (simp add: demoDevice_def AddObject_def NewDevice_def)

lemma firstSet_replicate [simp]: "firstSet (replicate n None) = None"
  by (induction n) auto

lemma read_after_priority_write_witness:
  "readProperty (fst (writeProperty demoDevice ObjectAnalogOutput 1 PropPresentValue (RealValue 5) (Some 8)))
      ObjectAnalogOutput 1 PropPresentValue None = Ok [RealValue 5]"
proof -
  let ?p = "seededProperty ObjectAnalogOutput PropPresentValue (RealValue 0)"
  have p: "commandable ?p" "plist ?p = None" "priorities ?p = (replicate 16 None)[15 := Some (RealValue 0)]"
    by (simp_all add: seededProperty_def plainProperty_def Commandable_def)
  have inst: "thisInstance demoDevice ObjectAnalogOutput 1 = 1"
    by (simp add: thisInstance_def Object_defs)
  have prio: "1 \<le> writePriority (Some 8)" "writePriority (Some 8) \<le> 16" "unat (writePriority (Some 8)) = 8"
    by (simp_all add: writePriority_def)
  have found: "map_of [(PropPresentValue, ?p)] PropPresentValue = Some ?p"
    by simp
  show ?thesis
    using read_after_priority_write [OF demoDevice_ok demoDevice_objects found p(1,2) prio(1,2) _ inst,
        where v = "RealValue 5"] p(3) prio(3)
    by (simp add: Prop_defs)
qed

text \<open>
  The device's object list names exactly its objects, each once and in order; element 0 of the
  array is its length, element \<open>n\<close> its \<open>n\<close>-th entry, and any other index an error.
\<close>
lemma object_list_reads:
  assumes "deviceOk d"
  shows "\<exists>ks. sorted ks \<and> distinct ks \<and> set ks = dom (map_of (objects d))
    \<and> readProperty d ObjectDevice (devInstance d) PropObjectList None
      = Ok (map (\<lambda>k. ObjectIDValue (keyObject k)) ks)
    \<and> (\<forall>n. readProperty d ObjectDevice (devInstance d) PropObjectList (Some n) =
        (if n = 0 then Ok [UnsignedValue (word_of_nat (length ks))]
         else if unat n \<le> length ks then Ok [ObjectIDValue (keyObject (ks ! (unat n - 1)))]
         else Err (bacnetErr ErrorClassProperty ErrorCodeInvalidArrayIndex)))"
proof -
  obtain ks where ks: "objectList d = map (\<lambda>k. ObjectIDValue (keyObject k)) ks" "sorted ks" "distinct ks"
      "set ks = dom (map_of (objects d))"
    using assms by (rule objectList_correct)
  have inst: "thisInstance d ObjectDevice (devInstance d) = devInstance d"
    by (simp add: thisInstance_def)
  have element: "slice (map f ks) (unat (n - 1)) (unat n) = Ok [f (ks ! (unat n - 1))]"
    if "n \<noteq> 0" "unat n \<le> length ks" for n :: u32 and f :: "objectKey \<Rightarrow> Value"
  proof -
    have k: "unat n - 1 < length ks" "unat n - (unat n - 1) = 1"
      using that unat_pos [OF that(1)] by auto
    then have "take 1 (drop (unat n - 1) ks) = [ks ! (unat n - 1)]"
      using Cons_nth_drop_Suc [OF k(1)] by (metis One_nat_def take0 take_Suc_Cons)
    then have "take 1 (drop (unat n - 1) (map f ks)) = [f (ks ! (unat n - 1))]"
      by (simp add: drop_map take_map)
    with that k show ?thesis by (simp add: slice_def unat_pred)
  qed
  show ?thesis
    using ks element by (intro exI [of _ ks]) (auto simp: readProperty_def inst Let_def)
qed

lemma object_list_reads_witness:
  "\<exists>ks. sorted ks \<and> set ks = dom (map_of (objects (NewDevice 7)))
    \<and> readProperty (NewDevice 7) ObjectDevice (devInstance (NewDevice 7)) PropObjectList None
      = Ok (map (\<lambda>k. ObjectIDValue (keyObject k)) ks)"
  using object_list_reads [OF deviceOk_NewDevice [of 7]] by (auto simp: NewDevice_def)

section \<open>The client against the device\<close>

text \<open>
  C19. Reading a property with the client returns what the device's object store holds: its values,
  its error, or the abort when the values do not fit one packet.
\<close>
theorem read_end_to_end:
  assumes "pending c j = None" and "wireObject (Object r)" and "wireStore d"
    and "resolveDeviceAddr resolve host = Ok addr"
  shows "ReadProperty resolve (deviceRequest d c ch) host (Object r) (Property r) (ArrayIndex r)
    = (case readProperty d (Type (Object r)) (Instance (Object r)) (Property r) (ArrayIndex r) of
         Ok vs \<Rightarrow>
           if 3 + length (ackBytes (ackOf r vs)) > 1476 then Err (AbortErr AbortReasonSegmentationNotSupported)
           else Ok vs
       | Err e \<Rightarrow> Err (BACnetErr e)
       | Panic \<Rightarrow> Panic)"
  unfolding maxAPDU_def [symmetric] by (simp only: readProperty_end_to_end [OF assms] readOutcome_def)

text \<open>
  C20. Writing with the client changes the device exactly as the device's own write does, and
  reports success or the device's error.
\<close>
theorem write_end_to_end:
  assumes "pending c j = None" and "wireObject obj" and "wirePrimitive v"
    and "resolveDeviceAddr resolve host = Ok addr"
    and "EncodeWritePropertyRequest \<lparr>Property = pr, ArrayIndex = None, Object = obj, WriteValue = v, Priority = prio\<rparr> = Ok params"
    and "length params < 65500"
  shows "WriteProperty resolve (deviceRequest d c ch) host obj pr v prio
      = (case snd (writeProperty d (Type obj) (Instance obj) pr v prio) of None \<Rightarrow> Ok () | Some e \<Rightarrow> Err (BACnetErr e))
    \<and> (\<exists>reply. exchange d c ch addr ServiceConfirmedWriteProperty params
        = Ok (fst (writeProperty d (Type obj) (Instance obj) pr v prio), reply))"
proof -
  have "params = writeBytes \<lparr>Property = pr, ArrayIndex = None, Object = obj, WriteValue = v, Priority = prio\<rparr>"
    using assms(5) by (simp add: EncodeWritePropertyRequest_eq)
  then show ?thesis
    using writeProperty_end_to_end [OF assms(1-4), of pr prio d] assms(6)
    by (metis (no_types, lifting) prod.collapse)
qed

lemma wireStore_demo: "wireStore (NewDevice 7)"
proof -
  have text_ok: "wirePrimitive (CharStringValue s)" if "s \<in> {''mock-device'', ''bacnet-ip-rest-proxy mock''}" for s
  proof -
    have "\<forall>b \<in> set (bytesOf s). b < 0x80"
      using that by (auto simp: bytesOf_def byte_of_char_def)
    then show ?thesis
      using that validUTF8_ascii by (auto simp: wirePrimitive_def)
  qed
  have prim: "wirePrimitive v \<Longrightarrow> wireValue maxNesting v" for v
    by (cases v) (simp_all add: wirePrimitive_def)
  have oid: "wirePrimitive (ObjectIDValue \<lparr>Type = ObjectDevice, Instance = 7\<rparr>)"
    by (simp add: wirePrimitive_def wireObject_def Object_defs)
  have number: "wirePrimitive (UnsignedValue n)" for n
    by (simp add: wirePrimitive_def)
  have olist: "objectList (NewDevice 7) = [ObjectIDValue \<lparr>Type = ObjectDevice, Instance = 7\<rparr>]"
    by (simp add: objectList_def NewDevice_def keyObject_def)
  have elem: "slice (objectList (NewDevice 7)) a b = Ok vs \<Longrightarrow> set vs \<subseteq> set (objectList (NewDevice 7))" for a b vs
    by (auto simp: slice_def split: if_splits dest!: in_set_takeD in_set_dropD)
  have objs: "k = objectKey ObjectDevice 7 \<and> (map_of ps pr = Some p \<longrightarrow>
      p \<in> {plainProperty (CharStringValue ''mock-device''), plainProperty (CharStringValue ''bacnet-ip-rest-proxy mock'')})"
    if "map_of (objects (NewDevice 7)) k = Some ps" for k ps pr p
    using that by (auto simp: NewDevice_def split: if_splits)
  have "set vs \<subseteq> {ObjectIDValue \<lparr>Type = ObjectDevice, Instance = 7\<rparr>} \<union> range UnsignedValue
      \<union> {CharStringValue ''mock-device'', CharStringValue ''bacnet-ip-rest-proxy mock''}"
    if r: "readProperty (NewDevice 7) t i pr idx = Ok vs" for t i pr idx vs
  proof (cases "t = ObjectDevice \<and> thisInstance (NewDevice 7) t i = devInstance (NewDevice 7) \<and> pr = PropObjectList")
    case True
    with r elem [of _ _ vs] show ?thesis
      by (auto simp: readProperty_def Let_def olist split: if_splits option.splits)
  next
    case False
    then obtain ps where ps: "map_of (objects (NewDevice 7)) (objectKey t (thisInstance (NewDevice 7) t i)) = Some ps"
      using r by (auto simp: readProperty_def Let_def split: option.splits)
    then have key: "t = ObjectDevice" "thisInstance (NewDevice 7) t i = 7"
      using objs [OF ps] by blast+
    have props: "p \<in> {plainProperty (CharStringValue ''mock-device''), plainProperty (CharStringValue ''bacnet-ip-rest-proxy mock'')}"
      if "map_of ps pr = Some p" for p
      using objs [OF ps] that by blast
    from False r ps key show ?thesis
      by (auto simp: readProperty_def Let_def effectiveValue_def plainProperty_def
          split: if_splits option.splits dest!: props)
  qed
  then have "list_all wirePrimitive vs" if "readProperty (NewDevice 7) t i pr idx = Ok vs" for t i pr idx vs
    unfolding list_all_iff using that text_ok oid number by blast
  with prim show ?thesis
    unfolding wireStore_def list_all_iff by blast
qed

lemma read_end_to_end_witness:
  "ReadProperty (\<lambda>_. Ok \<lparr>AddrIP = [10, 0, 0, 9], AddrPort = 47808\<rparr>) (deviceRequest (NewDevice 7) newClient 0)
      ''10.0.0.9'' \<lparr>Type = 8, Instance = 7\<rparr> PropObjectList (Some 2)
    = Err (BACnetErr (bacnetErr ErrorClassProperty ErrorCodeInvalidArrayIndex))"
proof -
  let ?r = "\<lparr>Property = PropObjectList, ArrayIndex = Some 2, Object = \<lparr>Type = 8, Instance = 7\<rparr>\<rparr>"
  have "readProperty (NewDevice 7) 8 7 PropObjectList (Some 2) = Err (bacnetErr ErrorClassProperty ErrorCodeInvalidArrayIndex)"
    by (simp add: readProperty_def Let_def thisInstance_def NewDevice_def objectList_def ObjectDevice_def
        DeviceInstanceWildcard_def)
  then show ?thesis
    using read_end_to_end [of newClient 0 ?r, OF _ _ wireStore_demo, where ch = 0 and host = "''10.0.0.9''"
        and resolve = "\<lambda>_. Ok \<lparr>AddrIP = [10, 0, 0, 9], AddrPort = 47808\<rparr>"]
    by (simp add: newClient_def wireObject_def resolveDeviceAddr_def split: option.split)
qed

lemma write_end_to_end_witness:
  "WriteProperty (\<lambda>_. Ok \<lparr>AddrIP = [10, 0, 0, 9], AddrPort = 47808\<rparr>) (deviceRequest demoDevice newClient 0)
      ''10.0.0.9'' \<lparr>Type = 1, Instance = 1\<rparr> PropPresentValue (RealValue 5) (Some 8) = Ok ()"
proof -
  let ?w = "\<lparr>Property = PropPresentValue, ArrayIndex = None, Object = \<lparr>Type = 1, Instance = 1\<rparr>,
     WriteValue = RealValue 5, Priority = Some 8\<rparr>"
  have "length (writeBytes ?w) = 16"
    by code_simp
  then have len: "length (writeBytes ?w) < 65500"
    by simp
  have ok: "snd (writeProperty demoDevice 1 1 PropPresentValue (RealValue 5) (Some 8)) = None"
    using demoDevice_objects
    by (simp add: writeProperty_ok ObjectAnalogOutput_def writePriority_def seededProperty_def Commandable_def)
  show ?thesis
    using write_end_to_end [where c = newClient and j = 0 and obj = "\<lparr>Type = 1, Instance = 1\<rparr>"
        and v = "RealValue 5" and pr = PropPresentValue and prio = "Some 8" and host = "''10.0.0.9''"
        and d = demoDevice and ch = 0 and params = "writeBytes ?w"
        and resolve = "\<lambda>_. Ok \<lparr>AddrIP = [10, 0, 0, 9], AddrPort = 47808\<rparr>"] len ok
    by (simp add: newClient_def wireObject_def wirePrimitive_def resolveDeviceAddr_def
        EncodeWritePropertyRequest_eq split: option.split)
qed

section \<open>Many requests at once\<close>

text \<open>
  C2. A request that returned a reply returned one that was sent to it: a packet received after
  the request was registered, from the address it went to, with its invoke ID and, unless it is a
  Reject or Abort, its service. This holds in every interleaving of requests, timeouts and
  packets, also when invoke IDs are reused.
\<close>
theorem reply_belongs_to_request:
  assumes "reachable retries s" and "reqs s r = Some q" and "rPhase q = Done (Ok apdu)"
  shows "\<exists>pkt from. (pkt, from) \<in> set (drop (rSince q) (arrived s))
    \<and> DecodeIncomingPacket pkt = Ok apdu \<and> InvokeID apdu = rInvoke q
    \<and> IPEqual (AddrIP (rAddr q)) (AddrIP from)
    \<and> (PduType apdu \<in> {PDUReject, PDUAbort} \<or> ServiceChoice apdu = rService q)"
  using inv_result [OF reachable_inv [OF assms(1)] assms(2), of apdu] assms(3)
  by (force simp: resultIs_def ownReply_def answers_def entryOf_def)

definition demoAddr :: UDPAddr where
  "demoAddr = \<lparr>AddrIP = [10, 0, 0, 9], AddrPort = 47808\<rparr>"

definition demoReq :: "phase \<Rightarrow> Req" where
  "demoReq p = \<lparr>rAddr = demoAddr, rService = 15, rInvoke = 0, rSince = 0, rPhase = p\<rparr>"

definition demoReply :: APDU where
  "demoReply = (newAPDU PDUSimpleACK)\<lparr>InvokeID := 0, ServiceChoice := 15\<rparr>"

text \<open>A run of one write request, up to its return.\<close>

lemma demo_run: "\<exists>s. reachable 0 s \<and> reqs s = [0 \<mapsto> demoReq (Done (Ok demoReply))]"
proof -
  let ?e = "\<lparr>ReqTo = demoAddr, ReqService = 15, ReqCh = 0\<rparr>"
  have "snd (registerRequest newClient 0 demoAddr 15) = Ok 0"
      "pending (fst (registerRequest newClient 0 demoAddr 15)) = [0 \<mapsto> ?e]"
      "replies (fst (registerRequest newClient 0 demoAddr 15)) = (\<lambda>_. None)"
    by (simp_all add: registerRequest_def newClient_def findInvokeID.simps(2) [of 255, simplified] fun_upd_idem)
  then obtain c where c: "registerRequest newClient 0 demoAddr 15 = (c, Ok 0)" "pending c = [0 \<mapsto> ?e]"
      "replies c = (\<lambda>_. None)"
    by (metis prod.collapse)
  let ?s1 = "\<lparr>cl = c, reqs = [0 \<mapsto> demoReq (Sending 0)], arrived = []\<rparr>"
  let ?pkt = "EncodeUnicastPacket (EncodeSimpleACKAPDU 0 15)"
  have s1: "reachable 0 ?s1"
    using reachable.continue [OF reachable.start step.register [where addr = demoAddr and svc = 15 and c' = c and i = 0 and r = 0]] c(1)
    by (simp add: initSys_def demoReq_def)
  have s2: "reachable 0 (setPhase ?s1 0 (demoReq (Sending 0)) (Waiting 0))" (is "reachable 0 ?s2")
    using reachable.continue [OF s1 step.sent] by (simp add: demoReq_def)
  have pkt: "DecodeIncomingPacket ?pkt = Ok demoReply"
    using DecodeIncomingPacket_roundtrip [of "EncodeSimpleACKAPDU 0 15"] DecodeAPDU_roundtrip(3)
    by (simp add: EncodeSimpleACKAPDU_def demoReply_def)
  have "handleIncoming c ?pkt demoAddr = Ok (deliverReply c 0 demoReply)"
    using handleIncoming_delivers [OF pkt, of c ?e demoAddr] c(2)
    by (simp add: demoReply_def newAPDU_def answers_def replyType_def)
  then have s3: "reachable 0 (?s2\<lparr>cl := deliverReply c 0 demoReply, arrived := [(?pkt, demoAddr)]\<rparr>)" (is "reachable 0 ?s3")
    using reachable.continue [OF s2 step.received] by (simp add: setPhase_def)
  have s4: "reachable 0 (setPhase (?s3\<lparr>cl := takeReply (cl ?s3) 0\<rparr>) 0 (demoReq (Waiting 0)) (Leaving (Ok demoReply)))"
      (is "reachable 0 ?s4")
    using reachable.continue [OF s3 step.took [where r = 0 and q = "demoReq (Waiting 0)" and a = 0 and apdu = demoReply]] c(3)
    by (simp add: setPhase_def deliverReply_def demoReq_def)
  have "\<exists>s. reachable 0 s \<and> reqs s = (reqs ?s4)(0 \<mapsto> (demoReq (Leaving (Ok demoReply)))\<lparr>rPhase := Done (Ok demoReply)\<rparr>)"
    using reachable.continue [OF s4 step.released [of _ 0 "demoReq (Leaving (Ok demoReply))"]]
    by (auto simp: setPhase_def demoReq_def)
  then show ?thesis
    by (simp add: setPhase_def demoReq_def)
qed

lemma reply_belongs_to_request_witness:
  "\<exists>s pkt from. reachable 0 s \<and> reqs s 0 = Some (demoReq (Done (Ok demoReply)))
    \<and> (pkt, from) \<in> set (arrived s) \<and> DecodeIncomingPacket pkt = Ok demoReply"
proof -
  obtain s where s: "reachable 0 s" "reqs s 0 = Some (demoReq (Done (Ok demoReply)))"
    using demo_run by auto
  with reply_belongs_to_request [OF s] show ?thesis
    by (auto simp: demoReq_def)
qed

text \<open>
  C16. Outstanding requests hold distinct invoke IDs, the table has exactly their entries, and once
  every request has returned it is empty again: no invoke ID leaks.
\<close>
theorem invoke_ids_in_use:
  assumes "reachable retries s"
  shows "(\<forall>i p. pending (cl s) i = Some p
      \<longleftrightarrow> (\<exists>r q. reqs s r = Some q \<and> (\<nexists>res. rPhase q = Done res) \<and> rInvoke q = i
            \<and> p = \<lparr>ReqTo = rAddr q, ReqService = rService q, ReqCh = r\<rparr>))
    \<and> (\<forall>r r' q q'. reqs s r = Some q \<and> reqs s r' = Some q' \<and> (\<nexists>res. rPhase q = Done res)
        \<and> (\<nexists>res. rPhase q' = Done res) \<and> rInvoke q = rInvoke q' \<longrightarrow> r = r')
    \<and> ((\<forall>r q. reqs s r = Some q \<longrightarrow> (\<exists>res. rPhase q = Done res)) \<longrightarrow> pending (cl s) = Map.empty)"
proof (intro conjI allI impI)
  have holds: "holdsID q \<longleftrightarrow> (\<nexists>res. rPhase q = Done res)" for q
    by (simp add: holdsID_def split: phase.split)
  note inv = reachable_inv [OF assms]
  show "pending (cl s) i = Some p
      \<longleftrightarrow> (\<exists>r q. reqs s r = Some q \<and> (\<nexists>res. rPhase q = Done res) \<and> rInvoke q = i
            \<and> p = \<lparr>ReqTo = rAddr q, ReqService = rService q, ReqCh = r\<rparr>)" for i p
    using inv unfolding inv_def tableOk_def heldOk_def entryOf_def holds by blast
  show "r = r'" if "reqs s r = Some q \<and> reqs s r' = Some q' \<and> (\<nexists>res. rPhase q = Done res)
      \<and> (\<nexists>res. rPhase q' = Done res) \<and> rInvoke q = rInvoke q'" for r r' q q'
    using distinct_ids [OF inv] that by (auto simp: holds)
  show "pending (cl s) = Map.empty" if "\<forall>r q. reqs s r = Some q \<longrightarrow> (\<exists>res. rPhase q = Done res)"
    using no_leak [OF inv] that by blast
qed

lemma invoke_ids_in_use_witness:
  "\<exists>s. reachable 0 s \<and> reqs s 0 = Some (demoReq (Done (Ok demoReply))) \<and> pending (cl s) = Map.empty"
proof -
  obtain s where s: "reachable 0 s" "reqs s = [0 \<mapsto> demoReq (Done (Ok demoReply))]"
    using demo_run by auto
  have "\<forall>r q. reqs s r = Some q \<longrightarrow> (\<exists>res. rPhase q = Done res)"
    by (auto simp: s(2) demoReq_def split: if_splits)
  then have "pending (cl s) = Map.empty"
    using invoke_ids_in_use [OF s(1)] by blast
  with s show ?thesis by auto
qed

end
