(* ===== verification/Bacnet_Timing.thy ===== *)
theory Bacnet_Timing
  imports Bacnet_Requests
begin

text \<open>
  The clock of a confirmed request (\<^verbatim>\<open>doConfirmedRequest\<close> of \<^verbatim>\<open>internal/bacnet/client.go\<close>): when
  the three things that an attempt waits for are due, and which of them it can end with when a timer
  may be late. The lemmas say when the loop gets to its retries and when it cannot.
\<close>

section \<open>What an attempt waits for\<close>

text \<open>
  The client's timeout of one attempt, the deadline of the context, when each attempt begins to wait,
  the reply that arrives on the channel, if one does, and how late the runtime may be: a timer never
  fires before its time, and what is due reaches the \<^verbatim>\<open>select\<close> within the latency.
\<close>

record Clock =
  ck_timeout :: int
  ck_deadline :: "int option"
  ck_begin :: "nat \<Rightarrow> int"
  ck_reply :: "(int \<times> APDU) option"
  ck_latency :: int

text \<open>When each case of the \<^verbatim>\<open>select\<close> is due. A send that fails comes before the waiting.\<close>

fun dueAt :: "Clock \<Rightarrow> nat \<Rightarrow> attemptEvent \<Rightarrow> int option" where
  "dueAt C k SendFails = None"
| "dueAt C k (Answer apdu) =
    (case ck_reply C of None \<Rightarrow> None | Some (t, a) \<Rightarrow> if a = apdu then Some t else None)"
| "dueAt C k TimesOut = Some (ck_begin C k + ck_timeout C)"
| "dueAt C k CtxDone = ck_deadline C"

text \<open>
  The attempt ends with \<open>ev\<close> at \<open>t\<close>: \<open>ev\<close> is due by then, and no case has been due for longer than
  the latency while the attempt waits. Of several cases that are due, any may be taken.
\<close>

definition endsWith :: "Clock \<Rightarrow> nat \<Rightarrow> attemptEvent \<Rightarrow> int \<Rightarrow> bool" where
  "endsWith C k ev t \<longleftrightarrow> ck_begin C k \<le> t
    \<and> (ev = SendFails \<or> (\<exists>d. dueAt C k ev = Some d \<and> d \<le> t)
        \<and> (\<forall>ev' d'. dueAt C k ev' = Some d' \<longrightarrow> t \<le> max (ck_begin C k) d' + ck_latency C))"

text \<open>What happens in the attempts of a request, each of which begins when the one before has ended.\<close>

definition timed :: "Clock \<Rightarrow> (nat \<Rightarrow> attemptEvent) \<Rightarrow> bool" where
  "timed C env \<longleftrightarrow> (\<forall>k. \<exists>t. endsWith C k (env k) t \<and> t \<le> ck_begin C (k + 1))"

text \<open>How many packets a request sends, or tries to.\<close>

function sends :: "(nat \<Rightarrow> attemptEvent) \<Rightarrow> nat \<Rightarrow> nat \<Rightarrow> nat" where
  "sends env retries attempt =
    (if attempt \<le> retries then 1 + (if env attempt = TimesOut then sends env retries (attempt + 1) else 0) else 0)"
  by pat_completeness auto
termination
  by (relation "measure (\<lambda>(env, retries, attempt). retries + 1 - attempt)") auto

declare sends.simps [simp del]

section \<open>Deadlines and retries\<close>

lemma timed_ends:
  assumes "timed C env"
  obtains t where "endsWith C k (env k) t" and "t \<le> ck_begin C (k + 1)"
  using assms unfolding timed_def by blast

text \<open>An attempt that begins when the context has ended does not wait for its timer.\<close>

lemma no_timeout_after:
  assumes "timed C env" and "ck_deadline C = Some d" and "d \<le> ck_begin C k" and "ck_latency C < ck_timeout C"
  shows "env k \<noteq> TimesOut"
proof
  assume late: "env k = TimesOut"
  obtain t where t: "endsWith C k (env k) t" by (rule timed_ends [OF assms(1)])
  then have "ck_begin C k + ck_timeout C \<le> t" using late by (simp add: endsWith_def)
  moreover from t late have "t \<le> max (ck_begin C k) d + ck_latency C"
    using assms(2) by (auto simp: endsWith_def dest!: spec [of _ CtxDone])
  ultimately show False using assms(3,4) by simp
qed

text \<open>
  A context that ends one timeout after its start is over when the first attempt has timed out. So
  whatever the network does, the request is the same as one of a client with a single retry, and if
  there may be retries it never ends in the client's own timeout.
\<close>

lemma second_attempt:
  assumes "timed C env" and "ck_deadline C = Some (start + ck_timeout C)" and "start \<le> ck_begin C 0"
    and "ck_latency C < ck_timeout C" and "env 0 = TimesOut"
  shows "env 1 \<noteq> TimesOut"
proof (rule no_timeout_after [OF assms(1,2) _ assms(4)])
  obtain t where "endsWith C 0 (env 0) t" "t \<le> ck_begin C 1" using timed_ends [OF assms(1), of 0] by auto
  with assms(5,3) show "start + ck_timeout C \<le> ck_begin C 1" by (simp add: endsWith_def)
qed

lemma deadline_first:
  assumes "timed C env" and "ck_deadline C = Some (start + ck_timeout C)" and "start \<le> ck_begin C 0"
    and "ck_latency C < ck_timeout C" and "1 \<le> retries"
  shows "attempts env retries 0 = attempts env 1 0" and "attempts env retries 0 \<noteq> Err (Wrap ''request'' ErrTimeout)"
    and "sends env retries 0 \<le> 2"
proof -
  have "env 0 = TimesOut \<longrightarrow> env (Suc 0) \<noteq> TimesOut" using second_attempt [OF assms(1-4)] by simp
  with assms(5) show "attempts env retries 0 = attempts env 1 0" "attempts env retries 0 \<noteq> Err (Wrap ''request'' ErrTimeout)"
    "sends env retries 0 \<le> 2"
    by (auto simp: attempts.simps [of _ _ 0] attempts.simps [of _ _ "Suc 0"]
        sends.simps [of _ _ 0] sends.simps [of _ _ "Suc 0"] split: attemptEvent.split)
qed

text \<open>What a peer that never answers looks like.\<close>

lemma silent_events:
  assumes "timed C env" and "ck_reply C = None" and "env k \<noteq> SendFails"
  shows "env k = TimesOut \<or> env k = CtxDone"
proof -
  obtain t where "endsWith C k (env k) t" by (rule timed_ends [OF assms(1)])
  with assms(2,3) show ?thesis by (cases "env k") (auto simp: endsWith_def)
qed

lemma silent_deadline:
  assumes "timed C env" and "ck_deadline C = Some (start + ck_timeout C)" and "start \<le> ck_begin C 0"
    and "ck_latency C < ck_timeout C" and "1 \<le> retries" and "ck_reply C = None" and "\<forall>k. env k \<noteq> SendFails"
  shows "attempts env retries 0 = Err ContextError"
proof -
  note silent_events [OF assms(1,6)]
  with assms(7) second_attempt [OF assms(1-4)] have "env 0 = CtxDone \<or> env 0 = TimesOut \<and> env 1 = CtxDone" by blast
  with assms(5) show ?thesis by (auto simp: attempts.simps [of _ _ 0] attempts.simps [of _ _ "Suc 0"])
qed

text \<open>A context that outlives every attempt, and the latency, lets the loop make them all.\<close>

definition outlives :: "Clock \<Rightarrow> nat \<Rightarrow> bool" where
  "outlives C retries \<longleftrightarrow>
    (case ck_deadline C of None \<Rightarrow> True | Some d \<Rightarrow> \<forall>k \<le> retries. ck_begin C k + ck_timeout C + ck_latency C < d)"

lemma sends_all: "(\<And>j. k \<le> j \<Longrightarrow> j \<le> retries \<Longrightarrow> env j = TimesOut) \<Longrightarrow> sends env retries k = retries + 1 - k"
proof (induction env retries k rule: sends.induct)
  case (1 env retries k)
  show ?case
  proof (cases "k \<le> retries")
    case True
    then have "env k = TimesOut" using 1(2) by simp
    with True 1 show ?thesis by (subst sends.simps) simp
  qed (subst sends.simps, simp)
qed

lemma silent_outlived:
  assumes "timed C env" and "outlives C retries" and "0 \<le> ck_timeout C"
    and "ck_reply C = None" and "\<forall>k. env k \<noteq> SendFails"
  shows "attempts env retries 0 = Err (Wrap ''request'' ErrTimeout)" and "sends env retries 0 = retries + 1"
proof -
  have timeout: "env k = TimesOut" if "k \<le> retries" for k
  proof (rule ccontr)
    assume "env k \<noteq> TimesOut"
    with silent_events [OF assms(1,4)] assms(5) have ctx: "env k = CtxDone" by blast
    obtain t where t: "endsWith C k (env k) t" by (rule timed_ends [OF assms(1)])
    with ctx obtain d where d: "ck_deadline C = Some d" "d \<le> t" by (auto simp: endsWith_def)
    from t ctx have "t \<le> max (ck_begin C k) (ck_begin C k + ck_timeout C) + ck_latency C"
      by (auto simp: endsWith_def dest!: spec [of _ TimesOut])
    with d assms(2,3) that show False by (auto simp: outlives_def)
  qed
  then show "attempts env retries 0 = Err (Wrap ''request'' ErrTimeout)" "sends env retries 0 = retries + 1"
    using attempts_timeout [of 0 retries env] sends_all [of 0 retries env] by auto
qed

end
