(* ===== verification/Bacnet_Runs.thy ===== *)
theory Bacnet_Runs
  imports System_Theorems Bacnet_Timing
begin

text \<open>
  Whole runs of a client with many requests: that every request returns, after how many steps, and
  that what it returns, and how often it sends, is what the sequential retry loop makes of the
  events that befell the request in the run.
\<close>

section \<open>The steps of one request\<close>

text \<open>How many steps of its own a request has left at most.\<close>

definition stepsLeft :: "nat \<Rightarrow> phase \<Rightarrow> nat" where
  "stepsLeft retries p = (case p of
     Sending a \<Rightarrow> 2 * (retries - a) + 3
   | Waiting a \<Rightarrow> 2 * (retries - a) + 2
   | Leaving _ \<Rightarrow> 1
   | Done _ \<Rightarrow> 0)"

lemma stepsLeft_simps [simp]:
  "stepsLeft retries (Sending a) = 2 * (retries - a) + 3" "stepsLeft retries (Waiting a) = 2 * (retries - a) + 2"
  "stepsLeft retries (Leaving res) = 1" "stepsLeft retries (Done res) = 0"
  by (simp_all add: stepsLeft_def)

lemma stepsLeft_bounds:
  "stepsLeft retries p \<le> 2 * retries + 3" "stepsLeft retries p = 0 \<longleftrightarrow> (\<exists>res. p = Done res)"
  by (cases p; simp)+

text \<open>What a step does to a request that exists: nothing, or one of the request's own steps.\<close>

inductive ownStep :: "nat \<Rightarrow> phase \<Rightarrow> phase \<Rightarrow> bool" for retries :: nat where
  "ownStep retries (Sending a) (Waiting a)"
| "ownStep retries (Sending a) (Leaving (Err (Wrap ''bacnet: send'' SystemError)))"
| "ownStep retries (Waiting a) (Leaving (Ok apdu))"
| "a + 1 \<le> retries \<Longrightarrow> ownStep retries (Waiting a) (Sending (a + 1))"
| "\<not> a + 1 \<le> retries \<Longrightarrow> ownStep retries (Waiting a) (Leaving (Err (Wrap ''request'' ErrTimeout)))"
| "ownStep retries (Waiting a) (Leaving (Err ContextError))"
| "ownStep retries (Leaving res) (Done res)"

lemma step_own:
  assumes "step retries s s'" and "reqs s r = Some q"
  obtains "reqs s' r = Some q" | p where "reqs s' r = Some (q\<lparr>rPhase := p\<rparr>)" "ownStep retries (rPhase q) p"
proof -
  from assms have "reqs s' r = Some q \<or> (\<exists>p. reqs s' r = Some (q\<lparr>rPhase := p\<rparr>) \<and> ownStep retries (rPhase q) p)"
    by cases (auto simp: setPhase_def ownStep.simps)
  then show ?thesis using that by blast
qed

lemma step_new:
  assumes "step retries s s'" and "reqs s r = None" and "reqs s' r = Some q"
  shows "rPhase q = Sending 0"
  using assms by cases (auto simp: setPhase_def split: if_splits)

lemma ownStep_less: "ownStep retries p p' \<Longrightarrow> stepsLeft retries p' < stepsLeft retries p"
  by (induction rule: ownStep.induct) auto

text \<open>A request that has not returned has a step of its own.\<close>

lemma step_enabled:
  assumes "reqs s r = Some q" and "\<nexists>res. rPhase q = Done res"
  shows "\<exists>s'. step retries s s' \<and> reqs s' r \<noteq> reqs s r"
proof (cases "rPhase q")
  case (Sending a)
  with step.sent [OF assms(1) this] show ?thesis
    by (intro exI [of _ "setPhase s r q (Waiting a)"]) (auto simp: setPhase_def assms(1) dest: arg_cong [of _ _ rPhase])
next
  case (Waiting a)
  with step.cancelled [OF assms(1) this] show ?thesis
    by (intro exI [of _ "setPhase s r q (Leaving (Err ContextError))"])
      (auto simp: setPhase_def assms(1) dest: arg_cong [of _ _ rPhase])
next
  case (Leaving res)
  with step.released [OF assms(1) this] show ?thesis
    by (intro exI conjI) (assumption, auto simp: setPhase_def assms(1) dest: arg_cong [of _ _ rPhase])
qed (use assms(2) in blast)

section \<open>Runs\<close>

text \<open>A run of the client, from its start, that goes on for ever or for \<open>n\<close> steps.\<close>

definition endless :: "nat \<Rightarrow> (nat \<Rightarrow> Sys) \<Rightarrow> bool" where
  "endless retries f \<longleftrightarrow> f 0 = initSys \<and> (\<forall>i. step retries (f i) (f (i + 1)))"

definition runUpTo :: "nat \<Rightarrow> nat \<Rightarrow> (nat \<Rightarrow> Sys) \<Rightarrow> bool" where
  "runUpTo retries n f \<longleftrightarrow> f 0 = initSys \<and> (\<forall>i<n. step retries (f i) (f (i + 1)))"

definition returned :: "Sys \<Rightarrow> nat \<Rightarrow> bool" where
  "returned s r \<longleftrightarrow> (\<exists>q res. reqs s r = Some q \<and> rPhase q = Done res)"

text \<open>
  The steps that change a request, without its registration; and that a request's goroutine, its
  timer included, is not left waiting for ever.
\<close>

definition ownSteps :: "(nat \<Rightarrow> Sys) \<Rightarrow> nat \<Rightarrow> nat set" where
  "ownSteps f r = {i. reqs (f i) r \<noteq> None \<and> reqs (f (i + 1)) r \<noteq> reqs (f i) r}"

definition scheduled :: "(nat \<Rightarrow> Sys) \<Rightarrow> nat \<Rightarrow> bool" where
  "scheduled f r \<longleftrightarrow> (\<forall>i. reqs (f i) r \<noteq> None \<and> \<not> returned (f i) r \<longrightarrow> (\<exists>j \<ge> i. j \<in> ownSteps f r))"

lemma run_reachable: "runUpTo retries n f \<Longrightarrow> m \<le> n \<Longrightarrow> reachable retries (f m)"
  by (induction m) (auto simp: runUpTo_def intro: reachable.intros)

section \<open>Every request returns\<close>

lemma stays:
  assumes "step retries s s'" and "reqs s r = Some q"
  shows "\<exists>q'. reqs s' r = Some q' \<and> stepsLeft retries (rPhase q') + of_bool (reqs s' r \<noteq> reqs s r) \<le> stepsLeft retries (rPhase q)"
proof (rule step_own [OF assms])
  fix p assume "reqs s' r = Some (q\<lparr>rPhase := p\<rparr>)" "ownStep retries (rPhase q) p"
  then show ?thesis using ownStep_less [of retries "rPhase q" p] by (auto simp: of_bool_def)
qed (simp add: assms(2))

lemma finite_card_bounded:
  assumes "\<And>n. card {i \<in> A. i < (n :: nat)} \<le> b"
  shows "finite A \<and> card A \<le> b"
proof -
  have small: "card F \<le> b" if F: "finite F" "F \<subseteq> A" for F
  proof -
    from F(1) obtain n where "\<forall>i \<in> F. i < n" using finite_nat_set_iff_bounded by blast
    with F(2) have "F \<subseteq> {i \<in> A. i < n}" by blast
    then have "card F \<le> card {i \<in> A. i < n}" by (intro card_mono) simp_all
    with assms show ?thesis using le_trans by blast
  qed
  have "finite A"
  proof (rule ccontr)
    assume "infinite A"
    then obtain B where "finite B" "card B = b + 1" "B \<subseteq> A" using infinite_arbitrarily_large by blast
    with small [of B] show False by simp
  qed
  with small [of A] show ?thesis by simp
qed

lemma ownSteps_bounded:
  assumes "endless retries f"
  shows "finite (ownSteps f r) \<and> card (ownSteps f r) \<le> 2 * retries + 3"
proof (rule finite_card_bounded)
  have "card {i \<in> ownSteps f r. i < n} + (case reqs (f n) r of None \<Rightarrow> 2 * retries + 3 | Some q \<Rightarrow> stepsLeft retries (rPhase q))
      \<le> 2 * retries + 3" for n
  proof (induction n)
    case 0
    show ?case using assms by (simp add: endless_def initSys_def)
  next
    case (Suc n)
    have split: "{i \<in> ownSteps f r. i < Suc n} = {i \<in> ownSteps f r. i < n} \<union> (if n \<in> ownSteps f r then {n} else {})"
      by (auto simp: less_Suc_eq)
    then have card: "card {i \<in> ownSteps f r. i < Suc n} = card {i \<in> ownSteps f r. i < n} + of_bool (n \<in> ownSteps f r)"
      by (auto simp: card_insert_if)
    from assms have s: "step retries (f n) (f (Suc n))" by (simp add: endless_def)
    show ?case
    proof (cases "reqs (f n) r")
      case None
      then have "n \<notin> ownSteps f r" by (simp add: ownSteps_def)
      moreover from Suc None have "card {i \<in> ownSteps f r. i < n} = 0" by (simp only: option.case)
      ultimately show ?thesis unfolding card by (simp only: of_bool_eq) (simp add: stepsLeft_bounds split: option.split)
    next
      case (Some q)
      from stays [OF s this] obtain q' where "reqs (f (Suc n)) r = Some q'"
        "stepsLeft retries (rPhase q') + of_bool (n \<in> ownSteps f r) \<le> stepsLeft retries (rPhase q)"
        using Some by (auto simp: ownSteps_def)
      with Suc Some show ?thesis unfolding card by simp
    qed
  qed
  then show "card {i \<in> ownSteps f r. i < n} \<le> 2 * retries + 3" for n by (meson add_leD1)
qed

lemma request_kept:
  assumes "endless retries f" and "reqs (f i) r = Some q" and "i \<le> m"
  shows "\<exists>q'. reqs (f m) r = Some q'"
  using assms(3)
proof (induction m rule: dec_induct)
  case (step m)
  then show ?case using stays [of retries "f m" "f (Suc m)" r] assms(1) by (auto simp: endless_def)
qed (use assms(2) in blast)

text \<open>
  C21. No request hangs. In every run of the client, however requests, timers and packets interleave,
  a request takes at most \<open>2 * retries + 3\<close> steps of its own after its registration, and
  while it has not returned it has such a step; so if its goroutine is not left
  waiting for ever, it returns, with a result that it then keeps.
\<close>

theorem request_progress:
  assumes "endless retries f" and "scheduled f r" and "reqs (f i) r = Some q"
  shows "(finite (ownSteps f r) \<and> card (ownSteps f r) \<le> 2 * retries + 3)
    \<and> (\<forall>j \<ge> i. returned (f j) r \<or> (\<exists>s'. step retries (f j) s' \<and> reqs s' r \<noteq> reqs (f j) r))
    \<and> (\<exists>n q' res. rPhase q' = Done res \<and> (\<forall>m \<ge> n. reqs (f m) r = Some q'))"
proof (intro conjI allI impI)
  note bounded = ownSteps_bounded [OF assms(1), of r]
  then show "finite (ownSteps f r)" "card (ownSteps f r) \<le> 2 * retries + 3" by simp_all
  show "returned (f j) r \<or> (\<exists>s'. step retries (f j) s' \<and> reqs s' r \<noteq> reqs (f j) r)" if le: "i \<le> j" for j
  proof -
    obtain p where p: "reqs (f j) r = Some p" using request_kept [OF assms(1,3) le] by blast
    then have "returned (f j) r \<longleftrightarrow> (\<exists>res. rPhase p = Done res)" by (simp add: returned_def)
    then show ?thesis using step_enabled [OF p, of retries] by (cases "\<exists>res. rPhase p = Done res") simp_all
  qed
  from bounded have "\<exists>b. \<forall>j \<in> ownSteps f r. j < b" by (simp only: finite_nat_set_iff_bounded)
  then obtain b where b: "\<And>j. j \<in> ownSteps f r \<Longrightarrow> j < b" by blast
  define n where "n = max i b"
  obtain q' where q': "reqs (f n) r = Some q'" using request_kept [OF assms(1,3), of n] by (auto simp: n_def)
  have same: "reqs (f m) r = Some q'" if "n \<le> m" for m
    using that
  proof (induction m rule: dec_induct)
    case (step m)
    from step(1) b [of m] have "m \<notin> ownSteps f r" by (auto simp: n_def)
    with step(3) show ?case by (simp add: ownSteps_def)
  qed (rule q')
  have "returned (f n) r"
  proof (rule ccontr)
    assume "\<not> returned (f n) r"
    with assms(2) q' obtain j where "n \<le> j" "j \<in> ownSteps f r" unfolding scheduled_def by blast
    with b [of j] show False by (simp add: n_def)
  qed
  with q' have "\<exists>res. rPhase q' = Done res" by (simp add: returned_def)
  with same show "\<exists>n q' res. rPhase q' = Done res \<and> (\<forall>m \<ge> n. reqs (f m) r = Some q')" by blast
qed

text \<open>
  The first request of a client without retries, to a peer that is silent: it is sent, times out and
  returns, and from then on empty packets arrive.
\<close>

definition silentClient :: Client where
  "silentClient = fst (registerRequest newClient 0 demoAddr 15)"

definition silentReq :: "nat \<Rightarrow> Req" where
  "silentReq k = demoReq (if k = 0 then Sending 0 else if k = 1 then Waiting 0
    else if k = 2 then Leaving (Err (Wrap ''request'' ErrTimeout)) else Done (Err (Wrap ''request'' ErrTimeout)))"

fun silentRun :: "nat \<Rightarrow> Sys" where
  "silentRun 0 = initSys"
| "silentRun (Suc k) = \<lparr>cl = (if k \<le> 2 then silentClient else releaseRequest silentClient 0),
     reqs = [0 \<mapsto> silentReq k], arrived = replicate (k - 3) ([], demoAddr)\<rparr>"

lemma silentClient_registered: "registerRequest newClient 0 demoAddr 15 = (silentClient, Ok 0)"
  by (simp add: silentClient_def registerRequest_def newClient_def findInvokeID.simps(2) [of 255, simplified])

lemma silentRun_step: "step 0 (silentRun i) (silentRun (Suc i))"
proof -
  have fields: "demoReq p\<lparr>rPhase := p'\<rparr> = demoReq p'" "rPhase (demoReq p) = p" "rInvoke (demoReq p) = 0" for p p'
    by (simp_all add: demoReq_def)
  consider "i = 0" | "i = 1" | "i = 2" | "i = 3" | k where "i = Suc (k + 3)"
  proof (cases "i < 4")
    case False
    then have "i = Suc (i - 4 + 3)" by simp
    then show ?thesis by (rule that(5))
  qed (use that(1-4) in linarith)
  then show ?thesis
  proof cases
    case 1
    with step.register [of initSys 0 demoAddr 15 silentClient 0 0] silentClient_registered show ?thesis
      by (simp add: initSys_def silentReq_def demoReq_def)
  next
    case 2
    with step.sent [of "silentRun 1" 0 "silentReq 0" 0 0] show ?thesis
      by (simp add: setPhase_def silentReq_def fields)
  next
    case 3
    with step.timed_out [of "silentRun 2" 0 "silentReq 1" 0 0] show ?thesis
      by (simp add: setPhase_def silentReq_def fields numeral_2_eq_2)
  next
    case 4
    with step.released [of "silentRun 3" 0 "silentReq 2" _ 0] show ?thesis
      by (simp add: setPhase_def silentReq_def fields numeral_3_eq_3)
  next
    case 5
    have "handleIncoming c [] demoAddr = Ok c" for c
      by (simp add: handleIncoming_def DecodeIncomingPacket_def)
    then show ?thesis
      using step.received [of "silentRun (Suc (k + 3))" "[]" demoAddr _ 0, unfolded silentRun.simps]
      unfolding 5 silentRun.simps by (simp add: silentReq_def replicate_append_same)
  qed
qed

lemma silentRun_endless: "endless 0 silentRun"
  using silentRun_step by (simp add: endless_def)

lemma silentRun_scheduled: "scheduled silentRun 0"
  unfolding scheduled_def
proof (intro allI impI)
  fix i assume running: "reqs (silentRun i) 0 \<noteq> None \<and> \<not> returned (silentRun i) 0"
  then have "i \<in> {1, 2, 3}"
    by (cases i) (auto simp: initSys_def returned_def silentReq_def demoReq_def split: if_splits)
  then have "i \<in> ownSteps silentRun 0"
    by (auto simp: ownSteps_def silentReq_def demoReq_def numeral_2_eq_2 numeral_3_eq_3)
  then show "\<exists>j\<ge>i. j \<in> ownSteps silentRun 0" by blast
qed

theorem request_progress_witness:
  "endless 0 silentRun \<and> reqs (silentRun 1) 0 = Some (demoReq (Sending 0)) \<and> card (ownSteps silentRun 0) = 3
   \<and> (\<exists>n q' res. rPhase q' = Done res \<and> (\<forall>m \<ge> n. reqs (silentRun m) 0 = Some q'))"
proof -
  have first: "reqs (silentRun 1) 0 = Some (demoReq (Sending 0))" by (simp add: silentReq_def)
  note progress = request_progress [OF silentRun_endless silentRun_scheduled first]
  have "{1, 2, 3} \<subseteq> ownSteps silentRun 0"
    by (auto simp: ownSteps_def silentReq_def demoReq_def numeral_2_eq_2 numeral_3_eq_3)
  with progress have "3 \<le> card (ownSteps silentRun 0)"
    using card_mono [of "ownSteps silentRun 0" "{1, 2, 3}"] by simp
  with progress have "card (ownSteps silentRun 0) = 3" by simp
  with progress first silentRun_endless show ?thesis by blast
qed

section \<open>The loop in a run\<close>

text \<open>
  How a step ends an attempt of a request, if it does: what the sequential loop calls an event. And
  the events of a request's attempts in the first \<open>n\<close> steps of a run, and how often it sends in them.
\<close>

fun attemptEnd :: "phase \<Rightarrow> phase \<Rightarrow> attemptEvent list" where
  "attemptEnd (Sending a) (Leaving res) = [SendFails]"
| "attemptEnd (Waiting a) (Sending a') = [TimesOut]"
| "attemptEnd (Waiting a) (Leaving (Ok apdu)) = [Answer apdu]"
| "attemptEnd (Waiting a) (Leaving (Err e)) = (if e = ContextError then [CtxDone] else [TimesOut])"
| "attemptEnd p p' = []"

fun sendsPacket :: "phase \<Rightarrow> phase \<Rightarrow> bool" where
  "sendsPacket (Sending a) p' \<longleftrightarrow> p' \<noteq> Sending a"
| "sendsPacket p p' \<longleftrightarrow> False"

definition phaseAt :: "(nat \<Rightarrow> Sys) \<Rightarrow> nat \<Rightarrow> nat \<Rightarrow> phase option" where
  "phaseAt f r i = map_option rPhase (reqs (f i) r)"

definition events :: "(nat \<Rightarrow> Sys) \<Rightarrow> nat \<Rightarrow> nat \<Rightarrow> attemptEvent list" where
  "events f r n = concat (map (\<lambda>i. case (phaseAt f r i, phaseAt f r (i + 1)) of
     (Some p, Some p') \<Rightarrow> attemptEnd p p' | _ \<Rightarrow> []) [0..<n])"

definition packetsSent :: "(nat \<Rightarrow> Sys) \<Rightarrow> nat \<Rightarrow> nat \<Rightarrow> nat" where
  "packetsSent f r n = length (filter (\<lambda>i. case (phaseAt f r i, phaseAt f r (i + 1)) of
     (Some p, Some p') \<Rightarrow> sendsPacket p p' | _ \<Rightarrow> False) [0..<n])"

text \<open>What the events so far are, by the phase.\<close>

definition outcomeOf :: "attemptEvent \<Rightarrow> APDU result" where
  "outcomeOf ev = (case ev of
     SendFails \<Rightarrow> Err (Wrap ''bacnet: send'' SystemError) | Answer apdu \<Rightarrow> Ok apdu
   | CtxDone \<Rightarrow> Err ContextError | TimesOut \<Rightarrow> Err (Wrap ''request'' ErrTimeout))"

definition endsIn :: "nat \<Rightarrow> attemptEvent list \<Rightarrow> APDU result \<Rightarrow> bool" where
  "endsIn retries es res \<longleftrightarrow> (\<exists>a ev. a \<le> retries \<and> es = replicate a TimesOut @ [ev]
     \<and> (ev = TimesOut \<longrightarrow> a = retries) \<and> res = outcomeOf ev)"

fun soFar :: "nat \<Rightarrow> phase option \<Rightarrow> attemptEvent list \<Rightarrow> nat \<Rightarrow> bool" where
  "soFar retries None es k \<longleftrightarrow> es = [] \<and> k = 0"
| "soFar retries (Some (Sending a)) es k \<longleftrightarrow> a \<le> retries \<and> es = replicate a TimesOut \<and> k = a"
| "soFar retries (Some (Waiting a)) es k \<longleftrightarrow> a \<le> retries \<and> es = replicate a TimesOut \<and> k = a + 1"
| "soFar retries (Some (Leaving res)) es k \<longleftrightarrow> endsIn retries es res \<and> k = length es"
| "soFar retries (Some (Done res)) es k \<longleftrightarrow> endsIn retries es res \<and> k = length es"

lemma endsInI:
  "a \<le> retries \<Longrightarrow> ev = TimesOut \<longrightarrow> a = retries \<Longrightarrow> res = outcomeOf ev \<Longrightarrow> endsIn retries (replicate a TimesOut @ [ev]) res"
  unfolding endsIn_def by blast

lemma soFar_ownStep:
  assumes "ownStep retries p p'" and "soFar retries (Some p) es k"
  shows "soFar retries (Some p') (es @ attemptEnd p p') (k + of_bool (sendsPacket p p'))"
  using assms
proof (induction rule: ownStep.induct)
  case (5 a)
  then show ?case using endsInI [of a retries TimesOut] by (simp add: outcomeOf_def)
qed (auto simp: outcomeOf_def replicate_append_same intro!: endsInI)

lemma soFar_same: "attemptEnd p p = []" "\<not> sendsPacket p p"
  by (cases p; simp)+

lemma run_soFar:
  assumes "runUpTo retries n f" and "m \<le> n"
  shows "soFar retries (phaseAt f r m) (events f r m) (packetsSent f r m)"
  using assms(2)
proof (induction m)
  case 0
  show ?case using assms(1) by (simp add: runUpTo_def initSys_def phaseAt_def events_def packetsSent_def)
next
  case (Suc m)
  then have IH: "soFar retries (phaseAt f r m) (events f r m) (packetsSent f r m)" by simp
  have s: "step retries (f m) (f (Suc m))" using assms(1) Suc(2) by (simp add: runUpTo_def)
  show ?case
  proof (cases "reqs (f m) r")
    case None
    then have "events f r (Suc m) = events f r m" "packetsSent f r (Suc m) = packetsSent f r m" "phaseAt f r m = None"
      by (simp_all add: events_def packetsSent_def phaseAt_def)
    with IH step_new [OF s None] show ?thesis by (cases "reqs (f (Suc m)) r") (simp_all add: phaseAt_def)
  next
    case (Some q)
    then have q: "phaseAt f r m = Some (rPhase q)" by (simp add: phaseAt_def)
    obtain p where p: "phaseAt f r (Suc m) = Some p" "p = rPhase q \<or> ownStep retries (rPhase q) p"
      by (rule step_own [OF s Some]) (auto simp: phaseAt_def)
    then have "events f r (Suc m) = events f r m @ attemptEnd (rPhase q) p"
      "packetsSent f r (Suc m) = packetsSent f r m + of_bool (sendsPacket (rPhase q) p)"
      by (simp_all add: events_def packetsSent_def q)
    with IH p q soFar_ownStep [of retries "rPhase q" p] show ?thesis by (auto simp: soFar_same)
  qed
qed

text \<open>What the loop makes of such events.\<close>

lemma loop_of_events:
  assumes "\<And>j. j < a \<Longrightarrow> env (k + j) = TimesOut" and "env (k + a) = ev" and "k + a \<le> retries" and "ev = TimesOut \<longrightarrow> k + a = retries"
  shows "attempts env retries k = outcomeOf ev \<and> sends env retries k = a + 1"
  using assms
proof (induction a arbitrary: k)
  case 0
  then show ?case
    using attempts.simps [of env retries "k + 1"] sends.simps [of env retries "k + 1"]
    by (auto simp: attempts.simps [of env retries k] sends.simps [of env retries k] outcomeOf_def split: attemptEvent.split)
next
  case (Suc a)
  from Suc.prems(1) [of 0] have "env k = TimesOut" by simp
  moreover have "attempts env retries (k + 1) = outcomeOf ev \<and> sends env retries (k + 1) = a + 1"
    using Suc.prems by (intro Suc.IH) (metis add.assoc plus_1_eq_Suc Suc_less_eq, simp_all)
  ultimately show ?case
    using Suc.prems(3) by (simp add: attempts.simps [of env retries k] sends.simps [of env retries k])
qed

lemma endsIn_loop:
  assumes "endsIn retries es res" and "\<forall>k < length es. env k = es ! k"
  shows "attempts env retries 0 = res" and "sends env retries 0 = length es" and "length es \<le> retries + 1"
    and "Answer apdu \<in> set es \<Longrightarrow> res = Ok apdu"
proof -
  from assms(1) obtain a ev where es: "a \<le> retries" "es = replicate a TimesOut @ [ev]" "ev = TimesOut \<longrightarrow> a = retries"
    "res = outcomeOf ev" unfolding endsIn_def by blast
  have "env j = TimesOut" if "j < a" for j using assms(2) that by (simp add: es(2) nth_append)
  moreover have "env a = ev" using assms(2) by (simp add: es(2) nth_append)
  ultimately have "attempts env retries 0 = outcomeOf ev \<and> sends env retries 0 = a + 1"
    using loop_of_events [of a env 0 ev retries] es by simp
  with es show "attempts env retries 0 = res" "sends env retries 0 = length es" "length es \<le> retries + 1" by simp_all
  show "res = Ok apdu" if "Answer apdu \<in> set es" using that es(2,4) by (auto simp: outcomeOf_def)
qed

text \<open>
  C33. Whatever the interleaving, a request that returns did what the sequential loop of
  \<^verbatim>\<open>doConfirmedRequest\<close> does on the events that befell its own attempts in the run (send failures,
  timeouts, the end of its context, and replies taken): the result is the loop's, it sent as many
  packets as the loop does, one for each event and at most one more than there are retries, and
  a reply among the events is one to the request itself, received after it was registered.
\<close>

theorem results_refine_loop:
  assumes "runUpTo retries n f" and "reqs (f n) r = Some q" and "rPhase q = Done res"
  shows "(\<forall>env. (\<forall>k < length (events f r n). env k = events f r n ! k) \<longrightarrow>
        attempts env retries 0 = res \<and> sends env retries 0 = packetsSent f r n)
    \<and> packetsSent f r n = length (events f r n) \<and> packetsSent f r n \<le> retries + 1
    \<and> (\<forall>apdu. Answer apdu \<in> set (events f r n) \<longrightarrow>
        (\<exists>pkt from. (pkt, from) \<in> set (drop (rSince q) (arrived (f n))) \<and> DecodeIncomingPacket pkt = Ok apdu
          \<and> answers apdu from (rInvoke q) \<lparr>ReqTo = rAddr q, ReqService = rService q, ReqCh = r\<rparr>))"
proof -
  have "phaseAt f r n = Some (Done res)" using assms(2,3) by (simp add: phaseAt_def)
  with run_soFar [OF assms(1) le_refl, of r]
  have ends: "endsIn retries (events f r n) res" and sent: "packetsSent f r n = length (events f r n)" by simp_all
  note loop = endsIn_loop [OF ends]
  have "length (events f r n) \<le> retries + 1" by (rule loop(3) [of "\<lambda>k. events f r n ! k"]) simp
  moreover have "ownReply (f n) r q apdu" if "Answer apdu \<in> set (events f r n)" for apdu
  proof (rule inv_result [OF reachable_inv [OF run_reachable [OF assms(1) le_refl]] assms(2)])
    show "resultIs (rPhase q) apdu"
      using loop(4) [of "\<lambda>k. events f r n ! k", OF _ that] assms(3) by (simp add: resultIs_def)
  qed
  ultimately show ?thesis
    using loop(1,2) sent unfolding ownReply_def entryOf_def by auto
qed

lemma reachable_run:
  assumes "reachable retries s"
  shows "\<exists>n f. runUpTo retries n f \<and> f n = s"
  using assms
proof (induction rule: reachable.induct)
  case start
  then show ?case by (intro exI [of _ 0] exI [of _ "\<lambda>_. initSys"]) (simp add: runUpTo_def)
next
  case (continue s s')
  then obtain n f where f: "runUpTo retries n f" "f n = s" by blast
  with continue(2) have "runUpTo retries (Suc n) (f(Suc n := s')) \<and> (f(Suc n := s')) (Suc n) = s'"
    by (auto simp: runUpTo_def less_Suc_eq)
  then show ?case by blast
qed

theorem results_refine_loop_witness:
  "(reqs (silentRun 4) 0 = Some (demoReq (Done (Err (Wrap ''request'' ErrTimeout))))
    \<and> events silentRun 0 4 = [TimesOut] \<and> packetsSent silentRun 0 4 = 1)
   \<and> (\<exists>n f. runUpTo 0 n f \<and> reqs (f n) 0 = Some (demoReq (Done (Ok demoReply)))
    \<and> events f 0 n = [Answer demoReply] \<and> packetsSent f 0 n = 1)"
proof
  have run: "runUpTo 0 4 silentRun" using silentRun_endless unfolding runUpTo_def endless_def by blast
  have q: "reqs (silentRun 4) 0 = Some (demoReq (Done (Err (Wrap ''request'' ErrTimeout))))"
    "rPhase (demoReq (Done (Err (Wrap ''request'' ErrTimeout)))) = Done (Err (Wrap ''request'' ErrTimeout))"
    by (simp_all add: silentReq_def demoReq_def eval_nat_numeral)
  have events: "events silentRun 0 4 = [TimesOut]"
    by (simp add: events_def phaseAt_def initSys_def silentReq_def demoReq_def eval_nat_numeral upt_conv_Cons)
  from results_refine_loop [OF run q, unfolded events] q(1) events
  show "reqs (silentRun 4) 0 = Some (demoReq (Done (Err (Wrap ''request'' ErrTimeout))))
    \<and> events silentRun 0 4 = [TimesOut] \<and> packetsSent silentRun 0 4 = 1" by auto
next
  obtain s where s: "reachable 0 s" "reqs s = [0 \<mapsto> demoReq (Done (Ok demoReply))]" using demo_run by blast
  from reachable_run [OF s(1)] obtain n f where f: "runUpTo 0 n f" "f n = s" by blast
  then have q: "reqs (f n) 0 = Some (demoReq (Done (Ok demoReply)))" using s(2) by simp
  have "rPhase (demoReq (Done (Ok demoReply))) = Done (Ok demoReply)" by (simp add: demoReq_def)
  note loop = results_refine_loop [OF f(1) q this]
  then have result: "attempts (\<lambda>k. if k < length (events f 0 n) then events f 0 n ! k else SendFails) 0 0 = Ok demoReply"
    and len: "packetsSent f 0 n = length (events f 0 n)" "packetsSent f 0 n \<le> 1" by simp_all
  from result have some: "events f 0 n \<noteq> []" by (auto simp: attempts.simps)
  with len obtain ev where ev: "events f 0 n = [ev]" by (cases "events f 0 n") auto
  with result have "ev = Answer demoReply" by (simp add: attempts.simps split: attemptEvent.splits)
  with ev len f(1) q show "\<exists>n f. runUpTo 0 n f \<and> reqs (f n) 0 = Some (demoReq (Done (Ok demoReply)))
    \<and> events f 0 n = [Answer demoReply] \<and> packetsSent f 0 n = 1" by auto
qed

end
