(* ===== verification/Go_Float.thy ===== *)
theory Go_Float
  imports Prelude
begin

text \<open>
  The floating-point operations that the REST values need, on IEEE 754 bit patterns: conversion
  between float32, float64 and uint64 with rounding to nearest even, and tests for special
  values. A finite number is a natural number times a power of two; one rounding function serves
  every conversion.
\<close>

section \<open>Rounding\<close>

fun bitLen :: "nat \<Rightarrow> nat" where
  "bitLen n = (if n = 0 then 0 else Suc (bitLen (n div 2)))"

declare bitLen.simps [simp del]

text \<open>\<open>m / 2 ^ k\<close> rounded to nearest, ties to even.\<close>

definition roundShift :: "nat \<Rightarrow> nat \<Rightarrow> nat" where
  "roundShift m k =
    (let q = m div 2 ^ k; r = m mod 2 ^ k
     in if 2 * r > 2 ^ k \<or> (2 * r = 2 ^ k \<and> odd q) then q + 1 else q)"

text \<open>
  The bit pattern without sign of \<open>m * 2 powi e\<close> in a format with \<open>frac\<close> fraction bits whose
  smallest number is \<open>2 powi emin\<close>; numbers too large become the infinity.
\<close>

definition roundFloat :: "nat \<Rightarrow> int \<Rightarrow> nat \<Rightarrow> nat \<Rightarrow> int \<Rightarrow> nat" where
  "roundFloat frac emin lim m e =
    (if m = 0 then 0
     else let u = max (int (bitLen m) - 1 + e - int frac) emin;
              n = (if u \<le> e then m * 2 ^ nat (e - u) else roundShift m (nat (u - e)))
          in min lim (nat (u - emin) * 2 ^ frac + n))"

text \<open>The number and exponent of a finite bit pattern without sign.\<close>

definition mantissa :: "nat \<Rightarrow> nat \<Rightarrow> nat" where
  "mantissa frac b = (if b < 2 ^ frac then b else 2 ^ frac + b mod 2 ^ frac)"

definition exponent :: "nat \<Rightarrow> int \<Rightarrow> nat \<Rightarrow> int" where
  "exponent frac emin b = (if b < 2 ^ frac then emin else emin + int (b div 2 ^ frac) - 1)"

lemma bitLen_0 [simp]: "bitLen 0 = 0"
  by (simp add: bitLen.simps)

lemma bitLen_bounds: "n > 0 \<Longrightarrow> 2 ^ (bitLen n - 1) \<le> n \<and> n < 2 ^ bitLen n \<and> 0 < bitLen n"
proof (induction n rule: bitLen.induct)
  case (1 n)
  show ?case
  proof (cases "n = 1")
    case True
    then show ?thesis by (simp add: bitLen.simps)
  next
    case False
    with 1 have half: "2 ^ (bitLen (n div 2) - 1) \<le> n div 2" "n div 2 < 2 ^ bitLen (n div 2)" "0 < bitLen (n div 2)"
      by auto
    from 1 have "bitLen n = Suc (bitLen (n div 2))" by (simp add: bitLen.simps)
    moreover from half obtain k where "bitLen (n div 2) = Suc k" by (cases "bitLen (n div 2)") auto
    ultimately show ?thesis using half by auto
  qed
qed

lemma bitLen_unique:
  assumes "2 ^ k \<le> n" and "n < 2 ^ Suc k"
  shows "bitLen n = Suc k"
proof -
  from assms(1) have "n > 0" by (meson less_le_trans zero_less_numeral zero_less_power)
  from bitLen_bounds [OF this]
  have lo: "2 ^ (bitLen n - 1) < (2 :: nat) ^ Suc k" and hi: "(2 :: nat) ^ k < 2 ^ bitLen n" and "0 < bitLen n"
    using assms by linarith+
  have "bitLen n - 1 < Suc k" and "k < bitLen n"
    using power_less_imp_less_exp [OF _ lo] power_less_imp_less_exp [OF _ hi] by simp_all
  with \<open>0 < bitLen n\<close> show ?thesis by simp
qed

lemma bitLen_scale: "n > 0 \<Longrightarrow> bitLen (n * 2 ^ k) = bitLen n + k"
proof -
  assume pos: "n > 0"
  from bitLen_bounds [OF pos] obtain j where j: "bitLen n = Suc j" "2 ^ j \<le> n" "n < 2 ^ Suc j"
    by (cases "bitLen n") auto
  then have "2 ^ (j + k) \<le> n * 2 ^ k" and "n * 2 ^ k < 2 ^ Suc (j + k)"
    by (simp_all add: power_add)
  from bitLen_unique [OF this] j(1) show ?thesis by simp
qed

lemma roundShift_exact [simp]: "roundShift (q * 2 ^ k) k = q"
  by (simp add: roundShift_def)

lemma roundShift_scale: "roundShift (m * 2 ^ j) (k + j) = roundShift m k"
proof -
  have pow: "(2 :: nat) ^ (k + j) = 2 ^ k * 2 ^ j" by (simp add: power_add)
  have q: "m * 2 ^ j div 2 ^ (k + j) = m div 2 ^ k" unfolding pow by simp
  have r: "m * 2 ^ j mod 2 ^ (k + j) = m mod 2 ^ k * 2 ^ j" unfolding pow by (simp add: mod_mult_mult2)
  have "2 * (m mod 2 ^ k * 2 ^ j) > 2 ^ (k + j) \<longleftrightarrow> 2 * (m mod 2 ^ k) > 2 ^ k"
    and "2 * (m mod 2 ^ k * 2 ^ j) = 2 ^ (k + j) \<longleftrightarrow> 2 * (m mod 2 ^ k) = 2 ^ k"
    unfolding pow mult.assoc [symmetric] by simp_all
  then show ?thesis by (simp add: roundShift_def q r Let_def)
qed

text \<open>The result depends on the number only, not on how it is split into mantissa and exponent.\<close>

lemma roundFloat_scale: "roundFloat frac emin lim (m * 2 ^ k) (e - int k) = roundFloat frac emin lim m e"
proof (cases "m = 0")
  case False
  define u where "u = max (int (bitLen m) - 1 + e - int frac) emin"
  have u': "max (int (bitLen (m * 2 ^ k)) - 1 + (e - int k) - int frac) emin = u"
    using False by (simp add: bitLen_scale u_def)
  have "(if u \<le> e - int k then m * 2 ^ k * 2 ^ nat (e - int k - u) else roundShift (m * 2 ^ k) (nat (u - (e - int k))))
    = (if u \<le> e then m * 2 ^ nat (e - u) else roundShift m (nat (u - e)))"
  proof (cases "u \<le> e - int k")
    case True
    then have "nat (e - u) = k + nat (e - int k - u)" and "u \<le> e" by (simp_all add: nat_add_distrib [symmetric])
    with True show ?thesis by (simp add: power_add)
  next
    case outer: False
    show ?thesis
    proof (cases "u \<le> e")
      case True
      with outer have k: "k = nat (e - u) + nat (u - (e - int k))" by simp
      then have "m * 2 ^ k = m * 2 ^ nat (e - u) * 2 ^ nat (u - (e - int k))"
        by (metis mult.assoc power_add)
      then have "roundShift (m * 2 ^ k) (nat (u - (e - int k))) = m * 2 ^ nat (e - u)"
        by (simp only: roundShift_exact)
      then show ?thesis using outer True by simp
    next
      case False
      with outer have "nat (u - (e - int k)) = nat (u - e) + k" by simp
      with outer False show ?thesis by (simp add: roundShift_scale)
    qed
  qed
  with False show ?thesis
    by (simp add: roundFloat_def u' [unfolded One_nat_def] Let_def flip: u_def)
qed (simp add: roundFloat_def)

lemma roundFloat_shift:
  assumes "e' \<le> e"
  shows "roundFloat frac emin lim (m * 2 ^ nat (e - e')) e' = roundFloat frac emin lim m e"
  using roundFloat_scale [of frac emin lim m "nat (e - e')" e] assms by simp

text \<open>A finite bit pattern denotes a number that is rounded to the pattern itself.\<close>

lemma roundFloat_own:
  assumes "b < lim"
  shows "roundFloat frac emin lim (mantissa frac b) (exponent frac emin b) = b"
proof (cases "b < 2 ^ frac")
  case True
  show ?thesis
  proof (cases "b = 0")
    case False
    with True bitLen_bounds [of b] have "(2 :: nat) ^ (bitLen b - 1) < 2 ^ frac" by linarith
    then have "bitLen b \<le> frac" by simp
    then have "max (int (bitLen b) - 1 + emin - int frac) emin = emin" by simp
    with True False assms show ?thesis
      by (simp add: roundFloat_def mantissa_def exponent_def Let_def)
  qed (simp add: roundFloat_def mantissa_def)
next
  case False
  define q r where "q = b div 2 ^ frac" and "r = b mod 2 ^ frac"
  have b: "b = q * 2 ^ frac + r" unfolding q_def r_def by (rule div_mult_mod_eq [symmetric])
  have "r < 2 ^ frac" and "q > 0" using False by (simp_all add: q_def r_def div_greater_zero_iff)
  then have "bitLen (2 ^ frac + r) = Suc frac" by (intro bitLen_unique) auto
  then have u: "max (int (bitLen (2 ^ frac + r)) - 1 + (emin + int q - 1) - int frac) emin = emin + int q - 1"
    using \<open>q > 0\<close> by simp
  have "nat (int q - 1) * 2 ^ frac + (2 ^ frac + r) = b"
    using \<open>q > 0\<close> by (cases q) (simp_all add: b)
  with assms False u show ?thesis
    by (simp add: roundFloat_def mantissa_def exponent_def Let_def flip: q_def r_def)
qed

text \<open>A number with few enough bits is not rounded: its pattern denotes the number itself.\<close>

lemma roundFloat_exact:
  assumes "0 < m" and "bitLen m \<le> Suc frac" and "emin \<le> e" and "nat (e - emin + 2) * 2 ^ frac \<le> lim"
  obtains u where "emin \<le> u" and "u \<le> e" and "roundFloat frac emin lim m e < lim"
    and "mantissa frac (roundFloat frac emin lim m e) = m * 2 ^ nat (e - u)"
    and "exponent frac emin (roundFloat frac emin lim m e) = u"
proof -
  define u where "u = max (int (bitLen m) - 1 + e - int frac) emin"
  define n where "n = m * 2 ^ nat (e - u)"
  define B where "B = nat (u - emin) * 2 ^ frac + n"
  have u: "emin \<le> u" "u \<le> e" using assms(2,3) by (auto simp: u_def)
  have "bitLen n = bitLen m + nat (e - u)" using assms(1) by (simp add: n_def bitLen_scale)
  moreover have "nat (e - u) \<le> Suc frac - bitLen m" unfolding u_def using assms(2) by linarith
  ultimately have "bitLen n \<le> Suc frac" using assms(2) by linarith
  moreover have npos: "0 < n" using assms(1) by (simp add: n_def)
  ultimately have n: "n < 2 ^ Suc frac"
    using bitLen_bounds [OF npos] by (meson less_le_trans one_le_numeral power_increasing)
  have small: "u = emin" if "n < 2 ^ frac"
  proof (rule ccontr)
    assume "u \<noteq> emin"
    then have "int (bitLen m) - 1 + e - int frac = u" by (simp add: u_def max_def split: if_splits)
    then have "bitLen m + nat (e - u) = Suc frac" using u by linarith
    with \<open>bitLen n = _\<close> have "bitLen n = Suc frac" by simp
    with bitLen_bounds [OF npos] that show False by simp
  qed
  have "nat (e - emin + 2) * 2 ^ frac \<ge> (nat (u - emin) + 2) * 2 ^ frac"
    using u by (intro mult_right_mono) auto
  with n have "B < lim" using assms(4) by (simp add: B_def algebra_simps)
  then have B: "roundFloat frac emin lim m e = B"
    using assms(1) u by (simp add: roundFloat_def B_def n_def Let_def flip: u_def)
  have "mantissa frac B = n \<and> exponent frac emin B = u"
  proof (cases "n < 2 ^ frac")
    case True
    with small show ?thesis by (simp add: B_def mantissa_def exponent_def)
  next
    case False
    then obtain r where r: "n = 2 ^ frac + r" by (metis le_add_diff_inverse not_less)
    with n have "r < 2 ^ frac" by simp
    have eq: "B = r + (nat (u - emin) + 1) * 2 ^ frac" by (simp add: B_def r)
    have "B mod 2 ^ frac = r" and "B div 2 ^ frac = nat (u - emin) + 1"
      using \<open>r < 2 ^ frac\<close> mod_mult_self1 [of r "nat (u - emin) + 1" "2 ^ frac"]
        div_mult_self1 [of "2 ^ frac" r "nat (u - emin) + 1"]
      unfolding eq by (simp_all del: mod_mult_self1 div_mult_self1)
    then show ?thesis using r u by (simp add: mantissa_def exponent_def eq)
  qed
  with u \<open>B < lim\<close> that B show thesis by (simp add: n_def)
qed

section \<open>The types float32, float64 and uint64\<close>

definition inf32 :: nat where "inf32 = 0x7F800000"
definition inf64 :: nat where "inf64 = 0x7FF0000000000000"

definition mag32 :: "u32 \<Rightarrow> nat" where "mag32 x = unat x mod 2 ^ 31"
definition mag64 :: "u64 \<Rightarrow> nat" where "mag64 x = unat x mod 2 ^ 63"

definition mk32 :: "bool \<Rightarrow> nat \<Rightarrow> u32" where
  "mk32 neg m = word_of_nat (m + (if neg then 2 ^ 31 else 0))"

definition mk64 :: "bool \<Rightarrow> nat \<Rightarrow> u64" where
  "mk64 neg m = word_of_nat (m + (if neg then 2 ^ 63 else 0))"

definition IsNaN :: "u64 \<Rightarrow> bool" where "IsNaN x \<longleftrightarrow> mag64 x > inf64"

text \<open>\<^verbatim>\<open>math.IsInf(x, 1)\<close> and \<^verbatim>\<open>math.IsInf(x, -1)\<close>.\<close>

definition IsInf :: "u64 \<Rightarrow> bool \<Rightarrow> bool" where
  "IsInf x neg \<longleftrightarrow> mag64 x = inf64 \<and> bit x 63 = neg"

text \<open>A conversion keeps a NaN's leading payload bits and makes it quiet.\<close>

definition widen :: "u32 \<Rightarrow> u64" where
  "widen x = mk64 (bit x 31)
    (if mag32 x < inf32 then roundFloat 52 (- 1074) inf64 (mantissa 23 (mag32 x)) (exponent 23 (- 149) (mag32 x))
     else if mag32 x = inf32 then inf64
     else inf64 + 2 ^ 51 + (mag32 x - inf32) mod 2 ^ 22 * 2 ^ 29)"

definition narrow :: "u64 \<Rightarrow> u32" where
  "narrow x = mk32 (bit x 63)
    (if mag64 x < inf64 then roundFloat 23 (- 149) inf32 (mantissa 52 (mag64 x)) (exponent 52 (- 1074) (mag64 x))
     else if mag64 x = inf64 then inf32
     else inf32 + 2 ^ 22 + (mag64 x - inf64) mod 2 ^ 51 div 2 ^ 29)"

definition floatOfUint :: "u64 \<Rightarrow> u64" where
  "floatOfUint n = word_of_nat (roundFloat 52 (- 1074) inf64 (unat n) 0)"

text \<open>
  \<^verbatim>\<open>uint64(f)\<close> truncates; for a value outside the range of uint64 its result depends on the
  processor and is the parameter \<open>far\<close>.
\<close>

definition truncated :: "nat \<Rightarrow> nat" where
  "truncated b =
    (let m = mantissa 52 b; e = exponent 52 (- 1074) b
     in if 0 \<le> e then m * 2 ^ nat e else m div 2 ^ nat (- e))"

definition uintOfFloat :: "(u64 \<Rightarrow> u64) \<Rightarrow> u64 \<Rightarrow> u64" where
  "uintOfFloat far f =
    (if mag64 f < inf64 \<and> truncated (mag64 f) = 0 then 0
     else if \<not> bit f 63 \<and> mag64 f < inf64 \<and> truncated (mag64 f) < 2 ^ 64 then word_of_nat (truncated (mag64 f))
     else far f)"

definition oneFloat :: u64 where "oneFloat = 0x3FF0000000000000"

text \<open>\<^verbatim>\<open>f < 1\<close> and \<^verbatim>\<open>f == g\<close>: false for NaN; the zeros are equal.\<close>

definition lessOne :: "u64 \<Rightarrow> bool" where
  "lessOne f \<longleftrightarrow> \<not> IsNaN f \<and> (bit f 63 \<or> mag64 f < mag64 oneFloat)"

definition floatEq :: "u64 \<Rightarrow> u64 \<Rightarrow> bool" where
  "floatEq f g \<longleftrightarrow> \<not> IsNaN f \<and> \<not> IsNaN g \<and> (f = g \<or> mag64 f = 0 \<and> mag64 g = 0)"

section \<open>Conversions lose nothing that they can keep\<close>

lemma unat_mk:
  "m < 2 ^ 31 \<Longrightarrow> unat (mk32 neg m) = m + (if neg then 2 ^ 31 else 0)"
  "k < 2 ^ 63 \<Longrightarrow> unat (mk64 neg k) = k + (if neg then 2 ^ 63 else 0)"
  by (cases neg; simp add: mk32_def mk64_def unat_of_nat del: of_nat_add)+

lemma sign_unat: "bit (x :: u32) 31 \<longleftrightarrow> odd (unat x div 2 ^ 31)" "bit (y :: u64) 63 \<longleftrightarrow> odd (unat y div 2 ^ 63)"
  unfolding bit_iff_odd [of "unat x", symmetric] bit_iff_odd [of "unat y", symmetric] bit_unsigned_iff by simp_all

lemma sign_mag: "(m :: nat) < d \<Longrightarrow> odd ((m + (if neg then d else 0)) div d) = neg"
  using div_add_self2 [of d m] by (cases "d = 0") simp_all

lemma mk32_fields [simp]:
  assumes "m < 2 ^ 31"
  shows "mag32 (mk32 neg m) = m" and "bit (mk32 neg m) 31 = neg"
  using assms unfolding mag32_def sign_unat unat_mk(1) [OF assms] by (simp, rule sign_mag)

lemma mk64_fields [simp]:
  assumes "m < 2 ^ 63"
  shows "mag64 (mk64 neg m) = m" and "bit (mk64 neg m) 63 = neg"
  using assms unfolding mag64_def sign_unat unat_mk(2) [OF assms] by (simp, rule sign_mag)

lemma mag32_bound: "mag32 x < 2 ^ 31"
  by (simp add: mag32_def)

lemma mk32_parts: "mk32 (bit x 31) (mag32 x) = x"
proof -
  have "unat x < 2 * 2 ^ 31" using unsigned_less [of x] by simp
  then have "unat x div 2 ^ 31 = 0 \<or> unat x div 2 ^ 31 = 1"
    by (metis One_nat_def less_2_cases less_mult_imp_div_less)
  then have "unat x = unat x mod 2 ^ 31 + (if odd (unat x div 2 ^ 31) then 2 ^ 31 else 0)"
    by (rule disjE) (use div_mult_mod_eq [of "unat x" "2 ^ 31"] in simp_all)
  then have "unat (mk32 (bit x 31) (mag32 x)) = unat x"
    unfolding unat_mk(1) [OF mag32_bound] unfolding mag32_def sign_unat by (rule sym)
  then show ?thesis by (simp add: word_unat_eq_iff)
qed

lemma bitLen_le: "n < 2 ^ k \<Longrightarrow> bitLen n \<le> k"
  using bitLen_bounds [of n] power_less_imp_less_exp [of "2 :: nat" "bitLen n - 1" k]
  by (cases "n = 0") (auto dest: le_less_trans)

theorem narrow_widen:
  assumes "mag32 x \<le> inf32"
  shows "narrow (widen x) = x"
proof (cases "mag32 x < inf32")
  case True
  define m e where "m = mantissa 23 (mag32 x)" and "e = exponent 23 (- 149) (mag32 x)"
  have own: "roundFloat 23 (- 149) inf32 m e = mag32 x"
    unfolding m_def e_def by (rule roundFloat_own [OF True])
  show ?thesis
  proof (cases "m = 0")
    case z: True
    with own have "mag32 x = 0" by (simp add: roundFloat_def)
    then show ?thesis using z mk32_parts [of x]
      by (simp add: narrow_def widen_def inf64_def inf32_def roundFloat_def mantissa_def m_def [symmetric])
  next
    case False
    have "m < 2 ^ 24"
      unfolding m_def mantissa_def by (auto intro: less_trans)
    then have "m < 2 ^ Suc 52" by (rule less_le_trans) simp
    then have "bitLen m \<le> Suc 52" by (rule bitLen_le)
    moreover have "- 149 \<le> e" and "e \<le> 104"
      using True by (auto simp: e_def exponent_def inf32_def)
    ultimately obtain u where "roundFloat 52 (- 1074) inf64 m e < inf64" "u \<le> e"
      "mantissa 52 (roundFloat 52 (- 1074) inf64 m e) = m * 2 ^ nat (e - u)"
      "exponent 52 (- 1074) (roundFloat 52 (- 1074) inf64 m e) = u"
      using roundFloat_exact [of m 52 "- 1074" e inf64] False by (auto simp: inf64_def nat_le_iff)
    moreover from this have "roundFloat 52 (- 1074) inf64 m e < 2 ^ 63" by (simp add: inf64_def)
    ultimately show ?thesis
      using True own mk32_parts [of x] roundFloat_shift [of u e 23 "- 149" inf32 m]
      by (simp add: narrow_def widen_def flip: m_def e_def)
  qed
next
  case False
  with assms have "mag32 x = inf32" by simp
  then show ?thesis
    using mk32_parts [of x] by (simp add: narrow_def widen_def inf64_def)
qed

text \<open>Whole numbers below 2^53 are exact, and at least 1 when they are positive.\<close>

lemma whole_float:
  assumes "0 < n" and "n < 2 ^ 53"
  shows "0x3FF0000000000000 \<le> roundFloat 52 (- 1074) inf64 n 0"
    and "roundFloat 52 (- 1074) inf64 n 0 < inf64"
    and "truncated (roundFloat 52 (- 1074) inf64 n 0) = n"
proof -
  have len: "bitLen n \<le> 53" "0 < bitLen n" using bitLen_le [OF assms(2)] bitLen_bounds [OF assms(1)] by auto
  then have "nat (0 - (- 1074) + 2) * 2 ^ 52 \<le> inf64" "bitLen n \<le> Suc 52" by (simp_all add: inf64_def)
  from roundFloat_exact [OF assms(1) this(2) _ this(1)]
  obtain u where u: "u \<le> 0" "roundFloat 52 (- 1074) inf64 n 0 < inf64"
    "mantissa 52 (roundFloat 52 (- 1074) inf64 n 0) = n * 2 ^ nat (0 - u)"
    "exponent 52 (- 1074) (roundFloat 52 (- 1074) inf64 n 0) = u"
    by auto
  then show "roundFloat 52 (- 1074) inf64 n 0 < inf64" by simp
  show "truncated (roundFloat 52 (- 1074) inf64 n 0) = n"
    using u by (cases "u = 0") (simp_all add: truncated_def Let_def)
  define j where "j = 53 - bitLen n"
  have "max (int (bitLen n) - 1 - 52) (- 1074) = - int j" using len by (simp add: j_def)
  then have "roundFloat 52 (- 1074) inf64 n 0 = min inf64 ((1074 - j) * 2 ^ 52 + n * 2 ^ j)"
    using assms(1) len by (simp add: roundFloat_def Let_def j_def nat_diff_distrib' of_nat_diff)
  moreover have "2 ^ 52 \<le> n * 2 ^ j"
  proof -
    have "(2 :: nat) ^ 52 = 2 ^ (bitLen n - 1) * 2 ^ j"
      using len by (simp add: j_def flip: power_add)
    also have "\<dots> \<le> n * 2 ^ j" using bitLen_bounds [OF assms(1)] by (intro mult_right_mono) auto
    finally show ?thesis .
  qed
  moreover have "1022 * 2 ^ 52 \<le> (1074 - j) * (2 :: nat) ^ 52"
    using len by (intro mult_right_mono) (simp_all add: j_def)
  ultimately show "0x3FF0000000000000 \<le> roundFloat 52 (- 1074) inf64 n 0"
    by (simp add: inf64_def)
qed

lemma uint_float:
  assumes "0 < unat n" and "unat n < 2 ^ 53"
  shows "uintOfFloat far (floatOfUint n) = n" and "\<not> lessOne (floatOfUint n)"
    and "floatEq (floatOfUint n) (floatOfUint n)"
proof -
  note w = whole_float [OF assms]
  have f: "floatOfUint n = mk64 False (roundFloat 52 (- 1074) inf64 (unat n) 0)"
    by (simp add: floatOfUint_def mk64_def)
  from w(2) have "roundFloat 52 (- 1074) inf64 (unat n) 0 < 2 ^ 63" by (simp add: inf64_def)
  note fields = mk64_fields [OF this]
  show "uintOfFloat far (floatOfUint n) = n"
    using w assms by (simp add: f fields uintOfFloat_def)
  have one: "mag64 oneFloat = 0x3FF0000000000000" by (simp add: mag64_def oneFloat_def)
  show "\<not> lessOne (floatOfUint n)"
    using w(1) by (simp only: f lessOne_def fields one) simp
  show "floatEq (floatOfUint n) (floatOfUint n)"
    using w(2) by (simp add: f floatEq_def IsNaN_def fields)
qed

text \<open>Widening keeps the class of a number: NaN, an infinity or finite.\<close>

lemma widen_mag:
  "mag32 x < inf32 \<Longrightarrow> mag64 (widen x) < inf64"
  "mag32 x = inf32 \<Longrightarrow> mag64 (widen x) = inf64"
  "inf32 < mag32 x \<Longrightarrow> inf64 < mag64 (widen x)"
  and widen_sign: "bit (widen x) 63 = bit x 31"
proof -
  let ?m = "mantissa 23 (mag32 x)" and ?e = "exponent 23 (- 149) (mag32 x)"
  have fin: "roundFloat 52 (- 1074) inf64 ?m ?e < inf64" if "mag32 x < inf32"
  proof (cases "?m = 0")
    case True
    then show ?thesis by (simp add: roundFloat_def inf64_def)
  next
    case False
    have "?m < 2 ^ 24" unfolding mantissa_def by (auto intro: less_trans)
    then have "?m < 2 ^ Suc 52" by (rule less_le_trans) simp
    then have "bitLen ?m \<le> Suc 52" by (rule bitLen_le)
    moreover have "- 149 \<le> ?e" and "?e \<le> 104"
      using that by (auto simp: exponent_def inf32_def)
    ultimately show ?thesis
      using roundFloat_exact [of ?m 52 "- 1074" ?e inf64] False by (auto simp: inf64_def nat_le_iff)
  qed
  then show "mag32 x < inf32 \<Longrightarrow> mag64 (widen x) < inf64"
    using less_trans [of _ inf64 "2 ^ 63"] by (simp add: widen_def inf64_def)
  show "mag32 x = inf32 \<Longrightarrow> mag64 (widen x) = inf64"
    by (simp add: widen_def inf64_def)
  have nan: "inf64 + 2 ^ 51 + (mag32 x - inf32) mod 2 ^ 22 * 2 ^ 29 < 2 ^ 63"
    using mod_less_divisor [of "2 ^ 22" "mag32 x - inf32"]
    by (simp add: inf64_def)
  then show "inf32 < mag32 x \<Longrightarrow> inf64 < mag64 (widen x)"
    by (simp add: widen_def)
  show "bit (widen x) 63 = bit x 31"
    using fin nan by (cases "mag32 x" inf32 rule: linorder_cases) (auto simp: widen_def inf64_def)
qed

end
