(* ===== verification/Api_Http.thy ===== *)
theory Api_Http
  imports Bacnet_Errors Go_Strings Go_Float
begin

text \<open>
  What the handlers of \<^verbatim>\<open>internal/api\<close> answer with: JSON values, error bodies and responses,
  and \<^verbatim>\<open>httperr.go\<close>, which turns errors into responses. The lemmas show which status every
  error gets, that context added to an error does not change it, and that no error body can fail
  to encode.
\<close>

section \<open>JSON values\<close>

text \<open>
  The Go values that the handlers hand to \<^verbatim>\<open>json.Marshal\<close>. A float32 prints differently from a
  float64, so the two are told apart; integers of all widths print alike. The encoder refuses
  exactly the numbers that are not finite.
\<close>

datatype json =
    JNull
  | JBool bool
  | JInteger int
  | JFloat32 u32
  | JFloat64 u64
  | JBytes "byte list"
  | JString string
  | JArray "json list"
  | JObject "(string \<times> json) list"

fun encodable :: "json \<Rightarrow> bool" where
  "encodable (JFloat32 x) = (mag32 x < inf32)"
| "encodable (JFloat64 x) = (mag64 x < inf64)"
| "encodable (JArray vs) = list_all encodable vs"
| "encodable (JObject fs) = list_all (\<lambda>(k, v). encodable v) fs"
| "encodable v = True"

section \<open>Responses\<close>

text \<open>
  The texts of error bodies: a literal, or \<^verbatim>\<open>err.Error()\<close> of an error of the BACnet client, of
  the JSON encoder for a value, of a parser for an input, or of the decoder of the request's body.
\<close>

datatype message = Text string | ErrorOf error | EncodeErrorOf json | InputErrorOf string | InvalidBody

record errorBody =
  eb_Error :: message
  eb_Class :: string
  eb_Code :: string

datatype body = NoBody | ErrorJSON errorBody | ValueJSON json

record Response =
  resp_Status :: nat
  resp_Header :: "(string \<times> string) list"
  resp_Body :: body

definition StatusOK :: nat where "StatusOK = 200"
definition StatusNoContent :: nat where "StatusNoContent = 204"
definition StatusBadRequest :: nat where "StatusBadRequest = 400"
definition StatusUnauthorized :: nat where "StatusUnauthorized = 401"
definition StatusForbidden :: nat where "StatusForbidden = 403"
definition StatusNotFound :: nat where "StatusNotFound = 404"
definition StatusUnprocessableEntity :: nat where "StatusUnprocessableEntity = 422"
definition StatusInternalServerError :: nat where "StatusInternalServerError = 500"
definition StatusBadGateway :: nat where "StatusBadGateway = 502"
definition StatusGatewayTimeout :: nat where "StatusGatewayTimeout = 504"

lemmas Status_defs = StatusOK_def StatusNoContent_def StatusBadRequest_def StatusUnauthorized_def
  StatusForbidden_def StatusNotFound_def StatusUnprocessableEntity_def StatusInternalServerError_def
  StatusBadGateway_def StatusGatewayTimeout_def

definition contentType :: "string \<times> string" where
  "contentType = (''Content-Type'', ''application/json'')"

definition plainError :: "message \<Rightarrow> errorBody" where
  "plainError msg = \<lparr>eb_Error = msg, eb_Class = [], eb_Code = []\<rparr>"

text \<open>
  \<^verbatim>\<open>writeJSON\<close> with the headers set so far; strings always encode, so an error body does.
\<close>

definition writeJSON :: "(string \<times> string) list \<Rightarrow> nat \<Rightarrow> body \<Rightarrow> Response" where
  "writeJSON header status b =
    (case b of
       ValueJSON v \<Rightarrow>
         if encodable v
         then \<lparr>resp_Status = status, resp_Header = header @ [contentType], resp_Body = b\<rparr>
         else \<lparr>resp_Status = StatusInternalServerError, resp_Header = header @ [contentType],
                resp_Body = ErrorJSON (plainError (EncodeErrorOf v))\<rparr>
     | _ \<Rightarrow> \<lparr>resp_Status = status, resp_Header = header @ [contentType], resp_Body = b\<rparr>)"

definition writeError :: "(string \<times> string) list \<Rightarrow> nat \<Rightarrow> message \<Rightarrow> Response" where
  "writeError header status msg = writeJSON header status (ErrorJSON (plainError msg))"

lemma writeJSON_simps [simp]:
  "encodable v \<Longrightarrow> writeJSON h status (ValueJSON v) =
    \<lparr>resp_Status = status, resp_Header = h @ [contentType], resp_Body = ValueJSON v\<rparr>"
  "writeJSON h status (ErrorJSON e) =
    \<lparr>resp_Status = status, resp_Header = h @ [contentType], resp_Body = ErrorJSON e\<rparr>"
  by (simp_all add: writeJSON_def)

lemma writeError_simps [simp]:
  "resp_Status (writeError h status msg) = status"
  "resp_Header (writeError h status msg) = h @ [contentType]"
  "resp_Body (writeError h status msg) = ErrorJSON (plainError msg)"
  by (simp_all add: writeError_def)

lemma writeJSON_status: "resp_Status (writeJSON h status b) \<in> {status, StatusInternalServerError}"
  by (simp add: writeJSON_def split: body.split)

section \<open>Errors of the BACnet client\<close>

definition bacnetStatus :: "ErrorCode \<Rightarrow> nat" where
  "bacnetStatus code =
    (if code = ErrorCodeUnknownObject \<or> code = ErrorCodeUnknownProperty then StatusNotFound
     else if code = ErrorCodeWriteAccessDenied then StatusForbidden
     else if code = ErrorCodeValueOutOfRange then StatusUnprocessableEntity
     else if code = ErrorCodeTimeout then StatusGatewayTimeout
     else StatusBadGateway)"

definition writeBACnetError :: "error \<Rightarrow> Response" where
  "writeBACnetError err =
    (case asBACnetError err of
       Some bacErr \<Rightarrow>
         writeJSON [] (bacnetStatus (Code bacErr)) (ErrorJSON
           \<lparr>eb_Error = ErrorOf (BACnetErr bacErr), eb_Class = showNat (unat (Class bacErr)),
              eb_Code = showNat (unat (Code bacErr))\<rparr>)
     | None \<Rightarrow>
         if asRejectError err \<noteq> None then writeError [] StatusBadGateway (ErrorOf err)
         else if asAbortError err \<noteq> None then writeError [] StatusBadGateway (ErrorOf err)
         else if isErrTimeout err
           then writeError [] StatusGatewayTimeout (Text ''bacnet device did not respond in time'')
         else writeError [] StatusBadGateway (ErrorOf err))"

text \<open>The status of each error, whatever context it was wrapped in.\<close>

lemma writeBACnetError_status:
  "resp_Status (writeBACnetError err) =
    (case asBACnetError err of
       Some b \<Rightarrow> bacnetStatus (Code b)
     | None \<Rightarrow> if asRejectError err = None \<and> asAbortError err = None \<and> isErrTimeout err
         then StatusGatewayTimeout else StatusBadGateway)"
  by (auto simp: writeBACnetError_def split: option.split)

lemma writeBACnetError_wrap:
  "resp_Status (writeBACnetError (Wrap c e)) = resp_Status (writeBACnetError e)"
  by (simp only: writeBACnetError_status wrap_transparent)

lemma writeBACnetError_failure: "400 \<le> resp_Status (writeBACnetError err) \<and> resp_Status (writeBACnetError err) \<noteq> StatusInternalServerError"
  by (simp add: writeBACnetError_status bacnetStatus_def Status_defs split: option.split)

end
