(* ===== verification/Go_Path.thy ===== *)
theory Go_Path
  imports Go_Text
begin

text \<open>
  \<^verbatim>\<open>path.Match\<close> of the Go standard library, which the authorization rules use for patterns:
  its chunk scanner, chunk matcher and star loop, step by step. For patterns of plain characters
  and stars the matcher, which never backtracks over a star, is shown to agree with the meaning of
  the pattern: a star stands for any text without a slash.
\<close>

section \<open>Scanning\<close>

definition backslash :: char where "backslash = CHR 0x5C"

fun dropStars :: "string \<Rightarrow> string" where
  "dropStars (c # p) = (if c = CHR ''*'' then dropStars p else c # p)"
| "dropStars [] = []"

text \<open>The number of characters before the next star outside brackets.\<close>

fun scan :: "bool \<Rightarrow> string \<Rightarrow> nat" where
  "scan inrange [] = 0"
| "scan inrange (c # p) =
    (if c = backslash then (case p of [] \<Rightarrow> 1 | _ # p' \<Rightarrow> 2 + scan inrange p')
     else if c = CHR ''['' then 1 + scan True p
     else if c = CHR '']'' then 1 + scan False p
     else if c = CHR ''*'' \<and> \<not> inrange then 0
     else 1 + scan inrange p)"

definition scanChunk :: "string \<Rightarrow> bool \<times> string \<times> string" where
  "scanChunk pattern =
    (let star = (pattern \<noteq> [] \<and> hd pattern = CHR ''*'');
         p = dropStars pattern
     in (star, take (scan False p) p, drop (scan False p) p))"

lemma dropStars_length: "length (dropStars p) \<le> length p"
  by (induction p) auto

lemma dropStars_star: "p \<noteq> [] \<Longrightarrow> hd p = CHR ''*'' \<Longrightarrow> length (dropStars p) < length p"
  using dropStars_length [of "tl p"] by (cases p) (auto simp: less_Suc_eq_le)

lemma dropStars_other: "p \<noteq> [] \<Longrightarrow> hd p \<noteq> CHR ''*'' \<Longrightarrow> dropStars p = p"
  by (cases p) auto

lemma scan_pos: "p \<noteq> [] \<Longrightarrow> hd p \<noteq> CHR ''*'' \<Longrightarrow> 0 < scan r p"
  by (cases p) (auto split: list.split)

lemma scanChunk_shorter:
  assumes "scanChunk pattern = (star, chunk, rest)" and "pattern \<noteq> []"
  shows "length rest < length pattern"
proof (cases "hd pattern = CHR ''*''")
  case True
  then show ?thesis
    using dropStars_star [OF assms(2)] assms(1) by (auto simp: scanChunk_def Let_def)
next
  case False
  then show ?thesis
    using dropStars_other [OF assms(2)] scan_pos [OF assms(2), of False] assms
    by (auto simp: scanChunk_def Let_def)
qed

section \<open>Matching one chunk\<close>

text \<open>\<open>None\<close> is \<^verbatim>\<open>ErrBadPattern\<close>. What is left of the chunk is never empty.\<close>

definition getEsc :: "string \<Rightarrow> (rune \<times> string) option" where
  "getEsc chunk =
    (if chunk = [] \<or> hd chunk = CHR ''-'' \<or> hd chunk = CHR '']'' then None
     else let chunk = (if hd chunk = backslash then tl chunk else chunk) in
       if chunk = [] then None
       else let (r, n) = decodeRune (bytesOf chunk) in
         if r = RuneError \<and> n = 1 then None
         else if drop n chunk = [] then None
         else Some (r, drop n chunk))"

lemma getEsc_shorter: "getEsc chunk = Some (r, rest) \<Longrightarrow> length rest < length chunk \<and> rest \<noteq> []"
proof -
  assume *: "getEsc chunk = Some (r, rest)"
  define c where "c = (if hd chunk = backslash then tl chunk else chunk)"
  have "chunk \<noteq> []" "c \<noteq> []" "rest = drop (snd (decodeRune (bytesOf c))) c" "rest \<noteq> []"
    using * by (auto simp: getEsc_def c_def Let_def split: if_splits prod.splits)
  moreover have "1 \<le> snd (decodeRune (bytesOf c))"
    using decodeRune_width_pos [of "bytesOf c"] \<open>c \<noteq> []\<close> by (simp add: bytesOf_def)
  moreover have "length c \<le> length chunk"
    by (auto simp: c_def)
  ultimately show ?thesis by auto
qed

text \<open>The ranges of a bracket expression: whether one of them has the rune, and what follows.\<close>

function rangeLoop :: "bool \<Rightarrow> rune \<Rightarrow> bool \<Rightarrow> string \<Rightarrow> (bool \<times> string) option" where
  "rangeLoop some r match chunk =
    (if chunk \<noteq> [] \<and> hd chunk = CHR '']'' \<and> some then Some (match, tl chunk)
     else case getEsc chunk of
       None \<Rightarrow> None
     | Some (lo, chunk1) \<Rightarrow>
         if hd chunk1 = CHR ''-'' then
           case getEsc (tl chunk1) of
             None \<Rightarrow> None
           | Some (hi, chunk2) \<Rightarrow> rangeLoop True r (match \<or> lo \<le> r \<and> r \<le> hi) chunk2
         else rangeLoop True r (match \<or> lo \<le> r \<and> r \<le> lo) chunk1)"
  by pat_completeness auto
termination
proof (relation "measure (\<lambda>(s, r, m, c). length c)", goal_cases)
  case (2 some r match chunk x lo chunk1 y hi chunk2)
  then show ?case
    using getEsc_shorter [of chunk lo chunk1] getEsc_shorter [of "tl chunk1" hi chunk2] by auto
next
  case (3 some r match chunk x lo chunk1)
  then show ?case using getEsc_shorter [of chunk lo chunk1] by auto
qed simp

declare rangeLoop.simps [simp del]

lemma rangeLoop_shorter: "rangeLoop some r m c = Some (m', c') \<Longrightarrow> length c' < length c"
proof (induction some r m c rule: rangeLoop.induct)
  case (1 some r match chunk)
  show ?case
  proof (cases "chunk \<noteq> [] \<and> hd chunk = CHR '']'' \<and> some")
    case True
    then show ?thesis using "1.prems" by (subst (asm) rangeLoop.simps) auto
  next
    case False
    then obtain lo c1 where g: "getEsc chunk = Some (lo, c1)"
      using "1.prems" by (subst (asm) rangeLoop.simps) (auto split: option.splits)
    note l1 = getEsc_shorter [OF g]
    show ?thesis
    proof (cases "hd c1 = CHR ''-''")
      case True
      then obtain hi c2 where g2: "getEsc (tl c1) = Some (hi, c2)"
          and r: "rangeLoop True r (match \<or> lo \<le> r \<and> r \<le> hi) c2 = Some (m', c')"
        using "1.prems" False g by (subst (asm) rangeLoop.simps) (auto split: option.splits)
      have "length c' < length c2"
        by (rule "1.IH"(1) [OF False g refl True g2 refl r])
      then show ?thesis using getEsc_shorter [OF g2] l1 by auto
    next
      case notDash: False
      then have r: "rangeLoop True r (match \<or> lo \<le> r \<and> r \<le> lo) c1 = Some (m', c')"
        using "1.prems" False g by (subst (asm) rangeLoop.simps) (auto split: option.splits)
      have "length c' < length c1"
        by (rule "1.IH"(2) [OF False g refl notDash r])
      then show ?thesis using l1 by auto
    qed
  qed
qed

text \<open>
  \<^verbatim>\<open>matchChunk\<close>: the outer option is \<^verbatim>\<open>ErrBadPattern\<close>, the inner one the rest of the text
  when the chunk matches its start. Once the match has failed, the loop only checks the pattern.
\<close>

function matchChunk :: "bool \<Rightarrow> string \<Rightarrow> string \<Rightarrow> string option option" where
  "matchChunk failed0 chunk s =
    (if chunk = [] then Some (if failed0 then None else Some s)
     else
       let failed = (failed0 \<or> s = []) in
       if hd chunk = CHR ''['' then
         let (r, n) = (if failed then (0, 0) else decodeRune (bytesOf s));
             negated = (tl chunk \<noteq> [] \<and> hd (tl chunk) = CHR ''^'')
         in case rangeLoop False r False (if negated then tl (tl chunk) else tl chunk) of
              None \<Rightarrow> None
            | Some (match, chunk') \<Rightarrow> matchChunk (failed \<or> match = negated) chunk' (drop n s)
       else if hd chunk = CHR ''?'' then
         if failed then matchChunk True (tl chunk) s
         else matchChunk (hd s = CHR ''/'') (tl chunk) (drop (snd (decodeRune (bytesOf s))) s)
       else
         let lit = (if hd chunk = backslash then tl chunk else chunk) in
         if lit = [] then None
         else if failed then matchChunk True (tl lit) s
         else matchChunk (hd lit \<noteq> hd s) (tl lit) (tl s))"
  by pat_completeness auto
termination
proof (relation "measure (\<lambda>(f, c, s). length c)", goal_cases)
  case (2 failed0 chunk s failed p r n negated q match chunk')
  then show ?case
    using rangeLoop_shorter [of False r False "if negated then tl (tl chunk) else tl chunk" match chunk']
    by (cases chunk) (auto split: if_splits)
qed (auto simp: length_greater_0_conv intro: diff_less)

declare matchChunk.simps [simp del]

section \<open>The matcher\<close>

text \<open>The loop over the positions a star may skip to; \<open>fin\<close> says that no pattern is left.\<close>

fun skipLoop :: "string \<Rightarrow> bool \<Rightarrow> string \<Rightarrow> string option option" where
  "skipLoop chunk fin [] = Some None"
| "skipLoop chunk fin (c # s) =
    (if c = CHR ''/'' then Some None
     else case matchChunk False chunk s of
       None \<Rightarrow> None
     | Some None \<Rightarrow> skipLoop chunk fin s
     | Some (Some t) \<Rightarrow> if fin \<and> t \<noteq> [] then skipLoop chunk fin s else Some (Some t))"

text \<open>The check that the rest of the pattern is well formed.\<close>

function checkPattern :: "string \<Rightarrow> bool" where
  "checkPattern pattern =
    (if pattern = [] then True
     else case scanChunk pattern of (_, chunk, rest) \<Rightarrow>
       matchChunk False chunk [] \<noteq> None \<and> checkPattern rest)"
  by pat_completeness auto
termination
  by (relation "measure length") (auto dest: scanChunk_shorter [OF sym])

declare checkPattern.simps [simp del]

text \<open>\<^verbatim>\<open>path.Match\<close>; \<open>None\<close> is \<^verbatim>\<open>ErrBadPattern\<close>.\<close>

function path_Match :: "string \<Rightarrow> string \<Rightarrow> bool option" where
  "path_Match pattern name =
    (if pattern = [] then Some (name = [])
     else case scanChunk pattern of (star, chunk, rest) \<Rightarrow>
       if star \<and> chunk = [] then Some (CHR ''/'' \<notin> set name)
       else case matchChunk False chunk name of
         None \<Rightarrow> None
       | Some here \<Rightarrow>
           if here \<noteq> None \<and> (here = Some [] \<or> rest \<noteq> []) then path_Match rest (the here)
           else if star then
             case skipLoop chunk (rest = []) name of
               None \<Rightarrow> None
             | Some (Some t) \<Rightarrow> path_Match rest t
             | Some None \<Rightarrow> if checkPattern rest then Some False else None
           else if checkPattern rest then Some False else None)"
  by pat_completeness auto
termination
  by (relation "measure (\<lambda>(p, n). length p)") (auto dest: scanChunk_shorter [OF sym])

declare path_Match.simps [simp del]

section \<open>The meaning of patterns of characters and stars\<close>

text \<open>A star is any text without a slash, every other character itself.\<close>

fun globMatches :: "string \<Rightarrow> string \<Rightarrow> bool" where
  "globMatches [] v = (v = [])"
| "globMatches (c # p) v =
    (if c = CHR ''*''
     then globMatches p v \<or> (case v of [] \<Rightarrow> False | x # v' \<Rightarrow> x \<noteq> CHR ''/'' \<and> globMatches (c # p) v')
     else (case v of [] \<Rightarrow> False | x # v' \<Rightarrow> x = c \<and> globMatches p v'))"

lemma glob_Nil [simp]: "globMatches [] v \<longleftrightarrow> v = []"
  by simp

lemma glob_char [simp]:
  "c \<noteq> CHR ''*'' \<Longrightarrow> globMatches (c # p) v \<longleftrightarrow> (case v of [] \<Rightarrow> False | x # v' \<Rightarrow> x = c \<and> globMatches p v')"
  by simp

lemma glob_star_step:
  "globMatches (CHR ''*'' # p) v
    \<longleftrightarrow> globMatches p v \<or> (case v of [] \<Rightarrow> False | x # v' \<Rightarrow> x \<noteq> CHR ''/'' \<and> globMatches (CHR ''*'' # p) v')"
  by simp

declare globMatches.simps(2) [simp del]

lemma glob_star: "globMatches (CHR ''*'' # p) v \<longleftrightarrow> (\<exists>a b. v = a @ b \<and> CHR ''/'' \<notin> set a \<and> globMatches p b)"
  (is "_ \<longleftrightarrow> ?R v")
proof (induction v)
  case Nil
  then show ?case by (subst glob_star_step) simp
next
  case (Cons x v)
  have "?R (x # v)" if "globMatches p (x # v)"
    using that by (intro exI [of _ "[]"] exI [of _ "x # v"]) simp
  moreover have "?R (x # v)" if "x \<noteq> CHR ''/''" "v = a @ b" "CHR ''/'' \<notin> set a" "globMatches p b" for a b
    using that by (intro exI [of _ "x # a"] exI [of _ b]) simp
  moreover have "globMatches p (x # v) \<or> x \<noteq> CHR ''/'' \<and> ?R v" if "?R (x # v)"
    using that unfolding Cons_eq_append_conv by (elim exE conjE disjE) (auto, blast)
  ultimately have "?R (x # v) \<longleftrightarrow> globMatches p (x # v) \<or> x \<noteq> CHR ''/'' \<and> ?R v"
    by blast
  with Cons show ?case by (subst glob_star_step) simp
qed

text \<open>The characters that have no special meaning other than the star's.\<close>

definition plainChar :: "char \<Rightarrow> bool" where
  "plainChar c \<longleftrightarrow> c \<noteq> CHR ''['' \<and> c \<noteq> CHR ''?'' \<and> c \<noteq> backslash"

abbreviation "starless w \<equiv> CHR ''*'' \<notin> set w"

lemma glob_star_absorb:
  "CHR ''/'' \<notin> set a \<Longrightarrow> globMatches (CHR ''*'' # p) b \<Longrightarrow> globMatches (CHR ''*'' # p) (a @ b)"
  unfolding glob_star by (metis Un_iff append_assoc set_append)

lemma glob_star_star: "globMatches (CHR ''*'' # CHR ''*'' # p) v = globMatches (CHR ''*'' # p) v"
proof
  assume "globMatches (CHR ''*'' # CHR ''*'' # p) v"
  then obtain a b where "v = a @ b" "CHR ''/'' \<notin> set a" "globMatches (CHR ''*'' # p) b"
    using glob_star [of "CHR ''*'' # p" v] by blast
  then show "globMatches (CHR ''*'' # p) v" using glob_star_absorb by blast
next
  assume "globMatches (CHR ''*'' # p) v"
  then show "globMatches (CHR ''*'' # CHR ''*'' # p) v"
    using glob_star_step [of "CHR ''*'' # p" v] by argo
qed

lemma glob_literal:
  "starless w \<Longrightarrow> globMatches (w @ p) v \<longleftrightarrow> take (length w) v = w \<and> globMatches p (drop (length w) v)"
proof (induction w arbitrary: v)
  case (Cons c w)
  from Cons.prems have c: "c \<noteq> CHR ''*''" and w: "starless w" by auto
  have "globMatches (c # (w @ p)) v \<longleftrightarrow> (case v of [] \<Rightarrow> False | x # v' \<Rightarrow> x = c \<and> globMatches (w @ p) v')"
    by (rule glob_char [OF c])
  then show ?case by (cases v) (simp_all only: Cons.IH [OF w] append_Cons list.case length_Cons take_Suc_Cons drop_Suc_Cons list.inject take_Nil drop_Nil list.distinct simp_thms conj_assoc)
qed simp

lemma glob_dropStars:
  assumes "p \<noteq> []" and "hd p = CHR ''*''"
  shows "globMatches p v = globMatches (CHR ''*'' # dropStars p) v"
  using assms
proof (induction p)
  case (Cons c p)
  then show ?case by (cases p) (auto simp: glob_star_star)
qed simp

text \<open>
  Where a literal occurs at two places without a slash before the second one, there is no slash
  between its ends either: the slashes in \<open>w @ mid = a @ w\<close> are those of \<open>w\<close>.
\<close>

lemma no_slash_between:
  assumes prefix: "take (length w) s = w" "take (length w) s' = w" and s: "s = a @ s'" and "sl \<notin> set a"
  shows "\<exists>mid. drop (length w) s = mid @ drop (length w) s' \<and> sl \<notin> set mid"
proof -
  let ?m = "length w"
  obtain r' where r': "s' = w @ r'" using prefix(2) by (metis append_take_drop_id)
  let ?mid = "drop ?m (a @ w)"
  have "take ?m (a @ w @ r') = w" using prefix(1) s r' by simp
  then have "take ?m (a @ w) = w"
    by simp
  then have aw: "a @ w = w @ ?mid"
    using append_take_drop_id [of ?m "a @ w"] by simp
  have "s = w @ ?mid @ r'"
    using s r' aw by simp
  then have "drop ?m s = ?mid @ r'"
    using s r' by (metis append_assoc append_eq_conv_conj)
  moreover have "count_list ?mid sl = 0"
    using arg_cong [OF aw, of "\<lambda>xs. count_list xs sl"] assms(4) by (simp add: count_list_0_iff)
  ultimately show ?thesis
    using r' by (auto simp: count_list_0_iff)
qed

section \<open>The matcher agrees with the meaning\<close>

lemma matchChunk_failed: "list_all plainChar w \<Longrightarrow> matchChunk True w s = Some None"
proof (induction w arbitrary: s)
  case Nil
  then show ?case by (subst matchChunk.simps) simp
next
  case (Cons c w)
  then show ?case by (subst matchChunk.simps) (simp add: plainChar_def)
qed

lemma matchChunk_plain:
  "list_all plainChar w \<Longrightarrow>
    matchChunk False w s = Some (if take (length w) s = w then Some (drop (length w) s) else None)"
proof (induction w arbitrary: s)
  case Nil
  then show ?case by (subst matchChunk.simps) simp
next
  case (Cons c w)
  then have c: "c \<noteq> CHR ''['' \<and> c \<noteq> CHR ''?'' \<and> c \<noteq> backslash" and w: "list_all plainChar w"
    by (simp_all flip: plainChar_def)
  have failed: "matchChunk True w t = Some None" for t
    using matchChunk_failed [OF w] .
  show ?case
  proof (cases s)
    case Nil
    then show ?thesis by (subst matchChunk.simps) (simp add: c failed)
  next
    case s: (Cons x t)
    have "matchChunk False (c # w) s = matchChunk (c \<noteq> x) w t"
      by (subst matchChunk.simps) (simp add: c s)
    then show ?thesis
      using Cons.IH [OF w] failed by (cases "c = x") (simp_all add: s)
  qed
qed

lemma scan_plain: "list_all plainChar p \<Longrightarrow> scan False p = length (takeWhile (\<lambda>c. c \<noteq> CHR ''*'') p)"
  by (induction p) (auto simp: plainChar_def)

text \<open>A chunk of a plain pattern: the literal up to the next star.\<close>

lemma scanChunk_plain:
  assumes "list_all plainChar p" and "p \<noteq> []" and "scanChunk p = (star, w, rest)"
  shows "star = (hd p = CHR ''*'')" and "dropStars p = w @ rest" and "starless w"
    and "list_all plainChar w" and "list_all plainChar rest"
    and "rest = [] \<or> hd rest = CHR ''*''" and "\<not> star \<Longrightarrow> p = w @ rest" and "w = [] \<Longrightarrow> rest = []"
proof -
  have plain: "list_all plainChar (dropStars q)" if "list_all plainChar q" for q
    using that by (induction q) auto
  have nostar: "dropStars q = [] \<or> hd (dropStars q) \<noteq> CHR ''*''" for q
    by (induction q) auto
  let ?q = "dropStars p" and ?P = "\<lambda>c. c \<noteq> CHR ''*''"
  have "w = take (scan False ?q) ?q" "rest = drop (scan False ?q) ?q" and star: "star = (hd p = CHR ''*'')"
    using assms(2,3) by (auto simp: scanChunk_def Let_def)
  then have w: "w = takeWhile ?P ?q" and rest: "rest = dropWhile ?P ?q"
    using scan_plain [OF plain [OF assms(1)]] takeWhile_eq_take dropWhile_eq_drop by metis+
  show "star = (hd p = CHR ''*'')" by (rule star)
  show "dropStars p = w @ rest" by (simp add: w rest)
  then show "list_all plainChar w" "list_all plainChar rest"
    using plain [OF assms(1)] by simp_all
  show "starless w" unfolding w by (auto dest: set_takeWhileD)
  show "rest = [] \<or> hd rest = CHR ''*''" using hd_dropWhile [of ?P ?q] rest by auto
  show "p = w @ rest" if "\<not> star"
    using that dropStars_other [OF assms(2)] star by (simp add: w rest)
  show "rest = []" if "w = []"
    using that nostar [of p] w rest by (cases ?q) auto
qed

lemma skipLoop_total: "list_all plainChar w \<Longrightarrow> skipLoop w fin v \<noteq> None"
  by (induction v) (auto simp: matchChunk_plain)

text \<open>Once a chunk matches, nothing is lost by not moving on: a later match leaves a suffix that the next star can skip to.\<close>

lemma glob_commit:
  assumes "starless w" and "take (length w) s = w" and "rest \<noteq> []" and "hd rest = CHR ''*''"
  shows "globMatches (CHR ''*'' # w @ rest) s \<longleftrightarrow> globMatches rest (drop (length w) s)"
proof
  assume "globMatches (CHR ''*'' # w @ rest) s"
  then obtain a s' where s: "s = a @ s'" "CHR ''/'' \<notin> set a" and "globMatches (w @ rest) s'"
    using glob_star [of "w @ rest" s] by blast
  then have s': "take (length w) s' = w" "globMatches rest (drop (length w) s')"
    using glob_literal [OF assms(1)] by blast+
  obtain mid where "drop (length w) s = mid @ drop (length w) s'" "CHR ''/'' \<notin> set mid"
    using no_slash_between [OF assms(2) s'(1) s] by blast
  then show "globMatches rest (drop (length w) s)"
    using s'(2) glob_star_absorb [of mid "tl rest"] assms(3,4) by (cases rest) auto
next
  assume "globMatches rest (drop (length w) s)"
  then have "globMatches (w @ rest) s" using glob_literal [OF assms(1)] assms(2) by blast
  then show "globMatches (CHR ''*'' # w @ rest) s" using glob_star_step [of "w @ rest" s] by blast
qed

definition later :: "string \<Rightarrow> string \<Rightarrow> bool" where
  "later q v \<longleftrightarrow> (case v of [] \<Rightarrow> False | x # v' \<Rightarrow> x \<noteq> CHR ''/'' \<and> globMatches (CHR ''*'' # q) v')"

lemma skipLoop_glob:
  assumes "list_all plainChar w" and "starless w" and "rest = [] \<or> hd rest = CHR ''*''"
  shows "skipLoop w (rest = []) v = Some (Some t) \<Longrightarrow> later (w @ rest) v = globMatches rest t"
    and "skipLoop w (rest = []) v = Some None \<Longrightarrow> \<not> later (w @ rest) v"
proof (induction v)
  case (Cons c v)
  let ?here = "take (length w) v = w \<and> (rest \<noteq> [] \<or> drop (length w) v = [])"
  have go: "globMatches (CHR ''*'' # w @ rest) v \<longleftrightarrow> globMatches (w @ rest) v \<or> later (w @ rest) v"
    using glob_star_step [of "w @ rest" v] by (simp add: later_def)
  have yes: "globMatches (CHR ''*'' # w @ rest) v = globMatches rest (drop (length w) v)" if ?here
    using that assms(3) glob_commit [OF assms(2), of v rest] go glob_literal [OF assms(2), of rest v]
    by (cases "rest = []") auto
  have no: "\<not> globMatches (w @ rest) v" if "\<not> ?here"
    using that glob_literal [OF assms(2), of rest v] by auto
  have later: "later (w @ rest) (c # v) \<longleftrightarrow> c \<noteq> CHR ''/'' \<and> globMatches (CHR ''*'' # w @ rest) v"
    by (simp add: later_def)
  have skip: "skipLoop w (rest = []) (c # v) = (if c = CHR ''/'' then Some None
      else if ?here then Some (Some (drop (length w) v)) else skipLoop w (rest = []) v)"
  proof (cases "take (length w) v = w")
    case True
    then have "matchChunk False w v = Some (Some (drop (length w) v))"
      using matchChunk_plain [OF assms(1), of v] by (simp only: if_True simp_thms)
    with True show ?thesis by simp
  next
    case False
    then have "matchChunk False w v = Some None"
      using matchChunk_plain [OF assms(1), of v] by (simp only: if_False simp_thms)
    with False show ?thesis by simp
  qed
  { case 1
    have c: "c \<noteq> CHR ''/''"
    proof
      assume "c = CHR ''/''"
      then show False using 1 by simp
    qed
    show ?case
    proof (cases ?here)
      case True
      then have "t = drop (length w) v"
        using 1 unfolding skip if_not_P [OF c] if_P [OF True] by simp
      then show ?thesis using later yes [OF True] c by simp
    next
      case False
      have "skipLoop w (rest = []) v = Some (Some t)"
        using 1 unfolding skip if_not_P [OF c] if_not_P [OF False] by simp
      then have "later (w @ rest) v = globMatches rest t" by (rule Cons.IH(1))
      then show ?thesis using later no [OF False] go c by simp
    qed
  next
    case 2
    show ?case
    proof (cases "c = CHR ''/''")
      case False
      have here: "\<not> ?here"
      proof
        assume h: ?here
        show False using 2 unfolding skip if_not_P [OF False] if_P [OF h] by simp
      qed
      have "skipLoop w (rest = []) v = Some None"
        using 2 unfolding skip if_not_P [OF False] if_not_P [OF here] .
      then show ?thesis using later no [OF here] go Cons.IH(2) by simp
    qed (simp add: later_def) }
qed (simp_all add: later_def)

lemma checkPattern_plain: "list_all plainChar p \<Longrightarrow> checkPattern p"
proof (induction p rule: checkPattern.induct)
  case (1 p)
  show ?case
  proof (cases "p = []")
    case False
    obtain star w rest where c: "scanChunk p = (star, w, rest)"
      by (cases "scanChunk p") auto
    note parts = scanChunk_plain [OF "1.prems" False c]
    have "checkPattern rest"
      using "1.IH" [OF False c [symmetric] refl parts(5)] .
    moreover have "matchChunk False w [] \<noteq> None"
      by (simp only: matchChunk_plain [OF parts(4)] option.distinct simp_thms not_False_eq_True)
    ultimately show ?thesis
      using c False by (subst checkPattern.simps) (simp only: prod.case if_False simp_thms)
  qed (subst checkPattern.simps, simp)
qed

theorem path_Match_plain: "list_all plainChar p \<Longrightarrow> path_Match p v = Some (globMatches p v)"
proof (induction p v rule: path_Match.induct)
  case (1 p v)
  show ?case
  proof (cases "p = []")
    case True
    then show ?thesis by (subst path_Match.simps) simp
  next
    case False
    obtain star w rest where c: "scanChunk p = (star, w, rest)"
      by (cases "scanChunk p") auto
    note parts = scanChunk_plain [OF "1.prems" False c]
    let ?here = "take (length w) v = w \<and> (rest \<noteq> [] \<or> drop (length w) v = [])"
    have sp: "globMatches p v = (if star then globMatches (w @ rest) v \<or> later (w @ rest) v else globMatches (w @ rest) v)"
      using glob_dropStars [OF False, of v] parts(1,2,7) glob_star_step [of "w @ rest" v]
      by (cases star) (simp_all add: later_def)
    have lit: "globMatches (w @ rest) v \<longleftrightarrow> take (length w) v = w \<and> globMatches rest (drop (length w) v)"
      by (rule glob_literal [OF parts(3)])
    show ?thesis
    proof (cases "star \<and> w = []")
      case True
      then have "globMatches p v = globMatches ''*'' v"
        using glob_dropStars [OF False, of v] parts(1,2,8) by simp
      also have "\<dots> \<longleftrightarrow> CHR ''/'' \<notin> set v"
        by (simp add: glob_star)
      finally show ?thesis
        using True c False by (subst path_Match.simps) simp
    next
      case notTrailing: False
      have mc: "matchChunk False w v = Some (if take (length w) v = w then Some (drop (length w) v) else None)"
        by (rule matchChunk_plain [OF parts(4)])
      have G: "globMatches (CHR ''*'' # w @ rest) v \<longleftrightarrow> globMatches (w @ rest) v \<or> later (w @ rest) v"
        using glob_star_step [of "w @ rest" v] by (simp add: later_def)
      show ?thesis
      proof (cases ?here)
        case True
        then have "path_Match p v = path_Match rest (drop (length w) v)"
          using mc c False notTrailing by (subst path_Match.simps) auto
        moreover have "path_Match rest (drop (length w) v) = Some (globMatches rest (drop (length w) v))"
          using "1.IH"(1) [OF False c [symmetric] refl notTrailing mc _ parts(5)] True by auto
        moreover have "globMatches p v = globMatches rest (drop (length w) v)"
          using sp lit G True parts(6) glob_commit [OF parts(3), of v rest] by (cases "rest = []") auto
        ultimately show ?thesis by simp
      next
        case notHere: False
        then have none: "\<not> globMatches (w @ rest) v"
          using lit by auto
        obtain r where r: "skipLoop w (rest = []) v = Some r"
          using skipLoop_total [OF parts(4), of "rest = []" v] by blast
        note skip = skipLoop_glob [OF parts(4,3,6), of v]
        have unfolded: "path_Match p v =
            (if star then case r of Some t \<Rightarrow> path_Match rest t | None \<Rightarrow> Some False else Some False)"
          using mc c False notTrailing notHere r checkPattern_plain [OF parts(5)]
          by (subst path_Match.simps) (auto split: option.split)
        show ?thesis
        proof (cases "star \<and> r \<noteq> None")
          case True
          then obtain t where t: "r = Some t" and star by auto
          have "path_Match rest t = Some (globMatches rest t)"
            using "1.IH"(2) [OF False c [symmetric] refl notTrailing mc _ \<open>star\<close> r t parts(5)] notHere by auto
          then show ?thesis
            using unfolded t \<open>star\<close> sp none skip(1) [of t] r by simp
        next
          case False
          then show ?thesis using unfolded sp none skip(2) r by (auto split: option.splits)
        qed
      qed
    qed
  qed
qed

end
