(* ===== verification/Go_IP.thy ===== *)
theory Go_IP
  imports Go_Net
begin

text \<open>
  The addresses of Go's \<^verbatim>\<open>net\<close> and \<^verbatim>\<open>net/netip\<close> packages that authorization and the
  trusted proxies rely on: parsing and printing of IPv4 and IPv6 addresses, CIDR networks and
  membership in them. The lemmas show that membership is agreement on the leading bits.
\<close>

section \<open>Parsing\<close>

text \<open>\<^verbatim>\<open>parseIPv4Fields\<close>: \<open>atStart\<close> says that the previous character was a dot or that there was none.\<close>

fun v4Loop :: "bool \<Rightarrow> nat \<Rightarrow> nat \<Rightarrow> byte list \<Rightarrow> string \<Rightarrow> byte list option" where
  "v4Loop atStart val digLen fields [] =
    (if length fields < 3 then None else Some (fields @ [word_of_nat val]))"
| "v4Loop atStart val digLen fields (c # s) =
    (if isDigit c then
       if digLen = 1 \<and> val = 0 then None
       else if val * 10 + digitVal c > 255 then None
       else v4Loop False (val * 10 + digitVal c) (digLen + 1) fields s
     else if c = CHR ''.'' then
       if atStart \<or> s = [] then None
       else if length fields = 3 then None
       else v4Loop True 0 0 (fields @ [word_of_nat val]) s
     else None)"

definition parseIPv4Fields :: "string \<Rightarrow> byte list option" where
  "parseIPv4Fields s = v4Loop True 0 0 [] s"

definition hexVal :: "char \<Rightarrow> nat option" where
  "hexVal c =
    (let n = of_char c :: nat in
     if 48 \<le> n \<and> n \<le> 57 then Some (n - 48)
     else if 97 \<le> n \<and> n \<le> 102 then Some (n - 87)
     else if 65 \<le> n \<and> n \<le> 70 then Some (n - 55) else None)"

text \<open>One group of hex digits: their number, their value and the rest.\<close>

fun hexLoop :: "nat \<Rightarrow> nat \<Rightarrow> string \<Rightarrow> (nat \<times> nat \<times> string) option" where
  "hexLoop off acc [] = Some (off, acc, [])"
| "hexLoop off acc (c # s) =
    (case hexVal c of
       None \<Rightarrow> Some (off, acc, c # s)
     | Some d \<Rightarrow>
         if off > 3 then None
         else if acc * 16 + d > 65535 then None
         else hexLoop (off + 1) (acc * 16 + d) s)"

text \<open>The loop of \<^verbatim>\<open>parseIPv6\<close>: the octets so far, the place of the ellipsis and the rest.\<close>

function v6Loop :: "byte list \<Rightarrow> nat option \<Rightarrow> string \<Rightarrow> (byte list \<times> nat option \<times> string) option" where
  "v6Loop ip ellipsis s =
    (if length ip < 16 then
       case hexLoop 0 0 s of
         None \<Rightarrow> None
       | Some (off, acc, rest) \<Rightarrow>
           if off = 0 then None
           else if rest \<noteq> [] \<and> hd rest = CHR ''.'' then
             if ellipsis = None \<and> length ip \<noteq> 12 then None
             else if length ip + 4 > 16 then None
             else (case parseIPv4Fields s of None \<Rightarrow> None | Some f \<Rightarrow> Some (ip @ f, ellipsis, []))
           else
             let ip' = ip @ [word_of_nat (acc div 256), word_of_nat acc] in
             if rest = [] then Some (ip', ellipsis, [])
             else if hd rest \<noteq> CHR '':'' then None
             else if tl rest = [] then None
             else if hd (tl rest) = CHR '':'' then
               if ellipsis \<noteq> None then None
               else if tl (tl rest) = [] then Some (ip', Some (length ip'), [])
               else v6Loop ip' (Some (length ip')) (tl (tl rest))
             else v6Loop ip' ellipsis (tl rest)
     else Some (ip, ellipsis, s))"
  by pat_completeness auto
termination
  by (relation "measure (\<lambda>(ip, _, _). 16 - length ip)") (auto simp: diff_less_mono2)

declare v6Loop.simps [simp del]

definition parseIPv6 :: "string \<Rightarrow> byte list option" where
  "parseIPv6 s =
    (let lead = (take 2 s = ''::'');
         s' = (if lead then drop 2 s else s)
     in if lead \<and> s' = [] then Some (replicate 16 0)
        else case v6Loop [] (if lead then Some 0 else None) s' of
          None \<Rightarrow> None
        | Some (ip, ellipsis, rest) \<Rightarrow>
            if rest \<noteq> [] then None
            else if length ip < 16 then
              (case ellipsis of
                 None \<Rightarrow> None
               | Some e \<Rightarrow> Some (take e ip @ replicate (16 - length ip) 0 @ drop e ip))
            else if ellipsis \<noteq> None then None else Some ip)"

text \<open>\<^verbatim>\<open>netip.Addr\<close>: whether it is an IPv4 address, its sixteen octets and its zone.\<close>

record Addr =
  Is4 :: bool
  As16 :: "byte list"
  Zone :: string

definition ParseAddr :: "string \<Rightarrow> Addr option" where
  "ParseAddr s =
    (case dropWhile (\<lambda>c. c \<notin> {CHR ''.'', CHR '':'', CHR ''%''}) s of
       [] \<Rightarrow> None
     | c # _ \<Rightarrow>
         if c = CHR ''.'' then
           map_option (\<lambda>f. \<lparr>Is4 = True, As16 = v4InV6Prefix @ f, Zone = ''''\<rparr>) (parseIPv4Fields s)
         else if c = CHR '':'' then
           let addr = cutBefore s (CHR ''%'') in
           if addr \<noteq> s \<and> length s = length addr + 1 then None
           else map_option (\<lambda>ip. \<lparr>Is4 = False, As16 = ip, Zone = drop (length addr + 1) s\<rparr>) (parseIPv6 addr)
         else None)"

text \<open>\<^verbatim>\<open>net.ParseIP\<close>: nil for anything that is not an address without a zone.\<close>

definition ParseIP :: "string \<Rightarrow> IP" where
  "ParseIP s = (case ParseAddr s of Some a \<Rightarrow> if Zone a \<noteq> [] then [] else As16 a | None \<Rightarrow> [])"

section \<open>Printing\<close>

definition hexChar :: "nat \<Rightarrow> char" where
  "hexChar d = (if d < 10 then char_of (48 + d) else char_of (87 + d))"

fun showHex :: "nat \<Rightarrow> string" where
  "showHex n = (if n < 16 then [hexChar n] else showHex (n div 16) @ [hexChar (n mod 16)])"

declare showHex.simps [simp del]

definition v4String :: "byte list \<Rightarrow> string" where
  "v4String ip = showNat (unat (ip ! 0)) @ ''.'' @ showNat (unat (ip ! 1)) @ ''.''
     @ showNat (unat (ip ! 2)) @ ''.'' @ showNat (unat (ip ! 3))"

definition group :: "byte list \<Rightarrow> nat \<Rightarrow> nat" where
  "group ip i = unat (ip ! (2 * i)) * 256 + unat (ip ! (2 * i + 1))"

text \<open>The first longest run of two or more zero groups: where it starts and ends.\<close>

definition zeroRun :: "byte list \<Rightarrow> nat \<times> nat" where
  "zeroRun ip =
    foldl (\<lambda>(zs, ze) i.
      let j = i + length (takeWhile (\<lambda>k. group ip k = 0) [i..<8])
      in if 2 \<le> j - i \<and> ze - zs < j - i then (i, j) else (zs, ze)) (255, 255) [0..<8]"

function v6Groups :: "byte list \<Rightarrow> nat \<Rightarrow> nat \<Rightarrow> nat \<Rightarrow> string" where
  "v6Groups ip zs ze i =
    (if i < 8 then
       if i = zs then
         if ze \<ge> 8 then ''::''
         else ''::'' @ showHex (group ip ze) @ v6Groups ip zs ze (max (ze + 1) (i + 1))
       else (if i > 0 then '':'' else '''') @ showHex (group ip i) @ v6Groups ip zs ze (i + 1)
     else '''')"
  by pat_completeness auto
termination
  by (relation "measure (\<lambda>(_, _, _, i). 8 - i)") auto

declare v6Groups.simps [simp del]

definition hexString :: "byte list \<Rightarrow> string" where
  "hexString bs = concat (map (\<lambda>b. [hexChar (unat b div 16), hexChar (unat b mod 16)]) bs)"

definition IP_String :: "IP \<Rightarrow> string" where
  "IP_String ip =
    (if ip = [] then ''<nil>''
     else if length ip \<noteq> 4 \<and> length ip \<noteq> 16 then CHR ''?'' # hexString ip
     else if To4 ip \<noteq> [] then v4String (To4 ip)
     else case zeroRun ip of (zs, ze) \<Rightarrow> v6Groups ip zs ze 0)"

section \<open>Networks\<close>

record IPNet =
  NetIP :: IP
  NetMask :: "byte list"

definition CIDRMask :: "nat \<Rightarrow> nat \<Rightarrow> byte list" where
  "CIDRMask ones bits =
    map (\<lambda>i. if 8 * (i + 1) \<le> ones then 0xFF
             else if ones \<le> 8 * i then 0
             else NOT (drop_bit (ones - 8 * i) 0xFF)) [0..<bits div 8]"

definition andOctets :: "byte list \<Rightarrow> byte list \<Rightarrow> byte list" where
  "andOctets a b = map2 (\<lambda>x y. x AND y) a b"

text \<open>\<^verbatim>\<open>ip.Mask(m)\<close>, for the masks that a CIDR gives: 4 or 16 octets.\<close>

definition Mask :: "IP \<Rightarrow> byte list \<Rightarrow> IP" where
  "Mask ip m =
    (let m = (if length m = 16 \<and> length ip = 4 \<and> take 12 m = replicate 12 0xFF then drop 12 m else m);
         ip = (if length m = 4 \<and> length ip = 16 \<and> take 12 ip = v4InV6Prefix then drop 12 ip else ip)
     in if length ip \<noteq> length m then [] else andOctets ip m)"

text \<open>The digits of a prefix length; \<^verbatim>\<open>dtoi\<close> gives up at 0xFFFFFF.\<close>

definition prefixLength :: "string \<Rightarrow> nat option" where
  "prefixLength s =
    (if s \<noteq> [] \<and> list_all isDigit s \<and> decimalValue s < 0xFFFFFF then Some (decimalValue s) else None)"

definition ParseCIDR :: "string \<Rightarrow> IPNet option" where
  "ParseCIDR s =
    (let addr = cutBefore s (CHR ''/'') in
     if addr = s then None
     else case (ParseAddr addr, prefixLength (drop (length addr + 1) s)) of
       (Some a, Some n) \<Rightarrow>
         let bits = (if Is4 a then 32 else 128) in
         if Zone a \<noteq> [] \<or> n > bits then None
         else let m = CIDRMask n bits in Some \<lparr>NetIP = Mask (As16 a) m, NetMask = m\<rparr>
     | _ \<Rightarrow> None)"

definition networkNumberAndMask :: "IPNet \<Rightarrow> IP \<times> byte list" where
  "networkNumberAndMask n =
    (let ip = (if To4 (NetIP n) \<noteq> [] then To4 (NetIP n) else NetIP n) in
     if length ip \<noteq> 4 \<and> length ip \<noteq> 16 then ([], [])
     else if length (NetMask n) = 4 then if length ip \<noteq> 4 then ([], []) else (ip, NetMask n)
     else if length (NetMask n) = 16 then (ip, if length ip = 4 then drop 12 (NetMask n) else NetMask n)
     else ([], []))"

definition Contains :: "IPNet \<Rightarrow> IP \<Rightarrow> bool" where
  "Contains n ip =
    (case networkNumberAndMask n of (nn, m) \<Rightarrow>
       let ip = (if To4 ip \<noteq> [] then To4 ip else ip) in
       length ip = length nn \<and> andOctets nn m = andOctets ip m)"

section \<open>Membership is agreement on the leading bits\<close>

definition bitAt :: "byte list \<Rightarrow> nat \<Rightarrow> bool" where
  "bitAt ip k = bit (ip ! (k div 8)) (7 - k mod 8)"

lemma length_CIDRMask [simp]: "length (CIDRMask n bits) = bits div 8"
  by (simp add: CIDRMask_def)

lemma length_andOctets [simp]: "length (andOctets a b) = min (length a) (length b)"
  by (simp add: andOctets_def)

lemma CIDRMask_bit:
  assumes "i < bits div 8" and "j < 8"
  shows "bit (CIDRMask n bits ! i) (7 - j) \<longleftrightarrow> 8 * i + j < n"
proof -
  have ones: "bit (0xFF :: byte) k \<longleftrightarrow> k < 8" for k
    by (simp add: bit_numeral_rec(1) bit_numeral_rec(2) bit_simps numeral_eq_Suc less_Suc_eq
        split: nat.split)
  have "bit (NOT (drop_bit s 0xFF) :: byte) (7 - j) \<longleftrightarrow> j < s" if "s < 8" for s
  proof -
    have "bit (drop_bit s 0xFF :: byte) (7 - j) \<longleftrightarrow> s + (7 - j) < 8"
      by (simp only: bit_drop_bit_eq o_def ones)
    with assms(2) that show ?thesis by (auto simp: bit_not_iff)
  qed
  from this [of "n - 8 * i"] show ?thesis
    using assms ones [of "7 - j"] by (auto simp: CIDRMask_def)
qed

lemma and_eq_iff: "(x :: byte) AND m = y AND m \<longleftrightarrow> (\<forall>j<8. bit m (7 - j) \<longrightarrow> bit x (7 - j) = bit y (7 - j))"
proof -
  have swap: "(\<forall>j<8. P (7 - j)) \<longleftrightarrow> (\<forall>j<8. P j)" for P :: "nat \<Rightarrow> bool"
  proof (intro iffI allI impI)
    fix j :: nat assume *: "\<forall>j<8. P (7 - j)" and "j < 8"
    then show "P j" using *[rule_format, of "7 - j"] by simp
  qed simp
  show ?thesis
    unfolding swap [of "\<lambda>i. bit m i \<longrightarrow> bit x i = bit y i"] by (auto simp: bit_eq_iff bit_and_iff)
qed

lemma andOctets_CIDRMask:
  assumes "length a = bits div 8" and "length b = bits div 8" and "n \<le> 8 * (bits div 8)"
  shows "andOctets a (CIDRMask n bits) = andOctets b (CIDRMask n bits) \<longleftrightarrow> (\<forall>k<n. bitAt a k = bitAt b k)"
proof -
  have "andOctets a (CIDRMask n bits) = andOctets b (CIDRMask n bits)
      \<longleftrightarrow> (\<forall>i<bits div 8. a ! i AND CIDRMask n bits ! i = b ! i AND CIDRMask n bits ! i)"
    using assms by (auto simp: list_eq_iff_nth_eq andOctets_def)
  also have "\<dots> \<longleftrightarrow> (\<forall>i<bits div 8. \<forall>j<8. 8 * i + j < n \<longrightarrow> bitAt a (8 * i + j) = bitAt b (8 * i + j))"
    by (auto simp: and_eq_iff CIDRMask_bit bitAt_def)
  also have "\<dots> \<longleftrightarrow> (\<forall>k<n. bitAt a k = bitAt b k)"
  proof (rule iffI; (intro allI impI)?)
    fix k assume *: "\<forall>i<bits div 8. \<forall>j<8. 8 * i + j < n \<longrightarrow> bitAt a (8 * i + j) = bitAt b (8 * i + j)" and "k < n"
    then have "k div 8 < bits div 8" using assms(3) by (simp add: less_mult_imp_div_less mult.commute)
    then show "bitAt a k = bitAt b k"
      using *[rule_format, of "k div 8" "k mod 8"] \<open>k < n\<close> by simp
  qed auto
  finally show ?thesis .
qed

lemma andOctets_idem: "length a = length m \<Longrightarrow> andOctets (andOctets a m) m = andOctets a m"
  by (auto simp: andOctets_def list_eq_iff_nth_eq)

definition v4Net :: "byte list \<Rightarrow> nat \<Rightarrow> IPNet" where
  "v4Net a n = \<lparr>NetIP = Mask (v4InV6Prefix @ a) (CIDRMask n 32), NetMask = CIDRMask n 32\<rparr>"

lemma Contains_v4:
  assumes "length a = 4" and "n \<le> 32"
  shows "Contains (v4Net a n) ip \<longleftrightarrow> length (To4 ip) = 4 \<and> (\<forall>k<n. bitAt a k = bitAt (To4 ip) k)"
proof -
  have mask: "NetIP (v4Net a n) = andOctets a (CIDRMask n 32)"
    using assms(1) by (simp add: v4Net_def Mask_def)
  have len: "length (andOctets a (CIDRMask n 32)) = 4"
    using assms(1) by simp
  then have "andOctets a (CIDRMask n 32) \<noteq> []"
    by (metis list.size(3) zero_neq_numeral)
  with len have "networkNumberAndMask (v4Net a n) = (andOctets a (CIDRMask n 32), CIDRMask n 32)"
    by (simp add: networkNumberAndMask_def mask To4_def Let_def) (simp add: v4Net_def)
  moreover have "length (To4 ip) = 4 \<or> To4 ip = []"
    by (auto simp: To4_def)
  moreover have "length ip = 4 \<Longrightarrow> To4 ip \<noteq> []"
    by (auto simp: To4_def)
  ultimately show ?thesis
    using assms andOctets_CIDRMask [of a 32 "To4 ip" n] andOctets_idem [of a "CIDRMask n 32"]
    by (auto simp: Contains_def Let_def)
qed

lemma ParseCIDR_v4:
  assumes "parseIPv4Fields addr = Some a" and "CHR ''/'' \<notin> set addr" and "prefixLength digits = Some n" and "n \<le> 32"
    and dots: "\<exists>u v. addr = u @ CHR ''.'' # v \<and> CHR '':'' \<notin> set u \<and> CHR ''%'' \<notin> set u \<and> CHR ''.'' \<notin> set u"
  shows "ParseCIDR (addr @ ''/'' @ digits) = Some (v4Net a n)"
proof -
  have "dropWhile (\<lambda>c. c \<notin> {CHR ''.'', CHR '':'', CHR ''%''}) addr = CHR ''.'' # v"
    if "addr = u @ CHR ''.'' # v" "CHR '':'' \<notin> set u" "CHR ''%'' \<notin> set u" "CHR ''.'' \<notin> set u" for u v
    unfolding that(1) using that(2-4) by (induction u) auto
  then obtain v where "dropWhile (\<lambda>c. c \<notin> {CHR ''.'', CHR '':'', CHR ''%''}) addr = CHR ''.'' # v"
    using dots by blast
  then have "ParseAddr addr = Some \<lparr>Is4 = True, As16 = v4InV6Prefix @ a, Zone = []\<rparr>"
    using assms(1) by (simp add: ParseAddr_def)
  moreover have "cutBefore (addr @ ''/'' @ digits) (CHR ''/'') = addr"
    using assms(2) by (auto simp: cutBefore_def takeWhile_append)
  ultimately show ?thesis
    using assms(3,4) by (simp add: ParseCIDR_def v4Net_def Let_def)
qed

section \<open>Lengths of parsed addresses\<close>

lemma v4Loop_length: "v4Loop atStart v d fs s = Some ip \<Longrightarrow> length fs \<le> 3 \<Longrightarrow> length ip = 4"
  by (induction atStart v d fs s rule: v4Loop.induct) (auto split: if_splits)

lemma parseIPv4Fields_length: "parseIPv4Fields s = Some ip \<Longrightarrow> length ip = 4"
  using v4Loop_length [of True 0 0 "[]" s ip] by (simp add: parseIPv4Fields_def)

lemma v6Loop_length:
  assumes "v6Loop ip e s = Some (ip', e', r)" and "even (length ip)" and "length ip \<le> 16" and "\<forall>k. e = Some k \<longrightarrow> k \<le> length ip"
  shows "length ip' \<le> 16 \<and> (\<forall>k. e' = Some k \<longrightarrow> k \<le> length ip')"
  using assms
proof (induction ip e s rule: v6Loop.induct)
  case (1 ip e s)
  show ?case
  proof (cases "length ip < 16")
    case short: True
    with 1(3) obtain off acc rest where h: "hexLoop 0 0 s = Some (off, acc, rest)" "off \<noteq> 0"
      by (subst (asm) v6Loop.simps) (auto split: option.splits if_splits)
    have two: "length ip + 2 \<le> 16" "even (length ip + 2)" using short 1(4) by presburger+
    show ?thesis
    proof (cases "rest \<noteq> [] \<and> hd rest = CHR ''.''")
      case True
      with 1(3,6) short h show ?thesis
        by (subst (asm) v6Loop.simps) (auto split: option.splits if_splits dest!: parseIPv4Fields_length)
    next
      case False
      let ?ip = "ip @ [word_of_nat (acc div 256), word_of_nat acc]"
      note IH = 1(1) [OF short h(1) refl refl h(2) False refl] 1(2) [OF short h(1) refl refl h(2) False refl]
      have len: "even (length ?ip)" "length ?ip \<le> 16" using two by simp_all
      from False short h 1(3) consider (finished) "Some (?ip, e, []) = Some (ip', e', r) \<or> Some (?ip, Some (length ?ip), []) = Some (ip', e', r)"
        | (ellipsis) "rest \<noteq> []" "hd rest = CHR '':''" "tl rest \<noteq> []" "hd (tl rest) = CHR '':''" "e = None" "tl (tl rest) \<noteq> []"
            "v6Loop ?ip (Some (length ?ip)) (tl (tl rest)) = Some (ip', e', r)"
        | (more) "rest \<noteq> []" "hd rest = CHR '':''" "tl rest \<noteq> []" "hd (tl rest) \<noteq> CHR '':''"
            "v6Loop ?ip e (tl rest) = Some (ip', e', r)"
        by (subst (asm) v6Loop.simps) (auto simp: Let_def split: if_splits)
      then show ?thesis
      proof cases
        case finished
        with two(1) 1(6) show ?thesis by (auto intro: le_SucI)
      next
        case ellipsis
        show ?thesis by (rule IH(1)) (use ellipsis len in \<open>simp_all del: v6Loop.simps\<close>)
      next
        case more
        show ?thesis by (rule IH(2)) (use more len 1(6) in \<open>auto intro: le_SucI\<close>)
      qed
    qed
  next
    case False
    with 1(3,5,6) show ?thesis by (subst (asm) v6Loop.simps) auto
  qed
qed

lemma ParseIP_length: "length (ParseIP s) \<in> {0, 16}"
proof -
  have v6: "length ip = 16" if "parseIPv6 t = Some ip" for t ip
  proof -
    have "length (take k xs @ replicate (16 - length xs) 0 @ drop k xs) = 16" if "length xs \<le> 16" "k \<le> length xs" for k and xs :: "byte list"
      using that by simp
    with that show ?thesis
      by (auto simp: parseIPv6_def Let_def split: if_splits option.splits dest!: v6Loop_length)
  qed
  then show ?thesis
    by (auto simp: ParseIP_def ParseAddr_def Let_def split: option.splits list.splits if_splits dest!: parseIPv4Fields_length v6)
qed

end
