(* ===== verification/Authz.thy ===== *)
theory Authz
  imports Go_Path Go_IP
begin

text \<open>
  \<^verbatim>\<open>internal/authz\<close>: rules, conditions, and their evaluation with and without a trace. The
  lemmas show what the loop over the rules computes (the last applying rule up to the first
  decisive one), what the four match modes mean, that explaining gives the same result as
  evaluating, and which request fields a rule set can depend on.
\<close>

section \<open>Types\<close>

text \<open>These are strings in the code, and values outside the constants have their own branches.\<close>

type_synonym Permission = string
definition PermissionReadOnly :: Permission where "PermissionReadOnly = ''readonly''"
definition PermissionReadWrite :: Permission where "PermissionReadWrite = ''readwrite''"

type_synonym MatchMode = string
definition MatchNone :: MatchMode where "MatchNone = ''none''"
definition MatchNotAll :: MatchMode where "MatchNotAll = ''not-all''"
definition MatchAny :: MatchMode where "MatchAny = ''any''"
definition MatchAll :: MatchMode where "MatchAll = ''all''"

type_synonym Action = string
definition ActionAllowNow :: Action where "ActionAllowNow = ''allow-now''"
definition ActionDenyNow :: Action where "ActionDenyNow = ''deny-now''"
definition ActionAllow :: Action where "ActionAllow = ''allow''"
definition ActionDeny :: Action where "ActionDeny = ''deny''"

definition isAllow :: "Action \<Rightarrow> bool" where
  "isAllow a \<longleftrightarrow> a = ActionAllow \<or> a = ActionAllowNow"

definition isNow :: "Action \<Rightarrow> bool" where
  "isNow a \<longleftrightarrow> a = ActionAllowNow \<or> a = ActionDenyNow"

type_synonym ConditionType = string
definition ConditionDevice :: ConditionType where "ConditionDevice = ''device''"
definition ConditionIP :: ConditionType where "ConditionIP = ''ip''"
definition ConditionJWT :: ConditionType where "ConditionJWT = ''jwt''"
definition ConditionOperation :: ConditionType where "ConditionOperation = ''operation''"
definition ConditionToken :: ConditionType where "ConditionToken = ''token''"
definition ConditionVariable :: ConditionType where "ConditionVariable = ''variable''"

lemmas Condition_defs = ConditionDevice_def ConditionIP_def ConditionJWT_def ConditionOperation_def
  ConditionToken_def ConditionVariable_def
lemmas Match_defs = MatchNone_def MatchNotAll_def MatchAny_def MatchAll_def
lemmas Action_defs = ActionAllowNow_def ActionDenyNow_def ActionAllow_def ActionDeny_def

record Condition =
  cond_Type :: ConditionType
  cond_Field :: string
  cond_Value :: string

record Rule =
  rule_Name :: string
  rule_Conditions :: "Condition list"
  rule_Match :: MatchMode
  rule_Permission :: Permission
  rule_Action :: Action

definition UsesCondition :: "Rule list \<Rightarrow> ConditionType \<Rightarrow> bool" where
  "UsesCondition rules t \<longleftrightarrow> list_ex (\<lambda>r. list_ex (\<lambda>c. cond_Type c = t) (rule_Conditions r)) rules"

type_synonym Operation = string
definition OperationWhoIs :: Operation where "OperationWhoIs = ''who-is''"
definition OperationReadProperty :: Operation where "OperationReadProperty = ''read-property''"
definition OperationReadPropertyMultiple :: Operation where
  "OperationReadPropertyMultiple = ''read-property-multiple''"
definition OperationWriteProperty :: Operation where "OperationWriteProperty = ''write-property''"
definition OperationListDevices :: Operation where "OperationListDevices = ''list-devices''"

lemmas Operation_defs = OperationWhoIs_def OperationReadProperty_def OperationReadPropertyMultiple_def
  OperationWriteProperty_def OperationListDevices_def

definition RequiredPermission :: "Operation \<Rightarrow> Permission" where
  "RequiredPermission op = (if op = OperationWriteProperty then PermissionReadWrite else PermissionReadOnly)"

text \<open>Values of type \<^verbatim>\<open>any\<close> as \<^verbatim>\<open>encoding/json\<close> decodes them; a number is a float64, by its bits.\<close>

datatype any =
    NilAny
  | BoolAny bool
  | FloatAny u64
  | StringAny string
  | SliceAny "any list"
  | MapAny "(string \<times> any) list"

record Request =
  req_Device :: string
  req_ClientIP :: IP
  req_Operation :: Operation
  req_TokenName :: string
  req_JWTClaims :: "(string \<rightharpoonup> any) option"
  req_ObjectName :: string

record Result =
  result_Allowed :: bool
  result_Permission :: Permission
  result_RuleName :: string

text \<open>
  How \<^verbatim>\<open>fmt\<close> and \<^verbatim>\<open>encoding/json\<close> print values is a parameter: the verb \<^verbatim>\<open>%v\<close>, JSON (which
  can fail) and the verb \<^verbatim>\<open>%q\<close>.
\<close>

record Formats =
  fmtV :: "any \<Rightarrow> string"
  fmtJSON :: "any \<Rightarrow> string option"
  fmtQ :: "string \<Rightarrow> string"

section \<open>Conditions\<close>

definition matchWildcard :: "string \<Rightarrow> string \<Rightarrow> bool" where
  "matchWildcard pattern v =
    (if pattern = ''*'' then True
     else case path_Match pattern v of Some ok \<Rightarrow> ok | None \<Rightarrow> False)"

definition matchClaimValue :: "Formats \<Rightarrow> any \<Rightarrow> string \<Rightarrow> bool" where
  "matchClaimValue F claim pattern = (case claim of
     StringAny s \<Rightarrow> matchWildcard pattern s
   | SliceAny items \<Rightarrow>
       list_ex (\<lambda>item. case item of StringAny s \<Rightarrow> matchWildcard pattern s | _ \<Rightarrow> False) items
   | v \<Rightarrow> matchWildcard pattern (fmtV F v))"

definition matchCondition :: "Formats \<Rightarrow> Condition \<Rightarrow> Request \<Rightarrow> bool" where
  "matchCondition F c req =
    (if cond_Type c = ConditionDevice then matchWildcard (cond_Value c) (req_Device req)
     else if cond_Type c = ConditionIP then
       if req_ClientIP req = [] then False
       else if CHR ''/'' \<in> set (cond_Value c) then
         case ParseCIDR (cond_Value c) of
           None \<Rightarrow> False
         | Some ipnet \<Rightarrow> Contains ipnet (req_ClientIP req)
       else matchWildcard (cond_Value c) (IP_String (req_ClientIP req))
     else if cond_Type c = ConditionJWT then
       case req_JWTClaims req of
         None \<Rightarrow> False
       | Some claims \<Rightarrow>
           (case claims (cond_Field c) of
              None \<Rightarrow> False
            | Some claim \<Rightarrow> matchClaimValue F claim (cond_Value c))
     else if cond_Type c = ConditionOperation then matchWildcard (cond_Value c) (req_Operation req)
     else if cond_Type c = ConditionToken then
       if req_TokenName req = [] then False else matchWildcard (cond_Value c) (req_TokenName req)
     else if cond_Type c = ConditionVariable then
       if req_ObjectName req = [] then False else matchWildcard (cond_Value c) (req_ObjectName req)
     else False)"

definition actualValue :: "Formats \<Rightarrow> Condition \<Rightarrow> Request \<Rightarrow> string" where
  "actualValue F c req =
    (if cond_Type c = ConditionDevice then
       if req_Device req = [] then ''<no device>'' else req_Device req
     else if cond_Type c = ConditionIP then
       if req_ClientIP req = [] then ''<unknown>'' else IP_String (req_ClientIP req)
     else if cond_Type c = ConditionJWT then
       case req_JWTClaims req of
         None \<Rightarrow> ''<no verified JWT>''
       | Some claims \<Rightarrow>
           (case claims (cond_Field c) of
              None \<Rightarrow> ''<claim '' @ fmtQ F (cond_Field c) @ '' absent>''
            | Some claim \<Rightarrow> (case fmtJSON F claim of Some b \<Rightarrow> b | None \<Rightarrow> fmtV F claim))
     else if cond_Type c = ConditionOperation then req_Operation req
     else if cond_Type c = ConditionToken then
       if req_TokenName req = [] then ''<no configured token>'' else req_TokenName req
     else if cond_Type c = ConditionVariable then
       if req_ObjectName req = [] then ''<not about a single variable>'' else req_ObjectName req
     else ''<unknown condition type>'')"

definition modeApplies :: "MatchMode \<Rightarrow> nat \<Rightarrow> nat \<Rightarrow> bool" where
  "modeApplies mode matched n =
    (if mode = MatchAll then matched = n
     else if mode = MatchAny then matched > 0
     else if mode = MatchNone then matched = 0
     else if mode = MatchNotAll then matched < n
     else False)"

section \<open>Evaluation\<close>

record ConditionTrace =
  ct_Condition :: Condition
  ct_Matched :: bool
  ct_Actual :: string

record RuleTrace =
  tr_Rule :: Rule
  tr_Conditions :: "ConditionTrace list"
  tr_Applies :: bool

text \<open>
  The trace is passed along: \<open>None\<close> is the nil pointer of \<^verbatim>\<open>Evaluate\<close>. One iteration of the
  loop over the conditions counts the matches and, with a trace, notes the comparison.
\<close>

definition conditionStep ::
  "Formats \<Rightarrow> Request \<Rightarrow> bool \<Rightarrow> nat \<times> ConditionTrace list \<Rightarrow> Condition \<Rightarrow> nat \<times> ConditionTrace list" where
  "conditionStep F req tracing acc c =
    (let m = matchCondition F c req in
     (if m then fst acc + 1 else fst acc,
      if tracing then snd acc @ [\<lparr>ct_Condition = c, ct_Matched = m, ct_Actual = actualValue F c req\<rparr>]
      else snd acc))"

definition evaluateConditions ::
  "Formats \<Rightarrow> Rule \<Rightarrow> Request \<Rightarrow> RuleTrace list option \<Rightarrow> bool \<times> RuleTrace list option" where
  "evaluateConditions F rule req trace =
    (case foldl (conditionStep F req (trace \<noteq> None)) (0, []) (rule_Conditions rule) of
       (matched, cts) \<Rightarrow>
         let applies = modeApplies (rule_Match rule) matched (length (rule_Conditions rule))
         in (applies,
             map_option (\<lambda>t. t @ [\<lparr>tr_Rule = rule, tr_Conditions = cts, tr_Applies = applies\<rparr>]) trace))"

definition implicitDefault :: Result where
  "implicitDefault = \<lparr>result_Allowed = False, result_Permission = [], result_RuleName = ''<implicit-default>''\<rparr>"

definition ruleResult :: "Rule \<Rightarrow> Result" where
  "ruleResult rule = \<lparr>result_Allowed = isAllow (rule_Action rule), result_Permission = rule_Permission rule,
     result_RuleName = rule_Name rule\<rparr>"

fun evaluateLoop ::
  "Formats \<Rightarrow> Request \<Rightarrow> Rule list \<Rightarrow> Result \<Rightarrow> RuleTrace list option \<Rightarrow> Result \<times> RuleTrace list option" where
  "evaluateLoop F req [] result trace = (result, trace)"
| "evaluateLoop F req (rule # rules) result trace =
    (case evaluateConditions F rule req trace of
       (applies, trace) \<Rightarrow>
         if \<not> applies then evaluateLoop F req rules result trace
         else if isNow (rule_Action rule) then (ruleResult rule, trace)
         else evaluateLoop F req rules (ruleResult rule) trace)"

definition evaluate ::
  "Formats \<Rightarrow> Request \<Rightarrow> Rule list \<Rightarrow> RuleTrace list option \<Rightarrow> Result \<times> RuleTrace list option" where
  "evaluate F req rules trace = evaluateLoop F req rules implicitDefault trace"

definition Evaluate :: "Formats \<Rightarrow> Request \<Rightarrow> Rule list \<Rightarrow> Result" where
  "Evaluate F req rules = fst (evaluate F req rules None)"

definition Explain :: "Formats \<Rightarrow> Request \<Rightarrow> Rule list \<Rightarrow> Result \<times> RuleTrace list" where
  "Explain F req rules = (case evaluate F req rules (Some []) of (result, trace) \<Rightarrow> (result, the trace))"

section \<open>What the loops compute\<close>

definition ruleApplies :: "Formats \<Rightarrow> Request \<Rightarrow> Rule \<Rightarrow> bool" where
  "ruleApplies F req rule \<longleftrightarrow>
    modeApplies (rule_Match rule) (length (filter (\<lambda>c. matchCondition F c req) (rule_Conditions rule)))
      (length (rule_Conditions rule))"

definition conditionTrace :: "Formats \<Rightarrow> Request \<Rightarrow> Condition \<Rightarrow> ConditionTrace" where
  "conditionTrace F req c =
    \<lparr>ct_Condition = c, ct_Matched = matchCondition F c req, ct_Actual = actualValue F c req\<rparr>"

definition ruleTrace :: "Formats \<Rightarrow> Request \<Rightarrow> Rule \<Rightarrow> RuleTrace" where
  "ruleTrace F req rule = \<lparr>tr_Rule = rule, tr_Conditions = map (conditionTrace F req) (rule_Conditions rule),
     tr_Applies = ruleApplies F req rule\<rparr>"

lemma conditionStep_fold:
  "foldl (conditionStep F req tracing) (k, cts) cs =
    (k + length (filter (\<lambda>c. matchCondition F c req) cs),
     if tracing then cts @ map (conditionTrace F req) cs else cts)"
  by (induction cs arbitrary: k cts) (auto simp: conditionStep_def conditionTrace_def Let_def)

lemma evaluateConditions_eq:
  "evaluateConditions F rule req trace =
    (ruleApplies F req rule, map_option (\<lambda>t. t @ [ruleTrace F req rule]) trace)"
  by (cases trace) (simp_all add: evaluateConditions_def conditionStep_fold ruleApplies_def ruleTrace_def Let_def)

text \<open>The rules the loop looks at: up to and including the first decisive one that applies.\<close>

definition decisive :: "Formats \<Rightarrow> Request \<Rightarrow> Rule \<Rightarrow> bool" where
  "decisive F req rule \<longleftrightarrow> ruleApplies F req rule \<and> isNow (rule_Action rule)"

definition considered :: "Formats \<Rightarrow> Request \<Rightarrow> Rule list \<Rightarrow> Rule list" where
  "considered F req rules =
    takeWhile (\<lambda>r. \<not> decisive F req r) rules @ take 1 (dropWhile (\<lambda>r. \<not> decisive F req r) rules)"

definition lastApplying :: "Formats \<Rightarrow> Request \<Rightarrow> Rule list \<Rightarrow> Rule option" where
  "lastApplying F req rules =
    (case filter (ruleApplies F req) rules of [] \<Rightarrow> None | rs \<Rightarrow> Some (last rs))"

definition resultOr :: "Result \<Rightarrow> Rule option \<Rightarrow> Result" where
  "resultOr d r = (case r of None \<Rightarrow> d | Some rule \<Rightarrow> ruleResult rule)"

lemma considered_Cons [simp]:
  "considered F req (r # rs) = (if decisive F req r then [r] else r # considered F req rs)"
  "considered F req [] = []"
  by (simp_all add: considered_def)

lemma lastApplying_Cons:
  "lastApplying F req (r # rs) =
    (case lastApplying F req rs of Some x \<Rightarrow> Some x | None \<Rightarrow> if ruleApplies F req r then Some r else None)"
  by (cases "filter (ruleApplies F req) rs") (auto simp: lastApplying_def)

lemma evaluateLoop_eq:
  "evaluateLoop F req rules d trace =
    (resultOr d (lastApplying F req (considered F req rules)),
     map_option (\<lambda>t. t @ map (ruleTrace F req) (considered F req rules)) trace)"
proof (induction rules arbitrary: d trace)
  case Nil
  then show ?case by (cases trace) (simp_all add: lastApplying_def resultOr_def)
next
  case (Cons r rs)
  then show ?case
    by (cases trace)
      (auto simp: evaluateConditions_eq lastApplying_Cons decisive_def resultOr_def lastApplying_def
        split: option.split list.split)
qed

lemma Evaluate_eq: "Evaluate F req rules = resultOr implicitDefault (lastApplying F req (considered F req rules))"
  by (simp add: Evaluate_def evaluate_def evaluateLoop_eq)

lemma Explain_eq:
  "Explain F req rules = (Evaluate F req rules, map (ruleTrace F req) (considered F req rules))"
  by (simp add: Explain_def Evaluate_def evaluate_def evaluateLoop_eq)

section \<open>Match modes\<close>

lemma filter_count:
  "length (filter P xs) = length xs \<longleftrightarrow> list_all P xs"
  "0 < length (filter P xs) \<longleftrightarrow> list_ex P xs"
  "length (filter P xs) = 0 \<longleftrightarrow> \<not> list_ex P xs"
  "length (filter P xs) < length xs \<longleftrightarrow> \<not> list_all P xs"
proof -
  show "length (filter P xs) = length xs \<longleftrightarrow> list_all P xs"
    by (metis filter_True length_filter_less list_all_iff order_less_irrefl)
  then show "length (filter P xs) < length xs \<longleftrightarrow> \<not> list_all P xs"
    by (metis length_filter_le nat_less_le)
  show "0 < length (filter P xs) \<longleftrightarrow> list_ex P xs" "length (filter P xs) = 0 \<longleftrightarrow> \<not> list_ex P xs"
    by (auto simp: filter_empty_conv list_ex_iff)
qed

lemma ruleApplies_mode:
  "ruleApplies F req r \<longleftrightarrow>
    (rule_Match r = MatchAll \<and> list_all (\<lambda>c. matchCondition F c req) (rule_Conditions r)
     \<or> rule_Match r = MatchAny \<and> list_ex (\<lambda>c. matchCondition F c req) (rule_Conditions r)
     \<or> rule_Match r = MatchNone \<and> \<not> list_ex (\<lambda>c. matchCondition F c req) (rule_Conditions r)
     \<or> rule_Match r = MatchNotAll \<and> \<not> list_all (\<lambda>c. matchCondition F c req) (rule_Conditions r))"
  unfolding ruleApplies_def modeApplies_def filter_count by (auto simp: Match_defs)

section \<open>What an evaluation can depend on\<close>

text \<open>Two requests that agree on what the conditions of the rules look at get the same result.\<close>

lemma Evaluate_cong:
  assumes "\<And>r c. r \<in> set rules \<Longrightarrow> c \<in> set (rule_Conditions r) \<Longrightarrow> matchCondition F c req = matchCondition F c req'"
  shows "Evaluate F req rules = Evaluate F req' rules"
proof -
  have applies: "ruleApplies F req r = ruleApplies F req' r" if "r \<in> set rules" for r
  proof -
    have "filter (\<lambda>c. matchCondition F c req) (rule_Conditions r) = filter (\<lambda>c. matchCondition F c req') (rule_Conditions r)"
      using assms that by (intro filter_cong) auto
    then show ?thesis by (simp add: ruleApplies_def)
  qed
  have "considered F req rules = considered F req' rules \<and> set (considered F req rules) \<subseteq> set rules"
    using applies by (induction rules) (auto simp: decisive_def)
  moreover have "lastApplying F req rs = lastApplying F req' rs" if "set rs \<subseteq> set rules" for rs
    using that applies unfolding lastApplying_def by (metis (mono_tags, lifting) filter_cong subset_iff)
  ultimately show ?thesis unfolding Evaluate_eq by metis
qed

lemma matchCondition_name:
  "cond_Type c \<noteq> ConditionVariable \<Longrightarrow>
    matchCondition F c (req\<lparr>req_ObjectName := n\<rparr>) = matchCondition F c req"
proof -
  assume c: "cond_Type c \<noteq> ConditionVariable"
  have fields: "req_Device (req\<lparr>req_ObjectName := n\<rparr>) = req_Device req"
    "req_ClientIP (req\<lparr>req_ObjectName := n\<rparr>) = req_ClientIP req"
    "req_Operation (req\<lparr>req_ObjectName := n\<rparr>) = req_Operation req"
    "req_TokenName (req\<lparr>req_ObjectName := n\<rparr>) = req_TokenName req"
    "req_JWTClaims (req\<lparr>req_ObjectName := n\<rparr>) = req_JWTClaims req"
    by simp_all
  show ?thesis
    unfolding matchCondition_def fields if_not_P [OF c] ..
qed

text \<open>
  The contract that the REST layer relies on: what the rules decide depends on the variable's
  name only when a rule has a condition on it, and no rules mean no access.
\<close>

locale decision =
  fixes decide :: "'rules \<Rightarrow> Request \<Rightarrow> Result" and names :: "'rules \<Rightarrow> bool" and empty :: 'rules
  assumes name_irrelevant:
      "\<not> names rules \<Longrightarrow> decide rules (req\<lparr>req_ObjectName := n\<rparr>) = decide rules (req\<lparr>req_ObjectName := m\<rparr>)"
    and deny_default: "\<not> result_Allowed (decide empty req)"

lemma Evaluate_name_irrelevant:
  assumes "\<not> UsesCondition rules ConditionVariable"
  shows "Evaluate F (req\<lparr>req_ObjectName := n\<rparr>) rules = Evaluate F (req\<lparr>req_ObjectName := m\<rparr>) rules"
  using assms by (intro Evaluate_cong) (auto simp: UsesCondition_def list_ex_iff matchCondition_name)

interpretation engine: decision "\<lambda>rules req. Evaluate F req rules" "\<lambda>rules. UsesCondition rules ConditionVariable" "[]"
  for F
proof
  fix rules :: "Rule list" and req :: Request and n m
  show "\<not> UsesCondition rules ConditionVariable \<Longrightarrow>
      Evaluate F (req\<lparr>req_ObjectName := n\<rparr>) rules = Evaluate F (req\<lparr>req_ObjectName := m\<rparr>) rules"
    by (rule Evaluate_name_irrelevant)
  show "\<not> result_Allowed (Evaluate F req [])"
    by (simp add: Evaluate_eq lastApplying_def resultOr_def implicitDefault_def)
qed

section \<open>Patterns\<close>

lemma matchWildcard_plain:
  "list_all plainChar p \<Longrightarrow> matchWildcard p v \<longleftrightarrow> p = ''*'' \<or> globMatches p v"
  by (simp add: matchWildcard_def path_Match_plain)

lemma matchWildcard_exact:
  assumes "list_all plainChar p" and "starless p"
  shows "matchWildcard p v \<longleftrightarrow> v = p"
proof -
  have "globMatches p v \<longleftrightarrow> take (length p) v = p \<and> drop (length p) v = []"
    using glob_literal [OF assms(2), of "[]" v] by simp
  also have "\<dots> \<longleftrightarrow> v = p"
    by auto
  finally show ?thesis
    using assms(2) by (auto simp: matchWildcard_plain [OF assms(1)])
qed

end
