(* ===== verification/Api_Dto.thy ===== *)
theory Api_Dto
  imports Api_Http Bacnet_Value_Codec Authz
begin

text \<open>
  \<^verbatim>\<open>internal/api/dto.go\<close>: BACnet values as JSON and JSON values of write requests as BACnet
  values. The lemmas show that every value has an encodable JSON form, what a write request's
  value becomes for each type of object.
\<close>

section \<open>Values as JSON\<close>

definition jsonFloat :: "u64 \<Rightarrow> json \<Rightarrow> json" where
  "jsonFloat f orig =
    (if IsNaN f then JString ''NaN''
     else if IsInf f False then JString ''Infinity''
     else if IsInf f True then JString ''-Infinity''
     else orig)"

definition parseJSONFloat :: "any \<Rightarrow> u64 option" where
  "parseJSONFloat raw = (case raw of
     FloatAny v \<Rightarrow> Some v
   | StringAny v \<Rightarrow>
       if v = ''NaN'' then Some 0x7FF8000000000001
       else if v = ''Infinity'' then Some (mk64 False inf64)
       else if v = ''-Infinity'' then Some (mk64 True inf64)
       else None
   | _ \<Rightarrow> None)"

text \<open>The verb \<^verbatim>\<open>%0*d\<close> pads with zeros on the left.\<close>

definition field :: "int \<Rightarrow> nat \<Rightarrow> string" where
  "field v width =
    (if v < 0 then ''*''
     else let s = showNat (nat v) in replicate (width - length s) (CHR ''0'') @ s)"

definition hexDigit :: "nat \<Rightarrow> char" where
  "hexDigit d = (if d < 10 then char_of (48 + d) else char_of (87 + d))"

definition hexEncode :: "byte list \<Rightarrow> string" where
  "hexEncode bs = concat (map (\<lambda>b. [hexDigit (unat b div 16), hexDigit (unat b mod 16)]) bs)"

fun jsonValue :: "Value \<Rightarrow> json" where
  "jsonValue NullValue = JNull"
| "jsonValue (BoolValue b) = JBool b"
| "jsonValue (UnsignedValue n) = JInteger (uint n)"
| "jsonValue (SignedValue n) = JInteger (sint n)"
| "jsonValue (RealValue x) = jsonFloat (widen x) (JFloat32 x)"
| "jsonValue (DoubleValue x) = jsonFloat x (JFloat64 x)"
| "jsonValue (OctetStringValue bs) = JBytes bs"
| "jsonValue (CharStringValue s) = JString s"
| "jsonValue (BitStringValue bs) = JArray (map JBool bs)"
| "jsonValue (EnumeratedValue n) = JInteger (uint n)"
| "jsonValue (DateValue d) = JString (field (Year d) 4 @ ''-'' @ field (Month d) 2 @ ''-'' @ field (Day d) 2)"
| "jsonValue (TimeValue t) = JString (field (Hour t) 2 @ '':'' @ field (Minute t) 2 @ '':'' @ field (Second t) 2
     @ ''.'' @ field (Hundredth t) 2)"
| "jsonValue (ObjectIDValue i) = JObject [(''type'', JString (ObjectType_String (Type i))), (''instance'', JInteger (uint (Instance i)))]"
| "jsonValue (ContextPrimitiveValue t bs) = JObject [(''tag'', JInteger (uint t)), (''data'', JString (hexEncode bs))]"
| "jsonValue (ConstructedValue t items) = JObject [(''tag'', JInteger (uint t)), (''items'', JArray (map jsonValue items))]"

definition jsonValues :: "Value list \<Rightarrow> json" where
  "jsonValues values =
    (if length values = 1 then jsonValue (hd values) else JArray (map jsonValue values))"

section \<open>Values of write requests\<close>

datatype writeValueError = NotANumber | NotAState | NotBinary | UnsupportedType any

text \<open>The texts of these errors.\<close>

definition writeValueMessage :: "writeValueError \<Rightarrow> message" where
  "writeValueMessage e = Text (case e of
     NotANumber \<Rightarrow> ''present-value for an analog object must be a number, or \"NaN\", \"Infinity\" or \"-Infinity\"''
   | NotAState \<Rightarrow> ''present-value for a multi-state object must be a positive integer state index''
   | NotBinary \<Rightarrow> ''present-value for a binary object must be true/false, 0/1, or \"active\"/\"inactive\"''
   | UnsupportedType raw \<Rightarrow> ''unsupported value type '' @ (case raw of
       NilAny \<Rightarrow> ''<nil>'' | BoolAny _ \<Rightarrow> ''bool'' | FloatAny _ \<Rightarrow> ''float64'' | StringAny _ \<Rightarrow> ''string''
     | SliceAny _ \<Rightarrow> ''[]interface {}'' | MapAny _ \<Rightarrow> ''map[string]interface {}''))"

record writeRequest =
  wr_Value :: any
  wr_Priority :: "byte option"

definition binaryPresentValue :: "any \<Rightarrow> (writeValueError, Value) res" where
  "binaryPresentValue raw = (case raw of
     BoolAny v \<Rightarrow> if v then Ok (EnumeratedValue 1) else Ok (EnumeratedValue 0)
   | FloatAny v \<Rightarrow>
       if floatEq v 0 then Ok (EnumeratedValue 0)
       else if floatEq v oneFloat then Ok (EnumeratedValue 1)
       else Err NotBinary
   | StringAny v \<Rightarrow>
       if v = ''active'' then Ok (EnumeratedValue 1)
       else if v = ''inactive'' then Ok (EnumeratedValue 0)
       else Err NotBinary
   | _ \<Rightarrow> Err NotBinary)"

definition valueFromJSONShape :: "any \<Rightarrow> (writeValueError, Value) res" where
  "valueFromJSONShape raw = (case raw of
     BoolAny v \<Rightarrow> Ok (BoolValue v)
   | FloatAny v \<Rightarrow> Ok (RealValue (narrow v))
   | StringAny v \<Rightarrow> Ok (CharStringValue v)
   | v \<Rightarrow> Err (UnsupportedType v))"

definition valueForWrite ::
  "(u64 \<Rightarrow> u64) \<Rightarrow> ObjectType \<Rightarrow> PropertyIdentifier \<Rightarrow> any \<Rightarrow> (writeValueError, Value) res" where
  "valueForWrite far objType prop raw =
    (if raw = NilAny then Ok NullValue
     else if prop = PropPresentValue \<and> objType \<in> {ObjectAnalogInput, ObjectAnalogOutput, ObjectAnalogValue} then
       case parseJSONFloat raw of
         None \<Rightarrow> Err NotANumber
       | Some f \<Rightarrow> Ok (RealValue (narrow f))
     else if prop = PropPresentValue \<and> objType \<in> {ObjectBinaryInput, ObjectBinaryOutput, ObjectBinaryValue} then
       binaryPresentValue raw
     else if prop = PropPresentValue
       \<and> objType \<in> {ObjectMultiStateInput, ObjectMultiStateOutput, ObjectMultiStateValue} then
       case raw of
         FloatAny f \<Rightarrow>
           if lessOne f \<or> \<not> floatEq f (floatOfUint (uintOfFloat far f)) then Err NotAState
           else Ok (UnsignedValue (uintOfFloat far f))
       | _ \<Rightarrow> Err NotAState
     else valueFromJSONShape raw)"

lemma shapes_safe [safe_intros]: "safe (binaryPresentValue raw)" "safe (valueFromJSONShape raw)"
  unfolding binaryPresentValue_def valueFromJSONShape_def
  by (cases raw; simp only: any.case; intro safe_intros)+

lemma valueForWrite_safe: "safe (valueForWrite far t p raw)"
  unfolding valueForWrite_def by (cases raw; simp only: any.case; intro safe_intros)

section \<open>Every value has a JSON form\<close>

lemma encodable_jsonFloat32: "encodable (jsonFloat (widen x) (JFloat32 x))"
  using widen_mag [of x] by (cases "mag32 x" inf32 rule: linorder_cases) (auto simp: jsonFloat_def IsNaN_def IsInf_def)

lemma encodable_jsonFloat64: "encodable (jsonFloat x (JFloat64 x))"
  by (cases "mag64 x" inf64 rule: linorder_cases) (auto simp: jsonFloat_def IsNaN_def IsInf_def)

lemma encodable_jsonValue [simp]: "encodable (jsonValue v)"
  by (induction v rule: jsonValue.induct)
    (auto simp: encodable_jsonFloat32 encodable_jsonFloat64 list_all_iff)

lemma encodable_jsonValues [simp]: "encodable (jsonValues vs)"
  by (auto simp: jsonValues_def list_all_iff)

end
