(* ===== verification/Api_WriteBack.thy ===== *)
theory Api_WriteBack
  imports Api_Dto
begin

text \<open>
  Reading and writing of \<^verbatim>\<open>internal/api/dto.go\<close> together: which values a client that sends back the
  JSON it read writes again, and which come out as another type or not at all.
\<close>

unbundle bit_operations_syntax

section \<open>A value that is sent back\<close>









section \<open>What becomes of it\<close>













section \<open>Writing back what was read\<close>




end
