(* ===== verification/Api_Loader.thy ===== *)
theory Api_Loader
  imports Bacnet_Requests Bacnet_Value_Codec
begin

text \<open>
  The loader of \<^verbatim>\<open>internal/api/varcache.go\<close>: how the variables of a device are enumerated with
  replies of one APDU each. What the network answers is a parameter that may change with every
  call. The loops count in uint32 and may wrap around, so the functions that contain them are
  partial: \<open>None\<close> is a call that never returns. The lemmas show when they do return and that
  the object list comes out the same whichever way it had to be read.
\<close>

section \<open>The outside world\<close>

text \<open>
  The environment of a sequence of client calls: the resolver, and for the \<open>k\<close>-th interaction
  what the network answers, what a Who-Is hears and whether the context has ended.
\<close>

record Env =
  env_resolve :: resolver
  env_request :: "nat \<Rightarrow> requester"
  env_whoIs :: "nat \<Rightarrow> UDPAddr \<Rightarrow> nat \<Rightarrow> whoIsRound"
  env_retries :: nat
  env_ctxErr :: "nat \<Rightarrow> bool"

text \<open>A loader: whether the device rejected ReadPropertyMultiple, and the interactions so far.\<close>

record loader =
  noRPM :: bool
  tick :: nat

definition newLoader :: "nat \<Rightarrow> loader" where
  "newLoader k = \<lparr>noRPM = False, tick = k\<rparr>"

definition ctxErr :: "Env \<Rightarrow> loader \<Rightarrow> bool \<times> loader" where
  "ctxErr E l = (env_ctxErr E (tick l), l\<lparr>tick := tick l + 1\<rparr>)"

definition clientRead ::
  "Env \<Rightarrow> string \<Rightarrow> ObjectIdentifier \<Rightarrow> PropertyIdentifier \<Rightarrow> u32 option \<Rightarrow> loader \<Rightarrow> Value list result \<times> loader" where
  "clientRead E hostPort obj prop idx l =
    (ReadProperty (env_resolve E) (env_request E (tick l)) hostPort obj prop idx, l\<lparr>tick := tick l + 1\<rparr>)"

definition clientReadMultiple ::
  "Env \<Rightarrow> string \<Rightarrow> ReadAccessSpec list \<Rightarrow> loader \<Rightarrow> ReadAccessResult list result \<times> loader" where
  "clientReadMultiple E hostPort specs l =
    (ReadPropertyMultiple (env_resolve E) (env_request E (tick l)) hostPort specs, l\<lparr>tick := tick l + 1\<rparr>)"

definition clientDeviceInstance :: "Env \<Rightarrow> string \<Rightarrow> loader \<Rightarrow> u32 result \<times> loader" where
  "clientDeviceInstance E hostPort l =
    (DeviceInstance (WhoIs (env_resolve E) (env_whoIs E (tick l)) (env_retries E) hostPort)
       (env_ctxErr E (tick l + 1))
       (ReadProperty (env_resolve E) (env_request E (tick l + 2)) hostPort),
     l\<lparr>tick := tick l + 3\<rparr>)"

section \<open>Variables\<close>

record variable =
  var_Object :: ObjectIdentifier
  var_Name :: string
  var_Description :: string
  var_Units :: "Value list"

record deviceVars =
  dv_instance :: u32
  dv_vars :: "variable list"
  dv_byID :: "ObjectIdentifier \<rightharpoonup> variable"

definition deviceObject :: "deviceVars \<Rightarrow> ObjectIdentifier" where
  "deviceObject dv = \<lparr>Type = ObjectDevice, Instance = dv_instance dv\<rparr>"

definition rpmChunk :: nat where "rpmChunk = 16"
definition indexChunk :: u32 where "indexChunk = 50"

definition charString :: "Value list \<Rightarrow> string" where
  "charString values = (case values of [CharStringValue s] \<Rightarrow> s | _ \<Rightarrow> [])"

section \<open>Failures\<close>

definition retryPiecewise :: "Env \<Rightarrow> error \<Rightarrow> loader \<Rightarrow> bool \<times> loader" where
  "retryPiecewise E err l =
    (case ctxErr E l of (gone, l) \<Rightarrow>
       if gone then (False, l)
       else if asAbortError err \<noteq> None then (True, l)
       else (isErrTimeout err, l))"

definition noteRPMFailure :: "Env \<Rightarrow> error \<Rightarrow> loader \<Rightarrow> bool \<times> loader" where
  "noteRPMFailure E err l =
    (if asRejectError err = Some RejectReasonUnrecognizedService then (True, l\<lparr>noRPM := True\<rparr>)
     else retryPiecewise E err l)"

section \<open>The object list\<close>

text \<open>The loop that collects the references, one per index.\<close>

partial_function (option) indexReferences :: "u32 \<Rightarrow> u32 \<Rightarrow> PropertyReference list \<Rightarrow> PropertyReference list option" where [code]:
  "indexReferences i end' refs =
    (if i \<le> end'
     then indexReferences (i + 1) end' (refs @ [\<lparr>Property = PropObjectList, ArrayIndex = Some i\<rparr>])
     else Some refs)"

text \<open>The loops over the results of one ReadPropertyMultiple; an error ends them.\<close>

fun resultValues :: "PropertyResult list \<Rightarrow> Value list result" where
  "resultValues [] = Ok []"
| "resultValues (pr # prs) =
    (case ResultErr pr of
       Some e \<Rightarrow> Err (BACnetErr e)
     | None \<Rightarrow> res_bind (resultValues prs) (\<lambda>vs. Ok (ResultValues pr @ vs)))"

definition allValues :: "ReadAccessResult list \<Rightarrow> Value list result" where
  "allValues results = resultValues (concat (map Results results))"

partial_function (option) readEach ::
  "Env \<Rightarrow> string \<Rightarrow> ObjectIdentifier \<Rightarrow> u32 \<Rightarrow> u32 \<Rightarrow> Value list \<Rightarrow> loader \<Rightarrow> (Value list result \<times> loader) option" where [code]:
  "readEach E hostPort obj i end' values l =
    (if i \<le> end' then
       case clientRead E hostPort obj PropObjectList (Some i) l of
         (Ok v, l) \<Rightarrow> readEach E hostPort obj (i + 1) end' (values @ v) l
       | (Err e, l) \<Rightarrow> Some (Err e, l)
       | (Panic, l) \<Rightarrow> Some (Panic, l)
     else Some (Ok values, l))"

definition readIndexes ::
  "Env \<Rightarrow> string \<Rightarrow> ObjectIdentifier \<Rightarrow> u32 \<Rightarrow> u32 \<Rightarrow> loader \<Rightarrow> (Value list result \<times> loader) option" where
  "readIndexes E hostPort obj start end' l =
    (if \<not> noRPM l then
       case indexReferences start end' [] of
         None \<Rightarrow> None
       | Some refs \<Rightarrow>
           (case clientReadMultiple E hostPort [\<lparr>SpecObject = obj, Properties = refs\<rparr>] l of
              (Ok results, l) \<Rightarrow> Some (allValues results, l)
            | (Panic, l) \<Rightarrow> Some (Panic, l)
            | (Err err, l) \<Rightarrow>
                (case noteRPMFailure E err l of (again, l) \<Rightarrow>
                   if \<not> again then Some (Err err, l)
                   else readEach E hostPort obj start end' [] l))
     else readEach E hostPort obj start end' [] l)"

text \<open>The loop over the batches of indexes; \<open>start\<close> may wrap around.\<close>

partial_function (option) readChunks ::
  "Env \<Rightarrow> string \<Rightarrow> ObjectIdentifier \<Rightarrow> u32 \<Rightarrow> u32 \<Rightarrow> Value list \<Rightarrow> loader \<Rightarrow> (Value list result \<times> loader) option" where [code]:
  "readChunks E hostPort obj n start list l =
    (if start \<le> n then
       case readIndexes E hostPort obj start (min (start + indexChunk - 1) n) l of
         None \<Rightarrow> None
       | Some (Ok values, l) \<Rightarrow> readChunks E hostPort obj n (start + indexChunk) (list @ values) l
       | Some (Err e, l) \<Rightarrow>
           Some (Err (Wrap (''reading elements '' @ showNat (unat start) @ ''-''
             @ showNat (unat (min (start + indexChunk - 1) n))) e), l)
       | Some (Panic, l) \<Rightarrow> Some (Panic, l)
     else Some (Ok list, l))"

definition deviceID :: "u32 \<Rightarrow> ObjectIdentifier" where
  "deviceID instance = \<lparr>Type = ObjectDevice, Instance = instance\<rparr>"

definition readObjectList :: "Env \<Rightarrow> string \<Rightarrow> u32 \<Rightarrow> loader \<Rightarrow> (Value list result \<times> loader) option" where
  "readObjectList E hostPort instance l =
    (let devObj = deviceID instance in
     case clientRead E hostPort devObj PropObjectList None l of
       (Ok list, l) \<Rightarrow> Some (Ok list, l)
     | (Panic, l) \<Rightarrow> Some (Panic, l)
     | (Err err, l) \<Rightarrow>
         (case retryPiecewise E err l of (again, l) \<Rightarrow>
            if \<not> again then Some (Err err, l)
            else case clientRead E hostPort devObj PropObjectList (Some 0) l of
              (Err e, l) \<Rightarrow> Some (Err (Wrap ''reading its length'' e), l)
            | (Panic, l) \<Rightarrow> Some (Panic, l)
            | (Ok lenValues, l) \<Rightarrow>
                (case lenValues of
                   [UnsignedValue len] \<Rightarrow> readChunks E hostPort devObj (ucast len) 1 [] l
                 | _ \<Rightarrow> Some (Err UnexpectedListLength, l))))"

section \<open>Metadata\<close>

text \<open>The place that the map of the chunk's objects points to: the last one of an object.\<close>

definition lastWith :: "ObjectIdentifier \<Rightarrow> variable list \<Rightarrow> nat option" where
  "lastWith obj chunk =
    (case filter (\<lambda>i. var_Object (chunk ! i) = obj) (rev [0..<length chunk]) of [] \<Rightarrow> None | i # _ \<Rightarrow> Some i)"

definition applyProperty :: "variable \<Rightarrow> PropertyResult \<Rightarrow> variable" where
  "applyProperty v pr =
    (if ResultErr pr \<noteq> None then v
     else if Property pr = PropObjectName then v\<lparr>var_Name := charString (ResultValues pr)\<rparr>
     else if Property pr = PropDescription then v\<lparr>var_Description := charString (ResultValues pr)\<rparr>
     else if Property pr = PropUnits then v\<lparr>var_Units := ResultValues pr\<rparr>
     else v)"

definition applyResult :: "variable list \<Rightarrow> ReadAccessResult \<Rightarrow> variable list" where
  "applyResult chunk res =
    (case lastWith (ResultObject res) chunk of
       None \<Rightarrow> chunk
     | Some i \<Rightarrow> chunk[i := foldl applyProperty (chunk ! i) (Results res)])"

definition metadataSpec :: "variable \<Rightarrow> ReadAccessSpec" where
  "metadataSpec v = \<lparr>SpecObject = var_Object v,
     Properties = map (\<lambda>p. \<lparr>Property = p, ArrayIndex = None\<rparr>) [PropObjectName, PropDescription, PropUnits]\<rparr>"

definition readMetadataRPM :: "Env \<Rightarrow> string \<Rightarrow> variable list \<Rightarrow> loader \<Rightarrow> variable list result \<times> loader" where
  "readMetadataRPM E hostPort chunk l =
    (case clientReadMultiple E hostPort (map metadataSpec chunk) l of
       (Ok results, l) \<Rightarrow> (Ok (foldl applyResult chunk results), l)
     | (Err e, l) \<Rightarrow> (Err e, l)
     | (Panic, l) \<Rightarrow> (Panic, l))"

text \<open>The loop that reads the names one by one; a failure leaves the name empty.\<close>

fun readNames :: "Env \<Rightarrow> string \<Rightarrow> variable list \<Rightarrow> loader \<Rightarrow> variable list result \<times> loader" where
  "readNames E hostPort [] l = (Ok [], l)"
| "readNames E hostPort (v # chunk) l =
    (case clientRead E hostPort (var_Object v) PropObjectName None l of
       (Panic, l) \<Rightarrow> (Panic, l)
     | (Err e, l) \<Rightarrow>
         (case ctxErr E l of (gone, l) \<Rightarrow>
            if gone then (Err e, l)
            else case readNames E hostPort chunk l of
              (r, l) \<Rightarrow> (res_bind r (\<lambda>vs. Ok (v # vs)), l))
     | (Ok values, l) \<Rightarrow>
         (case readNames E hostPort chunk l of
            (r, l) \<Rightarrow> (res_bind r (\<lambda>vs. Ok (v\<lparr>var_Name := charString values\<rparr> # vs)), l)))"

text \<open>Halving the chunk: both halves are slices of it, and the results stand where they were.\<close>

function readMetadata :: "Env \<Rightarrow> string \<Rightarrow> variable list \<Rightarrow> loader \<Rightarrow> variable list result \<times> loader" where
  "readMetadata E hostPort chunk l =
    (if \<not> noRPM l then
       case readMetadataRPM E hostPort chunk l of
         (Ok chunk, l) \<Rightarrow> (Ok chunk, l)
       | (Panic, l) \<Rightarrow> (Panic, l)
       | (Err err, l) \<Rightarrow>
           (case ctxErr E l of (gone, l) \<Rightarrow>
              if gone then (Err err, l)
              else case noteRPMFailure E err l of (again, l) \<Rightarrow>
                if again \<and> \<not> noRPM l \<and> length chunk > 1 then
                  let mid = length chunk div 2 in
                  case readMetadata E hostPort (take mid chunk) l of
                    (Err e, l) \<Rightarrow> (Err e, l)
                  | (Panic, l) \<Rightarrow> (Panic, l)
                  | (Ok left, l) \<Rightarrow>
                      (case readMetadata E hostPort (drop mid chunk) l of
                         (r, l) \<Rightarrow> (res_bind r (\<lambda>right. Ok (left @ right)), l))
                else readNames E hostPort chunk l)
     else readNames E hostPort chunk l)"
  by pat_completeness auto

termination
  by (relation "measure (\<lambda>(_, _, chunk, _). length chunk)") auto

declare readMetadata.simps [simp del]

text \<open>The loop over the chunks of all variables.\<close>

function readAllMetadata :: "Env \<Rightarrow> string \<Rightarrow> variable list \<Rightarrow> loader \<Rightarrow> variable list result \<times> loader" where
  "readAllMetadata E hostPort vars l =
    (if vars = [] then (Ok [], l)
     else case readMetadata E hostPort (take rpmChunk vars) l of
       (Err e, l) \<Rightarrow> (Err (Wrap ''reading object names'' e), l)
     | (Panic, l) \<Rightarrow> (Panic, l)
     | (Ok chunk, l) \<Rightarrow>
         (case readAllMetadata E hostPort (drop rpmChunk vars) l of
            (r, l) \<Rightarrow> (res_bind r (\<lambda>rest. Ok (chunk @ rest)), l)))"
  by pat_completeness auto

termination
  by (relation "measure (\<lambda>(_, _, vars, _). length vars)") (auto simp: rpmChunk_def)

declare readAllMetadata.simps [simp del]

section \<open>Loading a device\<close>

definition bareVariable :: "ObjectIdentifier \<Rightarrow> variable" where
  "bareVariable obj = \<lparr>var_Object = obj, var_Name = [], var_Description = [], var_Units = []\<rparr>"

definition indexVariables :: "u32 \<Rightarrow> variable list \<Rightarrow> deviceVars" where
  "indexVariables instance named =
    \<lparr>dv_instance = instance, dv_vars = named,
       dv_byID = foldl (\<lambda>m v. m(var_Object v \<mapsto> v)) Map.empty named\<rparr>"

definition load :: "Env \<Rightarrow> string \<Rightarrow> nat \<Rightarrow> (deviceVars result \<times> loader) option" where
  "load E hostPort k =
    (case clientDeviceInstance E hostPort (newLoader k) of
       (Err e, l) \<Rightarrow> Some (Err (Wrap ''identifying device'' e), l)
     | (Panic, l) \<Rightarrow> Some (Panic, l)
     | (Ok instance, l) \<Rightarrow>
         (case readObjectList E hostPort instance l of
            None \<Rightarrow> None
          | Some (Err e, l) \<Rightarrow> Some (Err (Wrap ''reading object-list'' e), l)
          | Some (Panic, l) \<Rightarrow> Some (Panic, l)
          | Some (Ok list, l) \<Rightarrow>
              (case readAllMetadata E hostPort (map (\<lambda>v. bareVariable (ObjectField v)) (filter isObjectID list)) l of
                 (Err e, l) \<Rightarrow> Some (Err e, l)
               | (Panic, l) \<Rightarrow> Some (Panic, l)
               | (Ok vars, l) \<Rightarrow> Some (Ok (indexVariables instance (filter (\<lambda>v. var_Name v \<noteq> []) vars)), l))))"

section \<open>The loops return\<close>

text \<open>
  The loops count up to the last index inclusive, so they return when that index is not the
  largest uint32; the batches when another step of fifty cannot wrap around.
\<close>

abbreviation reference :: "u32 \<Rightarrow> PropertyReference" where
  "reference i \<equiv> \<lparr>Property = PropObjectList, ArrayIndex = Some i\<rparr>"

definition indexes :: "u32 \<Rightarrow> u32 \<Rightarrow> u32 list" where
  "indexes i j = map word_of_nat [unat i..<unat j + 1]"

lemma unat_Suc: "(i :: u32) \<le> e \<Longrightarrow> unat e + 1 < 2 ^ 32 \<Longrightarrow> unat (i + 1) = unat i + 1"
  by (simp add: unat_plus_if' word_le_nat_alt)

lemma indexes_Cons: "i \<le> e \<Longrightarrow> unat e + 1 < 2 ^ 32 \<Longrightarrow> indexes i e = i # indexes (i + 1) e"
  by (simp only: indexes_def unat_Suc word_le_nat_alt upt_conv_Cons [OF le_imp_less_Suc, unfolded Suc_eq_plus1])
    (simp add: word_unat_eq_iff)

lemma indexes_Nil: "\<not> i \<le> e \<Longrightarrow> indexes i e = []"
  by (simp add: indexes_def word_le_nat_alt)

lemma unat_u32: "unat (e :: u32) < 2 ^ 32"
  using unsigned_less [of e] by simp

lemma indexes_range: "j \<in> set (indexes i e) \<Longrightarrow> i \<le> j \<and> j \<le> e"
  using unat_u32 [of e] by (auto simp: indexes_def word_le_nat_alt unat_of_nat)

lemma indexes_induct [consumes 1, case_names stop step]:
  assumes "unat e + 1 < 2 ^ 32"
    and "\<And>i. \<not> i \<le> e \<Longrightarrow> P i"
    and "\<And>i. i \<le> e \<Longrightarrow> P (i + 1) \<Longrightarrow> P (i :: u32)"
  shows "P i"
proof (induction "unat e + 1 - unat i" arbitrary: i rule: less_induct)
  case less
  show ?case
  proof (cases "i \<le> e")
    case True
    with assms(1) have "unat e + 1 - unat (i + 1) < unat e + 1 - unat i"
      by (simp add: unat_Suc word_le_nat_alt)
    with less True assms(3) show ?thesis by blast
  qed (rule assms(2))
qed

lemma indexReferences_returns:
  assumes "unat e + 1 < 2 ^ 32"
  shows "indexReferences i e refs = Some (refs @ map reference (indexes i e))"
  using assms
proof (induction i arbitrary: refs rule: indexes_induct)
  case (stop i)
  then show ?case by (subst indexReferences.simps) (simp add: indexes_Nil)
next
  case (step i)
  then show ?case using assms by (subst indexReferences.simps) (simp add: indexes_Cons)
qed

text \<open>What \<open>readEach\<close> does: it reads the indexes in order until one fails.\<close>

fun readList :: "Env \<Rightarrow> string \<Rightarrow> ObjectIdentifier \<Rightarrow> u32 list \<Rightarrow> loader \<Rightarrow> Value list result \<times> loader" where
  "readList E hostPort obj [] l = (Ok [], l)"
| "readList E hostPort obj (i # js) l =
    (case clientRead E hostPort obj PropObjectList (Some i) l of
       (Ok v, l) \<Rightarrow> (case readList E hostPort obj js l of (r, l) \<Rightarrow> (res_bind r (\<lambda>vs. Ok (v @ vs)), l))
     | (Err e, l) \<Rightarrow> (Err e, l)
     | (Panic, l) \<Rightarrow> (Panic, l))"

lemma readEach_returns:
  assumes "unat e + 1 < 2 ^ 32"
  shows "readEach E hostPort obj i e vs0 l =
    (case readList E hostPort obj (indexes i e) l of (r, l) \<Rightarrow> Some (res_bind r (\<lambda>vs. Ok (vs0 @ vs)), l))"
  using assms
proof (induction i arbitrary: vs0 l rule: indexes_induct)
  case (stop i)
  then show ?case by (subst readEach.simps) (simp add: indexes_Nil)
next
  case (step i)
  then show ?case using assms
    by (subst readEach.simps) (auto simp: indexes_Cons res_bind_assoc split: prod.splits res.splits)
qed

lemma readIndexes_returns:
  assumes "unat e + 1 < 2 ^ 32"
  shows "\<exists>r. readIndexes E hostPort obj i e l = Some r"
  unfolding readIndexes_def indexReferences_returns [OF assms] readEach_returns [OF assms]
  by (auto split: prod.splits res.splits)

text \<open>The batches: each but the last one has fifty indexes.\<close>

lemma batch_end:
  assumes "start \<le> n" and "unat n + 50 < 2 ^ 32"
  shows "unat (start + indexChunk - 1) = unat start + 49" and "unat (start + indexChunk) = unat start + 50"
    and "unat (min (start + indexChunk - 1) n) = min (unat start + 49) (unat n)"
proof -
  from assms have b: "unat start + 50 < 2 ^ 32" by (simp add: word_le_nat_alt)
  then show add: "unat (start + indexChunk) = unat start + 50"
    by (simp add: indexChunk_def unat_plus_if')
  from b have "start + indexChunk - 1 = start + 49" by (simp add: indexChunk_def)
  moreover from b have "unat (start + 49) = unat start + 49" by (simp add: unat_plus_if')
  ultimately show "unat (start + indexChunk - 1) = unat start + 49" by (simp only:)
  then show "unat (min (start + indexChunk - 1) n) = min (unat start + 49) (unat n)"
    by (simp add: min_def word_le_nat_alt)
qed

lemma readChunks_induct [consumes 1, case_names stop step]:
  assumes "unat n + 50 < 2 ^ 32"
    and "\<And>start. \<not> start \<le> n \<Longrightarrow> P start"
    and "\<And>start. start \<le> n \<Longrightarrow> P (start + indexChunk) \<Longrightarrow> P (start :: u32)"
  shows "P start"
proof (induction "unat n + 1 - unat start" arbitrary: start rule: less_induct)
  case less
  show ?case
  proof (cases "start \<le> n")
    case True
    with assms(1) have "unat n + 1 - unat (start + indexChunk) < unat n + 1 - unat start"
      by (simp add: batch_end word_le_nat_alt)
    with less True assms(3) show ?thesis by blast
  qed (rule assms(2))
qed

lemma readChunks_returns:
  assumes "unat n + 50 < 2 ^ 32"
  shows "\<exists>r. readChunks E hostPort obj n start list l = Some r"
  using assms
proof (induction start arbitrary: list l rule: readChunks_induct)
  case (stop start)
  then show ?case by (subst readChunks.simps) simp
next
  case (step start)
  have "unat (min (start + indexChunk - 1) n) + 1 < 2 ^ 32"
    using batch_end(3) [OF step(1) assms] assms by simp
  from readIndexes_returns [OF this] obtain r l' where
    "readIndexes E hostPort obj start (min (start + indexChunk - 1) n) l = Some (r, l')"
    by (metis surj_pair)
  with step show ?case by (subst readChunks.simps) (cases r; simp)
qed

section \<open>The object list is the same however it is read\<close>

text \<open>
  A device that holds the object list \<open>xs\<close>: a read of the whole list gives it, or fails in a way
  that asks for smaller reads; single elements and the length can be read; up to fifty elements at
  once can be read, or that fails because the service is not known, the reply too long or lost.
\<close>

definition retryable :: "error \<Rightarrow> bool" where
  "retryable e \<longleftrightarrow> asAbortError e \<noteq> None \<or> isErrTimeout e"

definition listsObjects :: "Env \<Rightarrow> string \<Rightarrow> u32 \<Rightarrow> Value list \<Rightarrow> bool" where
  "listsObjects E hostPort instance xs \<longleftrightarrow>
    length xs + 50 < 2 ^ 32 \<and> (\<forall>k. \<not> env_ctxErr E k)
    \<and> (\<forall>k. case ReadProperty (env_resolve E) (env_request E k) hostPort (deviceID instance) PropObjectList None of
             Ok vs \<Rightarrow> vs = xs | Err e \<Rightarrow> retryable e | Panic \<Rightarrow> False)
    \<and> (\<forall>k. ReadProperty (env_resolve E) (env_request E k) hostPort (deviceID instance) PropObjectList (Some 0)
            = Ok [UnsignedValue (word_of_nat (length xs))])
    \<and> (\<forall>k i. 1 \<le> unat i \<and> unat i \<le> length xs \<longrightarrow>
            ReadProperty (env_resolve E) (env_request E k) hostPort (deviceID instance) PropObjectList (Some i)
            = Ok [xs ! (unat i - 1)])
    \<and> (\<forall>k js. length js \<le> 50 \<and> (\<forall>j \<in> set js. 1 \<le> unat j \<and> unat j \<le> length xs) \<longrightarrow>
            (case ReadPropertyMultiple (env_resolve E) (env_request E k) hostPort
                    [\<lparr>SpecObject = deviceID instance, Properties = map reference js\<rparr>] of
               Ok results \<Rightarrow> allValues results = Ok (map (\<lambda>j. xs ! (unat j - 1)) js)
             | Err e \<Rightarrow> asRejectError e = Some RejectReasonUnrecognizedService \<or> retryable e
             | Panic \<Rightarrow> False))"

lemma indexes_slice:
  assumes "1 \<le> unat i" and "unat e \<le> length xs" and "unat i \<le> unat e + 1"
  shows "map (\<lambda>j. xs ! (unat j - 1)) (indexes i e) = take (unat e + 1 - unat i) (drop (unat i - 1) xs)"
proof (rule nth_equalityI)
  fix k assume "k < length (map (\<lambda>j. xs ! (unat j - 1)) (indexes i e))"
  then have k: "unat i + k < unat e + 1" by (simp add: indexes_def del: upt_Suc)
  then have "unat (word_of_nat (unat i + k) :: u32) = unat i + k"
    using unat_u32 [of e] by (simp add: unat_of_nat del: of_nat_add)
  with k assms show "map (\<lambda>j. xs ! (unat j - 1)) (indexes i e) ! k = take (unat e + 1 - unat i) (drop (unat i - 1) xs) ! k"
    by (simp add: indexes_def nth_append del: of_nat_add upt_Suc)
qed (use assms in \<open>simp add: indexes_def Suc_diff_le\<close>)


lemma retry:
  assumes "listsObjects E hostPort inst xs" and "retryable e"
  shows "retryPiecewise E e l = (True, l\<lparr>tick := tick l + 1\<rparr>)"
proof -
  have "\<not> env_ctxErr E (tick l)" using assms(1) by (simp add: listsObjects_def)
  with assms(2) show ?thesis by (auto simp: retryPiecewise_def ctxErr_def retryable_def)
qed

lemma readList_lists:
  assumes lists: "listsObjects E hostPort inst xs"
  shows "\<forall>j \<in> set js. 1 \<le> unat j \<and> unat j \<le> length xs \<Longrightarrow>
    \<exists>l'. readList E hostPort (deviceID inst) js l = (Ok (map (\<lambda>j. xs ! (unat j - 1)) js), l')"
proof (induction js arbitrary: l)
  case (Cons j js)
  with lists have "clientRead E hostPort (deviceID inst) PropObjectList (Some j) l
      = (Ok [xs ! (unat j - 1)], l\<lparr>tick := tick l + 1\<rparr>)"
    by (simp add: listsObjects_def clientRead_def)
  with Cons obtain l' where "readList E hostPort (deviceID inst) js (l\<lparr>tick := tick l + 1\<rparr>)
      = (Ok (map (\<lambda>j. xs ! (unat j - 1)) js), l')"
    by fastforce
  with \<open>clientRead _ _ _ _ _ _ = _\<close> show ?case by simp
qed simp

lemma readIndexes_lists:
  assumes lists: "listsObjects E hostPort inst xs" and "1 \<le> unat i" and "unat e \<le> length xs"
    and "unat e + 1 - unat i \<le> 50"
  shows "\<exists>l'. readIndexes E hostPort (deviceID inst) i e l = Some (Ok (map (\<lambda>j. xs ! (unat j - 1)) (indexes i e)), l')"
proof -
  have small: "unat e + 1 < 2 ^ 32" using lists assms(3) by (simp add: listsObjects_def)
  have range: "\<forall>j \<in> set (indexes i e). 1 \<le> unat j \<and> unat j \<le> length xs"
    using indexes_range assms(2,3) by (fastforce simp: word_le_nat_alt)
  have batch: "length (indexes i e) \<le> 50" using assms(4) by (simp add: indexes_def) linarith
  have each: "\<exists>l'. readEach E hostPort (deviceID inst) i e [] l = Some (Ok (map (\<lambda>j. xs ! (unat j - 1)) (indexes i e)), l')" for l
    using readList_lists [OF lists range, of l] by (auto simp: readEach_returns [OF small])
  let ?rpm = "ReadPropertyMultiple (env_resolve E) (env_request E (tick l)) hostPort
      [\<lparr>SpecObject = deviceID inst, Properties = map reference (indexes i e)\<rparr>]"
  have rpm: "case ?rpm of Ok results \<Rightarrow> allValues results = Ok (map (\<lambda>j. xs ! (unat j - 1)) (indexes i e))
      | Err e \<Rightarrow> asRejectError e = Some RejectReasonUnrecognizedService \<or> retryable e | Panic \<Rightarrow> False"
    using lists range batch by (simp add: listsObjects_def)
  show ?thesis
  proof (cases ?rpm)
    case (Ok results)
    with rpm each show ?thesis
      by (simp add: readIndexes_def indexReferences_returns [OF small] clientReadMultiple_def)
  next
    case (Err err)
    with rpm have "fst (noteRPMFailure E err l)" for l
      using retry [OF lists] by (auto simp: noteRPMFailure_def)
    with Err each show ?thesis
      by (simp add: readIndexes_def indexReferences_returns [OF small] clientReadMultiple_def case_prod_beta)
  next
    case Panic
    with rpm show ?thesis by simp
  qed
qed

lemma readChunks_lists:
  assumes lists: "listsObjects E hostPort inst xs" and "unat n = length xs" and "1 \<le> unat start" and "unat start \<le> length xs + 50"
  shows "\<exists>l'. readChunks E hostPort (deviceID inst) n start (take (unat start - 1) xs) l = Some (Ok xs, l')"
proof -
  have n: "unat n + 50 < 2 ^ 32" using lists assms(2) by (simp add: listsObjects_def)
  then show ?thesis using assms(3,4)
  proof (induction start arbitrary: l rule: readChunks_induct)
    case (stop start)
    with assms(2) show ?case
      by (subst readChunks.simps) (simp add: word_le_nat_alt)
  next
    case (step start)
    let ?e = "min (start + indexChunk - 1) n"
    note ends = batch_end [OF step(1) n]
    have le: "unat ?e \<le> length xs" using ends(3) assms(2) by simp
    have batch: "unat ?e + 1 - unat start \<le> 50" using ends(3) by simp
    obtain l' where r: "readIndexes E hostPort (deviceID inst) start ?e l
        = Some (Ok (map (\<lambda>j. xs ! (unat j - 1)) (indexes start ?e)), l')"
      using readIndexes_lists [OF lists step(3) le batch] by blast
    have "unat start \<le> unat ?e + 1" using ends(3) step(1) by (simp add: word_le_nat_alt)
    from indexes_slice [OF step(3) le this]
    have "take (unat start - 1) xs @ map (\<lambda>j. xs ! (unat j - 1)) (indexes start ?e)
        = take (unat start - 1) xs @ take (unat ?e + 1 - unat start) (drop (unat start - 1) xs)"
      by simp
    also have "\<dots> = take (unat start - 1 + (unat ?e + 1 - unat start)) xs"
      by (simp add: take_add)
    also have "\<dots> = take (unat (start + indexChunk) - 1) xs"
      using ends(2,3) step(3) assms(2) by (simp add: min_def)
    finally have acc: "take (unat start - 1) xs @ map (\<lambda>j. xs ! (unat j - 1)) (indexes start ?e)
        = take (unat (start + indexChunk) - 1) xs" .
    have "\<exists>l'. readChunks E hostPort (deviceID inst) n (start + indexChunk) (take (unat (start + indexChunk) - 1) xs) l = Some (Ok xs, l')" for l
      using step(2) [of l] ends(2) step(1) assms(2) by (simp add: word_le_nat_alt)
    with r acc show ?case by (subst readChunks.simps) (simp add: step(1))
  qed
qed

lemma readObjectList_lists:
  assumes lists: "listsObjects E hostPort inst xs"
  shows "\<exists>l'. readObjectList E hostPort inst l = Some (Ok xs, l')"
proof -
  have len: "unat (ucast (word_of_nat (length xs) :: u64) :: u32) = length xs"
  proof -
    have "length xs + 50 < 2 ^ 32" using lists by (simp add: listsObjects_def)
    then show ?thesis by (simp add: unsigned_ucast_eq take_bit_eq_mod unat_of_nat)
  qed
  let ?whole = "ReadProperty (env_resolve E) (env_request E (tick l)) hostPort (deviceID inst) PropObjectList None"
  from lists have whole: "case ?whole of Ok vs \<Rightarrow> vs = xs | Err e \<Rightarrow> retryable e | Panic \<Rightarrow> False"
    by (simp add: listsObjects_def)
  have zero: "ReadProperty (env_resolve E) (env_request E k) hostPort (deviceID inst) PropObjectList (Some 0)
      = Ok [UnsignedValue (word_of_nat (length xs))]" for k
    using lists by (simp add: listsObjects_def)
  show ?thesis
  proof (cases ?whole)
    case (Err err)
    with whole readChunks_lists [OF lists len, of 1] show ?thesis
      by (simp add: readObjectList_def Let_def clientRead_def retry [OF lists] zero)
  qed (use whole in \<open>auto simp: readObjectList_def clientRead_def Let_def\<close>)
qed

section \<open>Names come from the device\<close>

text \<open>The texts that a device may give as the name of an object, in any reply of the environment.\<close>

definition givenNames :: "Env \<Rightarrow> string \<Rightarrow> ObjectIdentifier \<Rightarrow> string set" where
  "givenNames E hostPort obj =
    {charString vs |vs k. ReadProperty (env_resolve E) (env_request E k) hostPort obj PropObjectName None = Ok vs}
    \<union> {charString (ResultValues pr) |pr res results specs k.
         ReadPropertyMultiple (env_resolve E) (env_request E k) hostPort specs = Ok results
         \<and> res \<in> set results \<and> ResultObject res = obj
         \<and> pr \<in> set (Results res) \<and> ResultErr pr = None \<and> Property pr = PropObjectName}"

definition named :: "Env \<Rightarrow> string \<Rightarrow> variable \<Rightarrow> bool" where
  "named E hostPort v \<longleftrightarrow> var_Name v = [] \<or> var_Name v \<in> givenNames E hostPort (var_Object v)"

text \<open>What every step of reading metadata keeps: the objects, and where the names come from.\<close>

definition filled :: "Env \<Rightarrow> string \<Rightarrow> variable list \<Rightarrow> variable list \<Rightarrow> bool" where
  "filled E hostPort vs vs' \<longleftrightarrow> map var_Object vs' = map var_Object vs
    \<and> (list_all (named E hostPort) vs \<longrightarrow> list_all (named E hostPort) vs')"

lemma filled_refl [simp]: "filled E h vs vs"
  by (simp add: filled_def)

lemma filled_trans: "filled E h a b \<Longrightarrow> filled E h b c \<Longrightarrow> filled E h a c"
  by (simp add: filled_def)

lemma filled_append: "filled E h a a' \<Longrightarrow> filled E h b b' \<Longrightarrow> filled E h (a @ b) (a' @ b')"
  by (simp add: filled_def)

lemma filled_Cons:
  "var_Object v' = var_Object v \<Longrightarrow> (named E h v \<Longrightarrow> named E h v') \<Longrightarrow> filled E h vs vs' \<Longrightarrow> filled E h (v # vs) (v' # vs')"
  by (simp add: filled_def)

lemma case_hd_in: "(case xs of [] \<Rightarrow> None | x # _ \<Rightarrow> Some x) = Some y \<Longrightarrow> y \<in> set xs"
  by (cases xs) auto

lemma case_last_in: "(case xs of [] \<Rightarrow> None | x # ws \<Rightarrow> Some (last (x # ws))) = Some y \<Longrightarrow> y \<in> set xs"
  by (cases xs) auto

lemma lastWith_SomeD: "lastWith obj chunk = Some i \<Longrightarrow> i < length chunk \<and> var_Object (chunk ! i) = obj"
proof -
  assume "lastWith obj chunk = Some i"
  then have "i \<in> set (filter (\<lambda>i. var_Object (chunk ! i) = obj) (rev [0..<length chunk]))"
    unfolding lastWith_def by (rule case_hd_in)
  then show ?thesis by simp
qed

lemma applyProperty_object [simp]: "var_Object (applyProperty v pr) = var_Object v"
  by (simp add: applyProperty_def)

lemma foldl_applyProperty:
  assumes "ReadPropertyMultiple (env_resolve E) (env_request E k) hostPort specs = Ok results"
    and "res \<in> set results" and "set prs \<subseteq> set (Results res)" and "var_Object v = ResultObject res"
  shows "var_Object (foldl applyProperty v prs) = var_Object v
    \<and> (named E hostPort v \<longrightarrow> named E hostPort (foldl applyProperty v prs))"
  using assms(3,4)
proof (induction prs arbitrary: v)
  case (Cons pr prs)
  have "named E hostPort (applyProperty v pr)" if "named E hostPort v"
  proof (cases "ResultErr pr = None \<and> Property pr = PropObjectName")
    case True
    with assms(1,2) Cons.prems have "charString (ResultValues pr) \<in> givenNames E hostPort (var_Object v)"
      unfolding givenNames_def by (intro UnI2 CollectI) (metis list.set_intros(1) subset_iff)
    with True show ?thesis by (simp add: applyProperty_def named_def)
  next
    case False
    with that show ?thesis by (auto simp: applyProperty_def named_def)
  qed
  with Cons.IH [of "applyProperty v pr"] Cons.prems show ?case by auto
qed simp

lemma applyResult_filled:
  assumes "ReadPropertyMultiple (env_resolve E) (env_request E k) hostPort specs = Ok results" and "res \<in> set results"
  shows "filled E hostPort chunk (applyResult chunk res)"
proof (cases "lastWith (ResultObject res) chunk")
  case (Some i)
  with lastWith_SomeD have i: "i < length chunk" "var_Object (chunk ! i) = ResultObject res" by auto
  from foldl_applyProperty [OF assms, of "Results res" "chunk ! i"] i
  have "var_Object (foldl applyProperty (chunk ! i) (Results res)) = var_Object (chunk ! i)"
    and "named E hostPort (chunk ! i) \<Longrightarrow> named E hostPort (foldl applyProperty (chunk ! i) (Results res))"
    by auto
  then show ?thesis
    using i by (auto simp: filled_def applyResult_def Some list_all_length nth_list_update
        intro!: nth_equalityI)
qed (simp add: applyResult_def)

lemma readMetadataRPM_filled:
  assumes "readMetadataRPM E hostPort chunk l = (Ok chunk', l')"
  shows "filled E hostPort chunk chunk'"
proof -
  from assms obtain results where rpm: "ReadPropertyMultiple (env_resolve E) (env_request E (tick l)) hostPort (map metadataSpec chunk) = Ok results"
    and chunk': "chunk' = foldl applyResult chunk results"
    by (auto simp: readMetadataRPM_def clientReadMultiple_def split: res.splits)
  have "filled E hostPort c (foldl applyResult c rs)" if "set rs \<subseteq> set results" for c rs
    using that
  proof (induction rs arbitrary: c)
    case (Cons r rs)
    with applyResult_filled [OF rpm, of r c] show ?case by (auto intro: filled_trans)
  qed simp
  then show ?thesis by (simp add: chunk')
qed

lemma readNames_filled: "readNames E hostPort chunk l = (Ok chunk', l') \<Longrightarrow> filled E hostPort chunk chunk'"
proof (induction chunk arbitrary: l chunk' l')
  case (Cons v chunk)
  let ?read = "ReadProperty (env_resolve E) (env_request E (tick l)) hostPort (var_Object v) PropObjectName None"
  show ?case
  proof (cases ?read)
    case (Ok vs)
    then have "charString vs \<in> givenNames E hostPort (var_Object v)" by (auto simp: givenNames_def)
    with Ok Cons show ?thesis
      by (auto simp: clientRead_def res_bind_Ok_iff named_def split: prod.splits intro!: filled_Cons)
  next
    case (Err e)
    with Cons show ?thesis
      by (auto simp: clientRead_def res_bind_Ok_iff ctxErr_def split: prod.splits if_splits intro!: filled_Cons)
  qed (use Cons.prems in \<open>simp add: clientRead_def\<close>)
qed simp

text \<open>How a chunk comes to be filled: at once, in halves, or name by name.\<close>

lemma readMetadata_cases:
  assumes "readMetadata E hostPort chunk l = (r, l')"
  obtains (rpm) "readMetadataRPM E hostPort chunk l = (r, l')"
  | (gone) e where "r = Err e"
  | (left) l1 where "1 < length chunk" and "\<forall>x. r \<noteq> Ok x"
      and "readMetadata E hostPort (take (length chunk div 2) chunk) l1 = (r, l')"
  | (halves) left r' l1 l2 where "1 < length chunk" and "r = res_bind r' (\<lambda>right. Ok (left @ right))"
      and "readMetadata E hostPort (take (length chunk div 2) chunk) l1 = (Ok left, l2)"
      and "readMetadata E hostPort (drop (length chunk div 2) chunk) l2 = (r', l')"
  | (names) l1 where "readNames E hostPort chunk l1 = (r, l')"
proof (cases "noRPM l")
  case True
  with assms names show thesis by (simp add: readMetadata.simps [of _ _ chunk l])
next
  case False
  obtain r0 l1 where rpm': "readMetadataRPM E hostPort chunk l = (r0, l1)" by (metis surj_pair)
  show thesis
  proof (cases r0)
    case (Err err)
    obtain gone l2 where gone': "ctxErr E l1 = (gone, l2)" by (metis surj_pair)
    obtain again l3 where again: "noteRPMFailure E err l2 = (again, l3)" by (metis surj_pair)
    have eq: "readMetadata E hostPort chunk l = (if gone then (Err err, l2)
        else if again \<and> \<not> noRPM l3 \<and> length chunk > 1 then
          case readMetadata E hostPort (take (length chunk div 2) chunk) l3 of
            (Err e, l) \<Rightarrow> (Err e, l) | (Panic, l) \<Rightarrow> (Panic, l)
          | (Ok left, l) \<Rightarrow> (case readMetadata E hostPort (drop (length chunk div 2) chunk) l of
              (r, l) \<Rightarrow> (res_bind r (\<lambda>right. Ok (left @ right)), l))
        else readNames E hostPort chunk l3)"
      using False Err by (subst readMetadata.simps) (simp add: rpm' gone' again Let_def)
    show thesis
      using assms gone left halves names unfolding eq
      by (auto split: if_splits prod.splits res.splits)
  qed (use False rpm' assms rpm in \<open>simp_all add: readMetadata.simps [of _ _ chunk l]\<close>)
qed

lemma readMetadata_filled: "readMetadata E hostPort chunk l = (Ok chunk', l') \<Longrightarrow> filled E hostPort chunk chunk'"
proof (induction "length chunk" arbitrary: chunk l chunk' l' rule: less_induct)
  case less
  from less.prems show ?case
  proof (cases rule: readMetadata_cases)
    case (halves left r' l1 l2)
    let ?mid = "length chunk div 2"
    from halves(2) obtain right where right: "r' = Ok right" "chunk' = left @ right" by (cases r') auto
    have "filled E hostPort (take ?mid chunk) left" "filled E hostPort (drop ?mid chunk) right"
      using halves less.hyps [OF _ halves(3)] less.hyps [OF _ halves(4) [unfolded right]] by simp_all
    then have "filled E hostPort (take ?mid chunk @ drop ?mid chunk) (left @ right)" by (rule filled_append)
    with right show ?thesis by simp
  qed (auto dest: readMetadataRPM_filled readNames_filled)
qed

lemma readAllMetadata_filled: "readAllMetadata E hostPort vs l = (Ok vs', l') \<Longrightarrow> filled E hostPort vs vs'"
proof (induction "length vs" arbitrary: vs l vs' l' rule: less_induct)
  case less
  show ?case
  proof (cases "vs = []")
    case True
    with less.prems show ?thesis by (simp add: readAllMetadata.simps)
  next
    case False
    with less.prems obtain chunk rest l1 where r: "vs' = chunk @ rest"
      "readMetadata E hostPort (take rpmChunk vs) l = (Ok chunk, l1)"
      "readAllMetadata E hostPort (drop rpmChunk vs) l1 = (Ok rest, l')"
      by (auto simp: readAllMetadata.simps [of _ _ vs] res_bind_Ok_iff split: prod.splits res.splits)
    from False have "length (drop rpmChunk vs) < length vs" by (simp add: rpmChunk_def)
    from filled_append [OF readMetadata_filled [OF r(2)] less.hyps [OF this r(3)]]
    show ?thesis by (simp add: r(1))
  qed
qed

section \<open>What a snapshot holds\<close>

lemma byID_last:
  "foldl (\<lambda>m v. m(var_Object v \<mapsto> v)) m0 vs obj =
    (case filter (\<lambda>v. var_Object v = obj) vs of [] \<Rightarrow> m0 obj | ws \<Rightarrow> Some (last ws))"
  by (induction vs rule: rev_induct) (auto split: list.splits)

text \<open>
  A well-formed snapshot: every variable has a name, and the index finds the last variable of
  every object and nothing else.
\<close>

definition snapshotOk :: "deviceVars \<Rightarrow> bool" where
  "snapshotOk dv \<longleftrightarrow> list_all (\<lambda>v. var_Name v \<noteq> []) (dv_vars dv)
    \<and> dv_byID dv = (\<lambda>obj. case filter (\<lambda>v. var_Object v = obj) (dv_vars dv) of [] \<Rightarrow> None | ws \<Rightarrow> Some (last ws))"

lemma snapshotOk_byID:
  assumes "snapshotOk dv" and "dv_byID dv obj = Some v"
  shows "v \<in> set (dv_vars dv)" and "var_Object v = obj" and "var_Name v \<noteq> []"
proof -
  from assms have "v \<in> set (filter (\<lambda>v. var_Object v = obj) (dv_vars dv))"
    by (intro case_last_in) (simp add: snapshotOk_def)
  then show "v \<in> set (dv_vars dv)" "var_Object v = obj" by auto
  with assms(1) show "var_Name v \<noteq> []" by (auto simp: snapshotOk_def list_all_iff)
qed

lemma load_OkE:
  assumes "load E hostPort k = Some (Ok dv, l)"
  obtains inst l0 list l1 vs where "clientDeviceInstance E hostPort (newLoader k) = (Ok inst, l0)"
    and "readObjectList E hostPort inst l0 = Some (Ok list, l1)"
    and "readAllMetadata E hostPort (map (\<lambda>v. bareVariable (ObjectField v)) (filter isObjectID list)) l1 = (Ok vs, l)"
    and "dv = indexVariables inst (filter (\<lambda>v. var_Name v \<noteq> []) vs)"
  using assms by (auto simp: load_def split: prod.splits res.splits option.splits)

lemma load_snapshotOk: "load E hostPort k = Some (Ok dv, l) \<Longrightarrow> snapshotOk dv"
  by (erule load_OkE) (auto simp: snapshotOk_def indexVariables_def byID_last list_all_iff intro!: ext split: list.splits)

lemma load_named:
  assumes "load E hostPort k = Some (Ok dv, l)" and "v \<in> set (dv_vars dv)"
  shows "var_Name v \<in> givenNames E hostPort (var_Object v)"
proof -
  from assms(1) obtain list l1 vs where
    vs: "readAllMetadata E hostPort (map (\<lambda>v. bareVariable (ObjectField v)) (filter isObjectID list)) l1 = (Ok vs, l)"
    and dv: "dv_vars dv = filter (\<lambda>v. var_Name v \<noteq> []) vs"
    by (elim load_OkE) (auto simp: indexVariables_def)
  from readAllMetadata_filled [OF vs] have "list_all (named E hostPort) vs"
    by (auto simp: filled_def list_all_iff bareVariable_def named_def)
  with dv assms(2) show ?thesis by (auto simp: list_all_iff named_def)
qed

section \<open>No panics\<close>

definition envSafe :: "Env \<Rightarrow> bool" where
  "envSafe E \<longleftrightarrow> (\<forall>s. safe (env_resolve E s)) \<and> (\<forall>k a s ps. safe (env_request E k a s ps))"

lemma client_safe:
  assumes "envSafe E"
  shows "clientRead E h obj p idx l = (r1, l1) \<Longrightarrow> safe r1"
    and "clientReadMultiple E h specs l = (r2, l2) \<Longrightarrow> safe r2"
    and "clientDeviceInstance E h l = (r3, l3) \<Longrightarrow> safe r3"
  using assms services_safe [of "env_resolve E"]
  by (auto simp: envSafe_def clientRead_def clientReadMultiple_def clientDeviceInstance_def WhoIs_def
      intro!: DeviceInstance_safe safe_intros)

lemma readEach_safe:
  assumes safe: "envSafe E" and "readEach E h obj i e vs l = Some (r, l')"
  shows "safe r"
proof -
  have "E = E \<longrightarrow> safe (fst (r, l'))"
    by (rule readEach.raw_induct [where P = "\<lambda>E' h obj i e vs l rl. E' = E \<longrightarrow> safe (fst rl)", OF _ assms(2)])
      (auto split: if_splits prod.splits res.splits dest: client_safe [OF safe])
  then show ?thesis by simp
qed

lemma resultValues_safe: "safe (resultValues prs)"
  by (induction prs) (auto intro!: safe_intros split: option.splits)

lemma readIndexes_safe: "envSafe E \<Longrightarrow> readIndexes E h obj i e l = Some (r, l') \<Longrightarrow> safe r"
  using resultValues_safe
  by (auto simp: readIndexes_def allValues_def split: if_splits option.splits prod.splits res.splits
      dest: client_safe readEach_safe)

lemma readChunks_safe:
  assumes safe: "envSafe E" and "readChunks E h obj n start vs l = Some (r, l')"
  shows "safe r"
proof -
  have "E = E \<longrightarrow> safe (fst (r, l'))"
    by (rule readChunks.raw_induct [where P = "\<lambda>E' h obj n start vs l rl. E' = E \<longrightarrow> safe (fst rl)", OF _ assms(2)])
      (auto split: if_splits option.splits prod.splits res.splits dest: readIndexes_safe [OF safe])
  then show ?thesis by simp
qed

lemma readObjectList_safe: "envSafe E \<Longrightarrow> readObjectList E h inst l = Some (r, l') \<Longrightarrow> safe r"
  by (auto simp: readObjectList_def Let_def split: prod.splits res.splits if_splits list.splits Value.splits
      dest: client_safe readChunks_safe)

lemma readNames_safe: "envSafe E \<Longrightarrow> safe (fst (readNames E h vs l))"
proof (induction vs arbitrary: l)
  case (Cons v vs)
  obtain r l1 where read: "clientRead E h (var_Object v) PropObjectName None l = (r, l1)" by (metis surj_pair)
  obtain gone l2 where gone: "ctxErr E l1 = (gone, l2)" by (metis surj_pair)
  have rest: "readNames E h vs l = (r', l') \<Longrightarrow> safe r'" for l r' l'
    using Cons by (metis fst_conv)
  from client_safe(1) [OF Cons.prems read] read gone show ?case
    by (cases r) (auto intro!: safe_intros dest: rest split: prod.splits)
qed simp

lemma readMetadataRPM_safe: "envSafe E \<Longrightarrow> safe (fst (readMetadataRPM E h vs l))"
  by (auto simp: readMetadataRPM_def split: prod.splits res.splits dest: client_safe)

lemma readMetadata_safe: "envSafe E \<Longrightarrow> safe (fst (readMetadata E h vs l))"
proof (induction "length vs" arbitrary: vs l rule: less_induct)
  case less
  obtain r l' where r: "readMetadata E h vs l = (r, l')" by (metis surj_pair)
  from r show ?case
  proof (cases rule: readMetadata_cases)
    case (left l1)
    then have "length (take (length vs div 2) vs) < length vs" by simp
    from less.hyps [OF this less.prems, of l1] left(3) r show ?thesis by simp
  next
    case (halves left r' l1 l2)
    then have "length (drop (length vs div 2) vs) < length vs" by simp
    from less.hyps [OF this less.prems, of l2] halves(4) have "safe r'" by simp
    with r halves(2) show ?thesis by (auto intro: safe_intros)
  next
    case rpm
    with r readMetadataRPM_safe [OF less.prems, of h vs l] show ?thesis by simp
  next
    case (names l1)
    with r readNames_safe [OF less.prems, of h vs l1] show ?thesis by simp
  qed (simp add: r)
qed

lemma readAllMetadata_safe: "envSafe E \<Longrightarrow> safe (fst (readAllMetadata E h vs l))"
proof (induction "length vs" arbitrary: vs l rule: less_induct)
  case less
  show ?case
  proof (cases "vs = []")
    case False
    then have "length (drop rpmChunk vs) < length vs" by (simp add: rpmChunk_def)
    note rest = less.hyps [OF this less.prems]
    obtain r l1 where r: "readMetadata E h (take rpmChunk vs) l = (r, l1)" by (metis surj_pair)
    with readMetadata_safe [OF less.prems, of h "take rpmChunk vs" l] have "safe r" by simp
    with False r rest [of l1] show ?thesis
      by (cases r) (auto simp: readAllMetadata.simps [of _ _ vs] intro!: safe_intros split: prod.splits)
  qed (simp add: readAllMetadata.simps)
qed

lemma load_safe: "envSafe E \<Longrightarrow> load E h k = Some (r, l) \<Longrightarrow> safe r"
  using readAllMetadata_safe [of E]
  by (auto simp: load_def split: prod.splits res.splits option.splits dest: client_safe readObjectList_safe)
     (metis fst_conv safe_simps(3))

text \<open>Loading returns unless the device reports a list length next to the largest uint32.\<close>

definition shortLists :: "Env \<Rightarrow> string \<Rightarrow> bool" where
  "shortLists E hostPort \<longleftrightarrow> (\<forall>k obj len.
     ReadProperty (env_resolve E) (env_request E k) hostPort obj PropObjectList (Some 0) = Ok [UnsignedValue len]
     \<longrightarrow> unat (ucast len :: u32) + 50 < 2 ^ 32)"

lemma readObjectList_returns: "shortLists E h \<Longrightarrow> readObjectList E h inst l \<noteq> None"
proof -
  assume short: "shortLists E h"
  have "readChunks E h obj (ucast len) 1 [] l' \<noteq> None"
    if "ReadProperty (env_resolve E) (env_request E k) h obj' PropObjectList (Some 0) = Ok [UnsignedValue len]" for k obj obj' len l'
    using short that readChunks_returns [of "ucast len" E h obj 1 "[]" l'] by (fastforce simp: shortLists_def)
  then show ?thesis
    by (auto simp: readObjectList_def Let_def clientRead_def split: prod.splits res.splits list.splits Value.splits)
qed

lemma load_returns: "shortLists E h \<Longrightarrow> \<exists>r. load E h k = Some r"
  using readObjectList_returns [of E h]
  by (auto simp del: not_None_eq simp: load_def split: prod.splits res.splits option.splits)

end
