(* ===== verification/Mock_EndToEnd.thy ===== *)
theory Mock_EndToEnd
  imports Bacnet_EndToEnd Api_Loader
begin

text \<open>
  More of the client against the device: which stores keep the promises of the wire format, a
  ReadPropertyMultiple end to end, and the device as the environment of the loader that
  enumerates variables. The lemmas show that what a device holds can always be sent, that several
  properties at once read as they do one by one or are refused for their size, and that the device
  keeps the contract under which the object list comes out the same however it is read.
\<close>

section \<open>Stores that can be sent\<close>

abbreviation "wire \<equiv> wireValue maxNesting"

definition wireProperty :: "property \<Rightarrow> bool" where
  "wireProperty p \<longleftrightarrow> wire (val p) \<and> (case plist p of None \<Rightarrow> True | Some vs \<Rightarrow> list_all wire vs)
    \<and> list_all (\<lambda>slot. case slot of None \<Rightarrow> True | Some v \<Rightarrow> wire v) (priorities p)"

definition storeOk :: "Device \<Rightarrow> bool" where
  "storeOk d \<longleftrightarrow>
    list_all (\<lambda>(key, ps). wireObject (keyObject key) \<and> list_all (\<lambda>(pr, p). wireProperty p) ps) (objects d)"

lemma wire_primitive: "wirePrimitive v \<Longrightarrow> wire v"
  by (cases v) (simp_all add: wirePrimitive_def)

lemma wirePrimitive_simps [simp]:
  "wirePrimitive (UnsignedValue n)" "wirePrimitive (ObjectIDValue oid) \<longleftrightarrow> wireObject oid" "wirePrimitive NullValue"
  "wirePrimitive (RealValue x)" "wirePrimitive (BoolValue b)" "wirePrimitive (EnumeratedValue k)"
  by (simp_all add: wirePrimitive_def)

lemma firstSet_in: "firstSet slots = Some v \<Longrightarrow> Some v \<in> set slots"
  by (induction slots rule: firstSet.induct) auto

lemma wire_effectiveValue: "wireProperty p \<Longrightarrow> wire (effectiveValue p)"
  by (auto simp: wireProperty_def effectiveValue_def list_all_iff dest!: firstSet_in split: option.splits)

lemma storeOkD:
  assumes "storeOk d" and "map_of (objects d) key = Some ps"
  shows "wireObject (keyObject key)" and "map_of ps pr = Some p \<Longrightarrow> wireProperty p"
  using assms by (auto simp: storeOk_def list_all_iff dest!: map_of_SomeD)

lemma wire_objectList: "storeOk d \<Longrightarrow> list_all wire (objectList d)"
  by (auto simp: storeOk_def objectList_def list_all_iff)

lemma storeOk_wireStore:
  assumes "storeOk d"
  shows "wireStore d"
  unfolding wireStore_def
proof (intro allI impI)
  fix t i pr idx vs
  assume r: "readProperty d t i pr idx = Ok vs"
  show "list_all wire vs"
  proof (cases "t = ObjectDevice \<and> thisInstance d t i = devInstance d \<and> pr = PropObjectList")
    case True
    with r wire_objectList [OF assms] show ?thesis
      by (auto simp: readProperty_def Let_def slice_def list_all_iff split: if_splits option.splits
          dest!: in_set_takeD in_set_dropD)
  next
    case False
    with r obtain ps where ps: "map_of (objects d) (objectKey t (thisInstance d t i)) = Some ps"
      by (auto simp: readProperty_def Let_def split: option.splits)
    from storeOkD(1) [OF assms ps] have "wireObject \<lparr>Type = t, Instance = thisInstance d t i\<rparr>"
      by (simp add: keyObject_def)
    moreover have "list_all wire us" if "map_of ps pr = Some p" "plist p = Some us" for p us
      using storeOkD(2) [OF assms ps that(1)] that(2) by (simp add: wireProperty_def)
    moreover have "wire (effectiveValue p)" if "map_of ps pr = Some p" for p
      using wire_effectiveValue storeOkD(2) [OF assms ps that] by blast
    ultimately show ?thesis
      using False r ps by (auto simp: readProperty_def Let_def split: if_splits option.splits)
  qed
qed

text \<open>New devices have such a store, and seeding or writing a value that can be sent keeps it.\<close>

lemma wire_plain [simp]: "wireProperty (plainProperty v) \<longleftrightarrow> wire v"
  by (simp add: wireProperty_def plainProperty_def list_all_iff)

lemma wire_text: "list_all (\<lambda>c. of_char c < (128 :: nat)) s \<Longrightarrow> length s < 2 ^ 31 \<Longrightarrow> wirePrimitive (CharStringValue s)"
proof -
  assume "list_all (\<lambda>c. of_char c < (128 :: nat)) s" and len: "length s < 2 ^ 31"
  then have "\<forall>b \<in> set (bytesOf s). b < 0x80"
    by (auto simp: bytesOf_def byte_of_char_def list_all_iff word_less_nat_alt unat_of_nat)
  with len validUTF8_ascii show ?thesis
    by (simp add: wirePrimitive_def)
qed

lemma storeOk_NewDevice: "inst < 4194304 \<Longrightarrow> storeOk (NewDevice inst)"
  by (simp add: storeOk_def NewDevice_def keyObject_def wireObject_def ObjectDevice_def wire_text)

lemma list_all_update:
  "list_all P xs \<Longrightarrow> P (k, v) \<Longrightarrow> list_all P (AList.update k v xs)"
  by (induction xs) auto

lemma storeOk_update:
  "storeOk d \<Longrightarrow> wireObject (keyObject key) \<Longrightarrow> list_all (\<lambda>(pr, p). wireProperty p) ps \<Longrightarrow>
    storeOk (d\<lparr>objects := AList.update key ps (objects d)\<rparr>)"
  by (auto simp: storeOk_def intro!: list_all_update)

lemma wire_seeded: "wire v \<Longrightarrow> wireProperty (seededProperty t pr v)"
  by (auto simp: seededProperty_def wireProperty_def plainProperty_def list_all_iff dest!: set_update_subset_insert [THEN subsetD])

lemma storeOk_AddObject:
  "storeOk d \<Longrightarrow> wireObject \<lparr>Type = t, Instance = i\<rparr> \<Longrightarrow> list_all (\<lambda>(pr, v). wire v) values' \<Longrightarrow>
    storeOk (AddObject d t i values')"
  unfolding AddObject_def
  by (rule storeOk_update) (auto simp: keyObject_def list_all_iff intro: wire_seeded)

lemma wire_setPriority: "wireProperty p \<Longrightarrow> wire v \<Longrightarrow> wireProperty (setPriority p i v)"
  by (cases v) (auto simp: setPriority_def wireProperty_def list_all_iff dest!: set_update_subset_insert [THEN subsetD])

lemma storeOk_writeProperty:
  assumes "storeOk d" and "wire v" and "writeProperty d t i pr v prio = (d', e)"
  shows "storeOk d'"
proof (cases "map_of (objects d) (objectKey t i)")
  case (Some ps)
  show ?thesis
  proof (cases "map_of ps pr")
    case p: (Some p)
    have "wireProperty q" if "map_of ps pr' = Some q" for pr' q
      using storeOkD(2) [OF assms(1) Some that] .
    have all: "list_all (\<lambda>(pr, p). wireProperty p) ps"
      using assms(1) Some by (auto simp: storeOk_def list_all_iff dest!: map_of_SomeD)
    have "storeOk (putProperty d (objectKey t i) pr (setPriority p k v))" for k
      unfolding putProperty_def
      using storeOkD [OF assms(1) Some] p all wire_setPriority assms(2)
      by (intro storeOk_update [OF assms(1)] list_all_update) (auto simp: propertiesOf_def Some)
    with assms(1,3) Some p show ?thesis
      by (auto simp: writeProperty_def Let_def split: if_splits option.splits)
  qed (use assms Some in \<open>simp add: writeProperty_def\<close>)
qed (use assms in \<open>simp add: writeProperty_def\<close>)

section \<open>Several properties at once\<close>

text \<open>What the device has for one property of an object, and for all that a request asks for.\<close>

definition refResult :: "Device \<Rightarrow> ObjectIdentifier \<Rightarrow> PropertyReference \<Rightarrow> PropertyResult" where
  "refResult d oid ref =
    (case readProperty d (Type oid) (Instance oid) (Property ref) (ArrayIndex ref) of
       Ok vs \<Rightarrow> \<lparr>Property = Property ref, ArrayIndex = ArrayIndex ref, ResultValues = vs, ResultErr = None\<rparr>
     | Err e \<Rightarrow> \<lparr>Property = Property ref, ArrayIndex = ArrayIndex ref, ResultValues = [], ResultErr = Some e\<rparr>
     | Panic \<Rightarrow> \<lparr>Property = Property ref, ArrayIndex = ArrayIndex ref, ResultValues = [], ResultErr = None\<rparr>)"

definition specResult :: "Device \<Rightarrow> ReadAccessSpec \<Rightarrow> ReadAccessResult" where
  "specResult d spec = \<lparr>ResultObject = SpecObject spec, Results = map (refResult d (SpecObject spec)) (Properties spec)\<rparr>"

lemma readSpec_eq: "readSpec d spec = Ok (specResult d spec)"
proof -
  have "readReference d oid ref = Ok (refResult d oid ref)" for oid ref
    using readProperty_safe [of d "Type oid" "Instance oid" "Property ref" "ArrayIndex ref"]
    by (auto simp: readReference_def refResult_def split: res.splits)
  then have "mapR (readReference d oid) refs = Ok (map (refResult d oid) refs)" for oid refs
    by (induction refs) simp_all
  then show ?thesis by (simp add: readSpec_def specResult_def)
qed

lemma mapR_readSpec: "mapR (readSpec d) specs = Ok (map (specResult d) specs)"
  by (induction specs) (simp_all add: readSpec_eq)

lemma wire_specResult:
  assumes "wireStore d" and "wireObject (SpecObject spec)"
  shows "wireAccessResult (specResult d spec)"
  using assms by (auto simp: wireAccessResult_def specResult_def wireResult_def refResult_def list_all_iff wireStore_def
      split: res.splits)

definition requestBytes :: "ReadAccessSpec list \<Rightarrow> byte list" where
  "requestBytes specs = concat (map specBytes specs)"

definition multiReply :: "Device \<Rightarrow> ReadAccessSpec list \<Rightarrow> byte list" where
  "multiReply d specs = concat (map accessResultBytes (map (specResult d) specs))"

lemma handleMultiple:
  assumes "list_all (\<lambda>s. wireObject (SpecObject s)) specs" and "length (requestBytes specs) < 65500"
  shows "handleConfirmed d ((newAPDU PDUConfirmedRequest)\<lparr>InvokeID := i,
      ServiceChoice := ServiceConfirmedReadPropertyMultiple, Params := requestBytes specs\<rparr>)
    = Ok (d, Some (EncodeUnicastPacket (complexReply ((newAPDU PDUConfirmedRequest)\<lparr>InvokeID := i,
      ServiceChoice := ServiceConfirmedReadPropertyMultiple, Params := requestBytes specs\<rparr>) (multiReply d specs))))"
proof -
  have "DecodeReadPropertyMultipleRequest (requestBytes specs) = Ok specs"
    using DecodeReadPropertyMultipleRequest_roundtrip [OF assms(1)] assms(2) by (simp add: requestBytes_def fits_def)
  then show ?thesis
    by (simp add: handleConfirmed_def handleReadPropertyMultiple_def dropErr_def mapR_readSpec
        EncodeReadPropertyMultipleACK_eq sendComplexACK_def multiReply_def Service_defs)
qed

lemma readPropertyMultiple_end_to_end:
  assumes free: "pending c j = None" and objs: "list_all (\<lambda>s. wireObject (SpecObject s)) specs" and store: "wireStore d"
    and addr: "resolveDeviceAddr resolve host = Ok addr" and len: "length (requestBytes specs) < 65500"
  shows "ReadPropertyMultiple resolve (deviceRequest d c ch) host specs =
    (if 3 + length (multiReply d specs) > maxAPDU then Err (AbortErr AbortReasonSegmentationNotSupported)
     else Ok (map (specResult d) specs))"
proof -
  let ?s = ServiceConfirmedReadPropertyMultiple
  let ?ack = "multiReply d specs"
  have run: "ReadPropertyMultiple resolve (deviceRequest d c ch) host specs =
      (if PduType apdu \<noteq> PDUComplexACK then serviceError apdu PDUComplexACK
       else DecodeReadPropertyMultipleACK (Params apdu))"
    if "exchange d c ch addr ?s (requestBytes specs) = Ok (d, Some apdu)" for apdu
    using that by (simp add: ReadPropertyMultiple_def addr EncodeReadPropertyMultipleRequest_eq deviceRequest_def requestBytes_def)
  note handle = handleMultiple [OF objs len, of d]
  show ?thesis
  proof (cases "3 + length ?ack > maxAPDU")
    case True
    obtain i where "exchange d c ch addr ?s (requestBytes specs)
        = Ok (d, Some ((newAPDU PDUAbort)\<lparr>InvokeID := i, AbortReason := AbortReasonSegmentationNotSupported\<rparr>))"
      by (rule exchange_answer [OF free len,
            where rep = "\<lambda>i. EncodeAbortAPDU i AbortReasonSegmentationNotSupported", of d ?s])
        (use handle True in \<open>simp_all add: DecodeAPDU_roundtrip complexReply_def Let_def
          EncodeComplexACKAPDU_def, simp_all add: EncodeAbortAPDU_def\<close>)
    from run [OF this] True show ?thesis by (simp add: serviceError_def PDU_defs)
  next
    case False
    then have reply: "complexReply ((newAPDU PDUConfirmedRequest)\<lparr>InvokeID := i, ServiceChoice := ?s, Params := requestBytes specs\<rparr>) ?ack
        = EncodeComplexACKAPDU i ?s ?ack" for i
      by (simp add: complexReply_def Let_def EncodeComplexACKAPDU_def)
    have size: "EncodeComplexACKAPDU i ?s ?ack \<noteq> []" "length (EncodeComplexACKAPDU i ?s ?ack) < 65530" for i
      using False by (simp_all add: EncodeComplexACKAPDU_def maxAPDU_def)
    obtain i where "exchange d c ch addr ?s (requestBytes specs)
        = Ok (d, Some ((newAPDU PDUComplexACK)\<lparr>InvokeID := i, ServiceChoice := ?s, Params := ?ack\<rparr>))"
      by (rule exchange_answer [OF free len, where rep = "\<lambda>i. EncodeComplexACKAPDU i ?s ?ack", of d ?s])
        (use handle reply size in \<open>simp_all add: DecodeAPDU_roundtrip, simp_all\<close>)
    moreover have "DecodeReadPropertyMultipleACK ?ack = Ok (map (specResult d) specs)"
      unfolding multiReply_def
    proof (rule DecodeReadPropertyMultipleACK_roundtrip)
      show "list_all wireAccessResult (map (specResult d) specs)"
        using objs wire_specResult [OF store] by (auto simp: list_all_iff)
      show "fits (concat (map accessResultBytes (map (specResult d) specs)))"
        using False by (simp add: fits_def maxAPDU_def multiReply_def)
    qed
    ultimately show ?thesis using run False by simp
  qed
qed

section \<open>The device as the loader's environment\<close>

text \<open>
  A network with this one device, which answers every request at once; one without
  ReadPropertyMultiple (\<open>rpm\<close> is false) rejects that service. It answers every Who-Is.
\<close>

definition deviceAnswers :: "bool \<Rightarrow> Device \<Rightarrow> Client \<Rightarrow> requester" where
  "deviceAnswers rpm d c addr service params =
    (if service = ServiceConfirmedReadPropertyMultiple \<and> \<not> rpm
     then Ok ((newAPDU PDUReject)\<lparr>RejectReason := RejectReasonUnrecognizedService\<rparr>)
     else deviceRequest d c 0 addr service params)"

definition deviceEnv :: "bool \<Rightarrow> Device \<Rightarrow> Client \<Rightarrow> resolver \<Rightarrow> Env" where
  "deviceEnv rpm d c resolve = \<lparr>env_resolve = resolve, env_request = (\<lambda>_. deviceAnswers rpm d c),
     env_whoIs = (\<lambda>_ addr _. RoundDeadline [\<lparr>EvFrom = AddrIP addr,
       EvIAm = \<lparr>Device = deviceID (devInstance d), MaxAPDULength = 1476, SegmentationSupported = 3, VendorID = devVendorID d\<rparr>\<rparr>]),
     env_retries = 0, env_ctxErr = (\<lambda>_. False)\<rparr>"

lemma deviceEnv_fields [simp]:
  "env_resolve (deviceEnv rpm d c resolve) = resolve" "env_request (deviceEnv rpm d c resolve) k = deviceAnswers rpm d c"
  "env_ctxErr (deviceEnv rpm d c resolve) k = False" "env_retries (deviceEnv rpm d c resolve) = 0"
  by (simp_all add: deviceEnv_def)

lemma ReadProperty_device:
  "ReadProperty resolve (deviceAnswers rpm d c) host obj pr idx = ReadProperty resolve (deviceRequest d c 0) host obj pr idx"
  by (simp add: ReadProperty_def deviceAnswers_def Service_defs)

lemma ReadPropertyMultiple_device:
  "ReadPropertyMultiple resolve (deviceAnswers True d c) host specs = ReadPropertyMultiple resolve (deviceRequest d c 0) host specs"
  by (simp add: ReadPropertyMultiple_def deviceAnswers_def)

lemma ReadPropertyMultiple_refused:
  assumes "resolveDeviceAddr resolve host = Ok addr"
  shows "ReadPropertyMultiple resolve (deviceAnswers False d c) host specs = Err (RejectErr RejectReasonUnrecognizedService)"
  by (simp add: ReadPropertyMultiple_def deviceAnswers_def assms EncodeReadPropertyMultipleRequest_eq serviceError_def
      newAPDU_def PDU_defs)

lemma deviceRead:
  assumes "pending c j = None" and "wireObject obj" and "storeOk d" and "resolveDeviceAddr resolve host = Ok addr"
  shows "ReadProperty resolve (deviceAnswers rpm d c) host obj pr idx
    = readOutcome d \<lparr>Property = pr, ArrayIndex = idx, Object = obj\<rparr>"
  using readProperty_end_to_end [of c j "\<lparr>Property = pr, ArrayIndex = idx, Object = obj\<rparr>", OF assms(1) _ storeOk_wireStore [OF assms(3)] assms(4)]
    assms(2) by (simp add: ReadProperty_device)

text \<open>Short values always fit one packet.\<close>

lemma tagged_short: "length (tagged t c data) \<le> 7 + length data"
  using tagHeader_length [of t c] by (simp add: tagged_def)

lemma valueBytes_data:
  assumes "isPrimitive v" and "v \<notin> range BoolValue"
  shows "length (valueBytes v) \<le> 7 + length (dataOf v)"
  using tagged_short by (simp only: valueBytes_primitive [OF assms(1)] contextBytes_tagged [OF assms(2)])

lemma valueBytes_short:
  "length (valueBytes (UnsignedValue n)) \<le> 15" "length (valueBytes (ObjectIDValue oid)) \<le> 15"
proof -
  have "isPrimitive (UnsignedValue n)" "isPrimitive (ObjectIDValue oid)"
    by (simp_all add: isPrimitive_def)
  from valueBytes_data [OF this(1)] valueBytes_data [OF this(2)] minUnsignedBytes_length [of n]
  show "length (valueBytes (UnsignedValue n)) \<le> 15" "length (valueBytes (ObjectIDValue oid)) \<le> 15"
    by (simp_all add: dataOf_def image_iff)
qed

lemma readOutcome_short:
  assumes "readProperty d (Type (Object r)) (Instance (Object r)) (Property r) (ArrayIndex r) = Ok [v]"
    and "length (valueBytes v) \<le> 15"
  shows "readOutcome d r = Ok [v]"
  using assms targetBytes_length [of "ackOf r [v]"] by (simp add: readOutcome_def ackBytes_def ackOf_def maxAPDU_def markerTag_def)

section \<open>The object list\<close>

lemma objectList_read:
  "readProperty d ObjectDevice (devInstance d) PropObjectList None = Ok (objectList d)"
  "readProperty d ObjectDevice (devInstance d) PropObjectList (Some 0) = Ok [UnsignedValue (word_of_nat (length (objectList d)))]"
  "1 \<le> unat i \<Longrightarrow> unat i \<le> length (objectList d) \<Longrightarrow>
    readProperty d ObjectDevice (devInstance d) PropObjectList (Some i) = Ok [objectList d ! (unat i - 1)]"
proof -
  have own: "thisInstance d ObjectDevice (devInstance d) = devInstance d" by (simp add: thisInstance_def)
  then show "readProperty d ObjectDevice (devInstance d) PropObjectList None = Ok (objectList d)"
    "readProperty d ObjectDevice (devInstance d) PropObjectList (Some 0) = Ok [UnsignedValue (word_of_nat (length (objectList d)))]"
    by (simp_all add: readProperty_def Let_def)
  assume i: "1 \<le> unat i" "unat i \<le> length (objectList d)"
  then have nz: "i \<noteq> 0" by auto
  have "take 1 (drop (unat i - 1) (objectList d)) = [objectList d ! (unat i - 1)]"
    using i by (simp add: take_Suc_conv_app_nth [of 0, simplified] hd_drop_conv_nth take_Suc)
  with own i nz show "readProperty d ObjectDevice (devInstance d) PropObjectList (Some i) = Ok [objectList d ! (unat i - 1)]"
    using unat_pred [OF nz] by (simp add: readProperty_def Let_def slice_def)
qed

lemma objectList_element:
  assumes "v \<in> set (objectList d)"
  shows "length (valueBytes v) \<le> 15"
proof -
  from assms obtain oid where "v = ObjectIDValue oid" by (auto simp: objectList_def)
  with valueBytes_short(2) [of oid] show ?thesis by (simp only:)
qed

text \<open>Whether or not it knows ReadPropertyMultiple, the device keeps the loader's contract.\<close>

lemma device_lists:
  assumes free: "pending c j = None" and store: "storeOk d" and addr: "resolveDeviceAddr resolve host = Ok addr"
    and inst: "devInstance d < 4194304" and len: "length (objectList d) + 50 < 2 ^ 32"
  shows "listsObjects (deviceEnv rpm d c resolve) host (devInstance d) (objectList d)"
proof -
  have obj: "wireObject (deviceID (devInstance d))" using inst by (simp add: deviceID_def wireObject_def ObjectDevice_def)
  note read = deviceRead [OF free obj store addr]
  have outcome: "readOutcome d \<lparr>Property = PropObjectList, ArrayIndex = idx, Object = deviceID (devInstance d)\<rparr> = Ok [v]"
    if "readProperty d ObjectDevice (devInstance d) PropObjectList idx = Ok [v]" "length (valueBytes v) \<le> 15" for idx v
    using that by (intro readOutcome_short) (simp_all add: deviceID_def)
  have whole: "case readOutcome d \<lparr>Property = PropObjectList, ArrayIndex = None, Object = deviceID (devInstance d)\<rparr> of
      Ok vs \<Rightarrow> vs = objectList d | Err e \<Rightarrow> retryable e | Panic \<Rightarrow> False"
    by (simp add: readOutcome_def deviceID_def objectList_read retryable_def)
  have multi: "case ReadPropertyMultiple resolve (deviceAnswers rpm d c) host
        [\<lparr>SpecObject = deviceID (devInstance d), Properties = map reference js\<rparr>] of
      Ok results \<Rightarrow> allValues results = Ok (map (\<lambda>j. objectList d ! (unat j - 1)) js)
    | Err e \<Rightarrow> asRejectError e = Some RejectReasonUnrecognizedService \<or> retryable e | Panic \<Rightarrow> False"
    if "length js \<le> 50" and js: "\<forall>j \<in> set js. 1 \<le> unat j \<and> unat j \<le> length (objectList d)" for js
  proof (cases rpm)
    case True
    let ?spec = "\<lparr>SpecObject = deviceID (devInstance d), Properties = map reference js\<rparr>"
    have "length (concat (map refBytes (map reference js))) \<le> 22 * length js"
    proof (induction js)
      case (Cons j js)
      have "length (refBytes (reference j)) \<le> 22"
        using uintBytes_length [of 0 PropObjectList] uintBytes_length [of 1 j] by (simp add: refBytes_def indexBytes_def)
      with Cons show ?case by simp
    qed simp
    moreover have "length (oidBytes 0 (deviceID (devInstance d))) \<le> 11"
      using tagged_short [of 0 True "putUint32 (objectIDWord (deviceID (devInstance d)))"] by (simp add: oidBytes_def)
    ultimately have "length (requestBytes [?spec]) < 65500"
      using that(1) by (simp add: requestBytes_def specBytes_def markerTag_def)
    from readPropertyMultiple_end_to_end [OF free _ storeOk_wireStore [OF store] addr this] obj
    have rpm': "ReadPropertyMultiple resolve (deviceAnswers rpm d c) host [?spec] =
        (if 3 + length (multiReply d [?spec]) > maxAPDU then Err (AbortErr AbortReasonSegmentationNotSupported)
         else Ok [specResult d ?spec])"
      by (simp add: True ReadPropertyMultiple_device)
    have "resultValues (map (refResult d (deviceID (devInstance d)) \<circ> reference) js) = Ok (map (\<lambda>j. objectList d ! (unat j - 1)) js)"
      using js by (induction js) (simp_all add: refResult_def deviceID_def objectList_read)
    then show ?thesis
      by (simp add: rpm' retryable_def allValues_def specResult_def)
  next
    case False
    then show ?thesis using ReadPropertyMultiple_refused [OF addr] by simp
  qed
  have size: "readOutcome d \<lparr>Property = PropObjectList, ArrayIndex = Some 0, Object = deviceID (devInstance d)\<rparr>
      = Ok [UnsignedValue (word_of_nat (length (objectList d)))]"
    by (rule outcome [OF objectList_read(2) valueBytes_short(1)])
  have single: "readOutcome d \<lparr>Property = PropObjectList, ArrayIndex = Some i, Object = deviceID (devInstance d)\<rparr>
      = Ok [objectList d ! (unat i - 1)]" if "1 \<le> unat i" "unat i \<le> length (objectList d)" for i
    using that objectList_element [OF nth_mem, of "unat i - 1" d] objectList_read(3) [of i d] by (intro outcome) simp_all
  show ?thesis
    unfolding listsObjects_def deviceEnv_fields read
    using len multi whole size single by simp
qed

text \<open>So the loader gets the device's object list, at any length and in any number of replies.\<close>

lemma readObjectList_device:
  assumes "pending c j = None" and "storeOk d" and "resolveDeviceAddr resolve host = Ok addr"
    and "devInstance d < 4194304" and "length (objectList d) + 50 < 2 ^ 32"
  shows "\<exists>l'. readObjectList (deviceEnv rpm d c resolve) host (devInstance d) l = Some (Ok (objectList d), l')"
  by (rule readObjectList_lists) (rule device_lists [OF assms])

end
