(* ===== verification/Mock_Concurrency.thy ===== *)
theory Mock_Concurrency
  imports Mock_EndToEnd System_Theorems
begin

text \<open>
  The serve loop of \<^verbatim>\<open>internal/bacnetmock/server.go\<close>: each packet is handled by a goroutine of its own.
  A step is what happens between two uses of the device's lock, so a request is one step, except
  for a ReadPropertyMultiple, which takes the lock once for every property that it reads.
\<close>

section \<open>State\<close>

text \<open>
  Where a handler is: a ReadPropertyMultiple has the objects still to read, the results for the
  first of them, and the objects that are done.
\<close>

datatype jobPhase =
    Started
  | Reads APDU "ReadAccessSpec list" "PropertyResult list" "ReadAccessResult list"
  | Done "byte list option"
  | JobPanics

record Job =
  job_Packet :: "byte list"
  job_From :: UDPAddr
  job_Phase :: jobPhase

text \<open>The server, the packets that it has sent (each with its job), and the states its device has been in.\<close>

record MockServer =
  ms_Device :: Device
  ms_IgnoreWhoIs :: bool
  ms_Jobs :: "nat \<rightharpoonup> Job"
  ms_Sent :: "(nat \<times> UDPAddr \<times> byte list) list"
  ms_Past :: "Device list"
  ms_Closed :: bool

definition startMock :: "Device \<Rightarrow> MockServer" where
  "startMock d = \<lparr>ms_Device = d, ms_IgnoreWhoIs = False, ms_Jobs = Map.empty, ms_Sent = [], ms_Past = [d], ms_Closed = False\<rparr>"

definition setPhase :: "nat \<Rightarrow> Job \<Rightarrow> jobPhase \<Rightarrow> MockServer \<Rightarrow> MockServer" where
  "setPhase t j p s = s\<lparr>ms_Jobs := (ms_Jobs s)(t \<mapsto> j\<lparr>job_Phase := p\<rparr>)\<rparr>"

definition setDevice :: "Device \<Rightarrow> MockServer \<Rightarrow> MockServer" where
  "setDevice d s = s\<lparr>ms_Device := d, ms_Past := ms_Past s @ [d]\<rparr>"

definition replyTo :: "nat \<Rightarrow> Job \<Rightarrow> byte list option \<Rightarrow> MockServer \<Rightarrow> MockServer" where
  "replyTo t j reply s = (setPhase t j (Done reply) s)\<lparr>ms_Sent :=
     ms_Sent s @ (case reply of None \<Rightarrow> [] | Some pkt \<Rightarrow> [(t, job_From j, pkt)])\<rparr>"

text \<open>A packet that is a ReadPropertyMultiple which decodes.\<close>

definition multipleRequest :: "byte list \<Rightarrow> (APDU \<times> ReadAccessSpec list) option" where
  "multipleRequest pkt =
    (case DecodeIncomingPacket pkt of
       Ok apdu \<Rightarrow>
         if PduType apdu = PDUConfirmedRequest \<and> ServiceChoice apdu = ServiceConfirmedReadPropertyMultiple then
           (case DecodeReadPropertyMultipleRequest (Params apdu) of Ok specs \<Rightarrow> Some (apdu, specs) | _ \<Rightarrow> None)
         else None
     | _ \<Rightarrow> None)"

section \<open>Steps\<close>

inductive jobStep :: "nat \<Rightarrow> MockServer \<Rightarrow> MockServer \<Rightarrow> bool" for t s where
  whole: "ms_Jobs s t = Some j \<Longrightarrow> job_Phase j = Started \<Longrightarrow> multipleRequest (job_Packet j) = None \<Longrightarrow>
    handlePacket (ms_IgnoreWhoIs s) (ms_Device s) (job_Packet j) = Ok (d, reply) \<Longrightarrow>
    jobStep t s (replyTo t j reply (setDevice d s))"
| fails: "ms_Jobs s t = Some j \<Longrightarrow> job_Phase j = Started \<Longrightarrow> multipleRequest (job_Packet j) = None \<Longrightarrow>
    handlePacket (ms_IgnoreWhoIs s) (ms_Device s) (job_Packet j) = Panic \<Longrightarrow>
    jobStep t s (setPhase t j JobPanics s)"
| begins: "ms_Jobs s t = Some j \<Longrightarrow> job_Phase j = Started \<Longrightarrow> multipleRequest (job_Packet j) = Some (apdu, specs) \<Longrightarrow>
    jobStep t s (setPhase t j (Reads apdu specs [] []) s)"
| reads: "ms_Jobs s t = Some j \<Longrightarrow> job_Phase j = Reads apdu (spec # specs) rs out \<Longrightarrow> drop (length rs) (Properties spec) = ref # refs \<Longrightarrow>
    readReference (ms_Device s) (SpecObject spec) ref = Ok r \<Longrightarrow>
    jobStep t s (setPhase t j (Reads apdu (spec # specs) (rs @ [r]) out) s)"
| read_fails: "ms_Jobs s t = Some j \<Longrightarrow> job_Phase j = Reads apdu (spec # specs) rs out \<Longrightarrow> drop (length rs) (Properties spec) = ref # refs \<Longrightarrow>
    readReference (ms_Device s) (SpecObject spec) ref = Panic \<Longrightarrow>
    jobStep t s (setPhase t j JobPanics s)"
| object_read: "ms_Jobs s t = Some j \<Longrightarrow> job_Phase j = Reads apdu (spec # specs) rs out \<Longrightarrow> drop (length rs) (Properties spec) = [] \<Longrightarrow>
    jobStep t s (setPhase t j (Reads apdu specs [] (out @ [\<lparr>ResultObject = SpecObject spec, Results = rs\<rparr>])) s)"
| sends: "ms_Jobs s t = Some j \<Longrightarrow> job_Phase j = Reads apdu [] rs out \<Longrightarrow> EncodeReadPropertyMultipleACK out = Ok ack \<Longrightarrow>
    jobStep t s (replyTo t j (Some (sendComplexACK apdu ack)) s)"

text \<open>Everything that can happen; tests seed the device and set the flag while the server runs.\<close>

inductive mockStep :: "MockServer \<Rightarrow> MockServer \<Rightarrow> bool" for s where
  receives: "\<not> ms_Closed s \<Longrightarrow> ms_Jobs s t = None \<Longrightarrow>
    mockStep s (s\<lparr>ms_Jobs := (ms_Jobs s)(t \<mapsto> \<lparr>job_Packet = pkt, job_From = from, job_Phase = Started\<rparr>)\<rparr>)"
| works: "jobStep t s s' \<Longrightarrow> mockStep s s'"
| ignores: "mockStep s (s\<lparr>ms_IgnoreWhoIs := b\<rparr>)"
| adds: "mockStep s (setDevice (AddObject (ms_Device s) typ inst vs) s)"
| sets: "mockStep s (setDevice (SetProperty (ms_Device s) typ inst prop v) s)"
| sets_list: "mockStep s (setDevice (SetPropertyList (ms_Device s) typ inst prop l) s)"
| closes: "mockStep s (s\<lparr>ms_Closed := True\<rparr>)"

section \<open>What a job may answer\<close>

text \<open>The results of one object, each read in some state that the device was in.\<close>

definition readsFrom :: "Device list \<Rightarrow> ReadAccessSpec \<Rightarrow> PropertyReference list \<Rightarrow> PropertyResult list \<Rightarrow> bool" where
  "readsFrom past spec refs rs \<longleftrightarrow>
    list_all2 (\<lambda>ref r. \<exists>d \<in> set past. readReference d (SpecObject spec) ref = Ok r) refs rs"

definition objectFrom :: "Device list \<Rightarrow> ReadAccessSpec \<Rightarrow> ReadAccessResult \<Rightarrow> bool" where
  "objectFrom past spec res \<longleftrightarrow> ResultObject res = SpecObject spec \<and> readsFrom past spec (Properties spec) (Results res)"

definition answersFrom :: "Device list \<Rightarrow> byte list \<Rightarrow> byte list option \<Rightarrow> bool" where
  "answersFrom past pkt reply \<longleftrightarrow>
    (case multipleRequest pkt of
       None \<Rightarrow> \<exists>ign. \<exists>d \<in> set past. \<exists>d' \<in> set past. handlePacket ign d pkt = Ok (d', reply)
     | Some (apdu, specs) \<Rightarrow> \<exists>out ack. list_all2 (objectFrom past) specs out
         \<and> EncodeReadPropertyMultipleACK out = Ok ack \<and> reply = Some (sendComplexACK apdu ack))"

lemma readsFrom_mono: "readsFrom past spec refs rs \<Longrightarrow> set past \<subseteq> set past' \<Longrightarrow> readsFrom past' spec refs rs"
  unfolding readsFrom_def by (erule list_all2_mono) blast

lemma objectFrom_mono: "objectFrom past spec res \<Longrightarrow> set past \<subseteq> set past' \<Longrightarrow> objectFrom past' spec res"
  by (auto simp: objectFrom_def intro: readsFrom_mono)

lemma answersFrom_mono: "answersFrom past pkt reply \<Longrightarrow> set past \<subseteq> set past' \<Longrightarrow> answersFrom past' pkt reply"
  unfolding answersFrom_def
  by (auto split: option.splits dest: list_all2_mono [of "objectFrom past" _ _ "objectFrom past'"] intro: objectFrom_mono)

text \<open>What holds of a job in its phase.\<close>

definition jobOk :: "Device list \<Rightarrow> Job \<Rightarrow> bool" where
  "jobOk past j \<longleftrightarrow>
    (case job_Phase j of
       Started \<Rightarrow> True
     | Reads apdu specs rs out \<Rightarrow> \<exists>read. multipleRequest (job_Packet j) = Some (apdu, read @ specs)
         \<and> list_all2 (objectFrom past) read out
         \<and> (case specs of [] \<Rightarrow> rs = [] | spec # _ \<Rightarrow> length rs \<le> length (Properties spec)
             \<and> readsFrom past spec (take (length rs) (Properties spec)) rs)
     | Done reply \<Rightarrow> answersFrom past (job_Packet j) reply
     | JobPanics \<Rightarrow> False)"

lemma jobOk_mono: "jobOk past j \<Longrightarrow> set past \<subseteq> set past' \<Longrightarrow> jobOk past' j"
  by (cases "job_Phase j") (auto simp: jobOk_def split: list.splits
      dest: list_all2_mono [of "objectFrom past" _ _ "objectFrom past'"] intro: objectFrom_mono readsFrom_mono answersFrom_mono)

definition mockInv :: "MockServer \<Rightarrow> bool" where
  "mockInv s \<longleftrightarrow> ms_Device s \<in> set (ms_Past s) \<and> (\<forall>d \<in> set (ms_Past s). deviceOk d)
    \<and> (\<forall>t j. ms_Jobs s t = Some j \<longrightarrow> jobOk (ms_Past s) j)
    \<and> distinct (map fst (ms_Sent s))
    \<and> (\<forall>(t, to, pkt) \<in> set (ms_Sent s). \<exists>j. ms_Jobs s t = Some j \<and> job_From j = to \<and> job_Phase j = Done (Some pkt))"

section \<open>The invariant\<close>

lemma server_fields [simp]:
  "ms_Device (setPhase t j p s) = ms_Device s" "ms_Past (setPhase t j p s) = ms_Past s" "ms_Sent (setPhase t j p s) = ms_Sent s"
  "ms_Jobs (setPhase t j p s) = (ms_Jobs s)(t \<mapsto> j\<lparr>job_Phase := p\<rparr>)"
  "ms_Device (setDevice d s) = d" "ms_Past (setDevice d s) = ms_Past s @ [d]" "ms_Sent (setDevice d s) = ms_Sent s"
  "ms_Jobs (setDevice d s) = ms_Jobs s"
  "ms_Device (replyTo t j r s) = ms_Device s" "ms_Past (replyTo t j r s) = ms_Past s"
  "ms_Sent (replyTo t j r s) = ms_Sent s @ (case r of None \<Rightarrow> [] | Some pkt \<Rightarrow> [(t, job_From j, pkt)])"
  "ms_Jobs (replyTo t j r s) = (ms_Jobs s)(t \<mapsto> j\<lparr>job_Phase := Done r\<rparr>)"
  "ms_IgnoreWhoIs (setPhase t j p s) = ms_IgnoreWhoIs s" "ms_IgnoreWhoIs (setDevice d s) = ms_IgnoreWhoIs s"
  "ms_IgnoreWhoIs (replyTo t j r s) = ms_IgnoreWhoIs s"
  by (simp_all add: setPhase_def setDevice_def replyTo_def)

lemma readReference_total: "readReference d oid ref = Ok (refResult d oid ref)"
  using readProperty_safe [of d "Type oid" "Instance oid" "Property ref" "ArrayIndex ref"]
  by (auto simp: readReference_def refResult_def split: res.splits)

lemma handlePacket_total: "\<exists>d' r. handlePacket ign d pkt = Ok (d', r)"
  using handlePacket_no_Err [of ign d pkt] handlePacket_safe [of ign d pkt] by (cases "handlePacket ign d pkt") auto

lemma handlePacket_ok: "handlePacket ign d pkt = Ok (d', r) \<Longrightarrow> deviceOk d \<Longrightarrow> deviceOk d'"
  using handlePacket_device deviceOk_write by blast

text \<open>A job moves on without answering.\<close>

lemma mockInv_setPhase:
  assumes "mockInv s" and "ms_Jobs s t = Some j" and "\<forall>r. job_Phase j \<noteq> Done r" and "jobOk (ms_Past s) (j\<lparr>job_Phase := p\<rparr>)"
  shows "mockInv (setPhase t j p s)"
  using assms by (fastforce simp: mockInv_def)

text \<open>A job answers.\<close>

lemma mockInv_replyTo:
  assumes "mockInv s" and "ms_Jobs s t = Some j" and "\<forall>r. job_Phase j \<noteq> Done r" and "answersFrom (ms_Past s) (job_Packet j) r"
  shows "mockInv (replyTo t j r s)"
proof -
  have new: "t \<notin> fst ` set (ms_Sent s)" using assms(1-3) by (fastforce simp: mockInv_def)
  moreover have "jobOk (ms_Past s) (j\<lparr>job_Phase := Done r\<rparr>)" using assms(4) by (simp add: jobOk_def)
  moreover have "\<exists>j'. ((ms_Jobs s)(t \<mapsto> j\<lparr>job_Phase := Done r\<rparr>)) u = Some j' \<and> job_From j' = to \<and> job_Phase j' = Done (Some pkt)"
    if "(u, to, pkt) \<in> set (ms_Sent s)" for u to pkt
  proof -
    from new that have "u \<noteq> t" by force
    with that assms(1) show ?thesis by (auto simp: mockInv_def)
  qed
  ultimately show ?thesis using assms(1) unfolding mockInv_def by (cases r) auto
qed

text \<open>The device changes.\<close>

lemma mockInv_setDevice:
  assumes "mockInv s" and "deviceOk d"
  shows "mockInv (setDevice d s)"
proof -
  have "jobOk (ms_Past s @ [d]) j" if "ms_Jobs s t = Some j" for t j
    using assms(1) that by (auto simp: mockInv_def intro: jobOk_mono [of "ms_Past s"])
  with assms show ?thesis by (simp add: mockInv_def)
qed

lemma jobStep_inv:
  assumes "jobStep t s s'" and inv: "mockInv s"
  shows "mockInv s'"
  using assms(1)
proof cases
  case (whole j d reply)
  have here: "ms_Device s \<in> set (ms_Past s)" "deviceOk (ms_Device s)" using inv by (auto simp: mockInv_def)
  have "answersFrom (ms_Past (setDevice d s)) (job_Packet j) reply"
    using whole(4,5) here(1) by (auto simp: answersFrom_def)
  with mockInv_setDevice [OF inv handlePacket_ok [OF whole(5) here(2)]] whole(2,3)
  show ?thesis unfolding whole(1) by (intro mockInv_replyTo) simp_all
next
  case (fails j)
  with handlePacket_total [of "ms_IgnoreWhoIs s" "ms_Device s" "job_Packet j"] show ?thesis by simp
next
  case (begins j apdu specs)
  then show ?thesis
    by (auto intro!: mockInv_setPhase [OF inv] simp: jobOk_def readsFrom_def split: list.splits)
next
  case (reads j apdu spec specs rs out ref refs r)
  have here: "ms_Device s \<in> set (ms_Past s)" using inv by (simp add: mockInv_def)
  have "length rs < length (Properties spec)" using reads(4) by (metis drop_eq_Nil linorder_not_le list.distinct(1))
  moreover from this have "take (Suc (length rs)) (Properties spec) = take (length rs) (Properties spec) @ [ref]"
    using reads(4) by (metis Cons_nth_drop_Suc list.inject take_Suc_conv_app_nth)
  moreover have "jobOk (ms_Past s) j" using inv reads(2) by (simp add: mockInv_def)
  ultimately have "jobOk (ms_Past s) (j\<lparr>job_Phase := Reads apdu (spec # specs) (rs @ [r]) out\<rparr>)"
    using reads(3,5) here by (auto simp: jobOk_def readsFrom_def intro!: list_all2_appendI)
  with reads(2,3) show ?thesis unfolding reads(1) by (intro mockInv_setPhase [OF inv]) simp_all
next
  case (read_fails j apdu spec specs rs out ref refs)
  then show ?thesis by (simp add: readReference_total)
next
  case (object_read j apdu spec specs rs out)
  have "jobOk (ms_Past s) j" using inv object_read(2) by (simp add: mockInv_def)
  then obtain read where "multipleRequest (job_Packet j) = Some (apdu, read @ spec # specs)"
    and "list_all2 (objectFrom (ms_Past s)) read out"
    and "readsFrom (ms_Past s) spec (Properties spec) rs"
    using object_read(3,4) by (auto simp: jobOk_def)
  then have "jobOk (ms_Past s) (j\<lparr>job_Phase := Reads apdu specs [] (out @ [\<lparr>ResultObject = SpecObject spec, Results = rs\<rparr>])\<rparr>)"
    by (auto simp: jobOk_def objectFrom_def readsFrom_def intro!: exI [of _ "read @ [spec]"] list_all2_appendI split: list.splits)
  with object_read(2,3) show ?thesis unfolding object_read(1) by (intro mockInv_setPhase [OF inv]) simp_all
next
  case (sends j apdu rs out ack)
  have "jobOk (ms_Past s) j" using inv sends(2) by (simp add: mockInv_def)
  then obtain specs where "multipleRequest (job_Packet j) = Some (apdu, specs)" and "list_all2 (objectFrom (ms_Past s)) specs out"
    using sends(3) by (auto simp: jobOk_def)
  with sends(4) have "answersFrom (ms_Past s) (job_Packet j) (Some (sendComplexACK apdu ack))"
    by (simp add: answersFrom_def) blast
  with sends(2,3) show ?thesis unfolding sends(1) by (intro mockInv_replyTo [OF inv]) simp_all
qed

lemma mockStep_inv: "mockStep s s' \<Longrightarrow> mockInv s \<Longrightarrow> mockInv s'"
proof (induction rule: mockStep.induct)
  case (receives t pkt "from")
  then show ?case by (fastforce simp: mockInv_def jobOk_def)
next
  case (works t s')
  then show ?case by (rule jobStep_inv)
next
  case (adds t i vs)
  then show ?case by (intro mockInv_setDevice deviceOk_seed) (simp_all add: mockInv_def)
next
  case (sets t i pr v)
  then show ?case by (intro mockInv_setDevice deviceOk_seed) (simp_all add: mockInv_def)
next
  case (sets_list t i pr l)
  then show ?case by (intro mockInv_setDevice deviceOk_seed) (simp_all add: mockInv_def)
qed (simp_all add: mockInv_def)

lemma mockInv_start: "deviceOk d \<Longrightarrow> mockInv (startMock d)"
  by (simp add: mockInv_def startMock_def)

lemma reachable_mockInv: "mockStep\<^sup>*\<^sup>* (startMock d) s \<Longrightarrow> deviceOk d \<Longrightarrow> mockInv s"
  by (induction rule: rtranclp_induct) (auto intro: mockInv_start mockStep_inv)

section \<open>One job alone\<close>

lemma setPhase_again [simp]:
  "setPhase t (j\<lparr>job_Phase := p\<rparr>) q (setPhase t j p s) = setPhase t j q s"
  "replyTo t (j\<lparr>job_Phase := p\<rparr>) r (setPhase t j p s) = replyTo t j r s"
  by (simp_all add: setPhase_def replyTo_def split: option.split)

lemma reads_object:
  assumes "drop (length rs) (Properties spec) = refs"
  shows "(jobStep t)\<^sup>*\<^sup>* (setPhase t j (Reads apdu (spec # specs) rs out) s)
    (setPhase t j (Reads apdu (spec # specs) (rs @ map (refResult (ms_Device s) (SpecObject spec)) refs) out) s)"
  using assms
proof (induction refs arbitrary: rs)
  case (Cons ref refs)
  let ?r = "refResult (ms_Device s) (SpecObject spec) ref"
  have "jobStep t (setPhase t j (Reads apdu (spec # specs) rs out) s) (setPhase t j (Reads apdu (spec # specs) (rs @ [?r]) out) s)"
    using jobStep.reads [of "setPhase t j (Reads apdu (spec # specs) rs out) s" t "j\<lparr>job_Phase := Reads apdu (spec # specs) rs out\<rparr>"
        apdu spec specs rs out ref refs ?r] Cons.prems by (simp add: readReference_total)
  moreover have "drop (length (rs @ [?r])) (Properties spec) = refs"
    using Cons.prems by (metis drop_drop length_append_singleton list.sel(3) plus_1_eq_Suc tl_drop drop_Suc)
  ultimately show ?case using Cons.IH [of "rs @ [?r]"] by (simp add: converse_rtranclp_into_rtranclp)
qed simp

lemma reads_objects:
  "(jobStep t)\<^sup>*\<^sup>* (setPhase t j (Reads apdu specs [] out) s)
    (setPhase t j (Reads apdu [] [] (out @ map (specResult (ms_Device s)) specs)) s)"
proof (induction specs arbitrary: out)
  case (Cons spec specs)
  let ?rs = "map (refResult (ms_Device s) (SpecObject spec)) (Properties spec)"
  have "(jobStep t)\<^sup>*\<^sup>* (setPhase t j (Reads apdu (spec # specs) [] out) s) (setPhase t j (Reads apdu (spec # specs) ?rs out) s)"
    using reads_object [of "[]" spec _ t j apdu specs out s] by simp
  also have "jobStep t (setPhase t j (Reads apdu (spec # specs) ?rs out) s)
      (setPhase t j (Reads apdu specs [] (out @ [specResult (ms_Device s) spec])) s)"
    using jobStep.object_read [of "setPhase t j (Reads apdu (spec # specs) ?rs out) s" t "j\<lparr>job_Phase := Reads apdu (spec # specs) ?rs out\<rparr>"
        apdu spec specs ?rs out] by (simp add: specResult_def)
  finally show ?case using Cons.IH [of "out @ [specResult (ms_Device s) spec]"] by simp
qed simp

lemma handlePacket_multiple:
  assumes "multipleRequest pkt = Some (apdu, specs)"
  shows "handlePacket ign d pkt = Ok (d, Some (sendComplexACK apdu (multiReply d specs)))"
proof -
  from assms have "DecodeIncomingPacket pkt = Ok apdu" "PduType apdu = PDUConfirmedRequest"
    "ServiceChoice apdu = ServiceConfirmedReadPropertyMultiple" "DecodeReadPropertyMultipleRequest (Params apdu) = Ok specs"
    by (auto simp: multipleRequest_def split: res.splits if_splits)
  then show ?thesis
    by (simp add: handlePacket_def handleConfirmed_def handleReadPropertyMultiple_def dropErr_def mapR_readSpec
        EncodeReadPropertyMultipleACK_eq multiReply_def Service_defs PDU_defs)
qed

lemma job_alone:
  assumes "ms_Jobs s t = Some j" and "job_Phase j = Started"
  shows "\<exists>s' d r. (jobStep t)\<^sup>*\<^sup>* s s' \<and> handlePacket (ms_IgnoreWhoIs s) (ms_Device s) (job_Packet j) = Ok (d, r)
    \<and> ms_Device s' = d \<and> ms_Sent s' = ms_Sent s @ (case r of None \<Rightarrow> [] | Some pkt \<Rightarrow> [(t, job_From j, pkt)])"
proof (cases "multipleRequest (job_Packet j)")
  case None
  from handlePacket_total [of "ms_IgnoreWhoIs s" "ms_Device s" "job_Packet j"] obtain d r
    where dr: "handlePacket (ms_IgnoreWhoIs s) (ms_Device s) (job_Packet j) = Ok (d, r)" by blast
  from jobStep.whole [OF assms None dr] have "(jobStep t)\<^sup>*\<^sup>* s (replyTo t j r (setDevice d s))" by blast
  with dr show ?thesis by (intro exI [of _ "replyTo t j r (setDevice d s)"]) simp
next
  case (Some a)
  then obtain apdu specs where m: "multipleRequest (job_Packet j) = Some (apdu, specs)" by (cases a) simp
  let ?out = "map (specResult (ms_Device s)) specs"
  let ?reply = "Some (sendComplexACK apdu (multiReply (ms_Device s) specs))"
  note jobStep.begins [OF assms m]
  also note reads_objects [of t j apdu specs "[]" s]
  also have "jobStep t (setPhase t j (Reads apdu [] [] ([] @ ?out)) s) (replyTo t j ?reply s)"
    using jobStep.sends [of "setPhase t j (Reads apdu [] [] ?out) s" t "j\<lparr>job_Phase := Reads apdu [] [] ?out\<rparr>" apdu "[]" ?out
        "multiReply (ms_Device s) specs"] by (simp add: EncodeReadPropertyMultipleACK_eq multiReply_def)
  finally have "(jobStep t)\<^sup>*\<^sup>* s (replyTo t j ?reply s)" .
  with handlePacket_multiple [OF m] show ?thesis by (intro exI [of _ "replyTo t j ?reply s"]) simp
qed

section \<open>The property\<close>

lemma answersFrom_fits:
  assumes "answersFrom past pkt (Some reply)"
  shows "\<exists>apdu. reply = EncodeUnicastPacket apdu \<and> length apdu \<le> 1476"
proof (cases "multipleRequest pkt")
  case None
  with assms obtain ign d d' where "handlePacket ign d pkt = Ok (d', Some reply)" by (auto simp: answersFrom_def)
  then show ?thesis by (rule handlePacket_reply) (auto simp: maxAPDU_def)
next
  case (Some a)
  with assms obtain apdu ack where "reply = sendComplexACK apdu ack" by (auto simp: answersFrom_def split: prod.splits)
  with complexReply_length [of apdu ack] show ?thesis by (auto simp: sendComplexACK_def maxAPDU_def)
qed

text \<open>
  C27. The device under concurrent requests: in every interleaving of the goroutines that handle
  packets (and of tests that seed the device), none panics and the device stays well formed. Each
  packet is answered at most once, to its sender, with an APDU that fits 1476 octets. The answer
  is the one that the device gives in a single state that it was in, except for a
  ReadPropertyMultiple, of which each value was read in such a state, but not all in the same. A
  request that runs alone does exactly what the sequential handler does.
\<close>

theorem mock_serves_concurrently:
  assumes "deviceOk d" and "mockStep\<^sup>*\<^sup>* (startMock d) s"
  shows "(\<forall>t j. ms_Jobs s t = Some j \<longrightarrow> job_Phase j \<noteq> JobPanics) \<and> deviceOk (ms_Device s)
    \<and> distinct (map fst (ms_Sent s))
    \<and> (\<forall>(t, to, pkt) \<in> set (ms_Sent s). \<exists>j. ms_Jobs s t = Some j \<and> job_From j = to
        \<and> answersFrom (ms_Past s) (job_Packet j) (Some pkt) \<and> (\<exists>apdu. pkt = EncodeUnicastPacket apdu \<and> length apdu \<le> 1476))
    \<and> (\<forall>t j. ms_Jobs s t = Some j \<and> job_Phase j = Started \<longrightarrow>
        (\<exists>s' d r. (jobStep t)\<^sup>*\<^sup>* s s' \<and> handlePacket (ms_IgnoreWhoIs s) (ms_Device s) (job_Packet j) = Ok (d, r)
          \<and> ms_Device s' = d \<and> ms_Sent s' = ms_Sent s @ (case r of None \<Rightarrow> [] | Some pkt \<Rightarrow> [(t, job_From j, pkt)])))"
proof -
  note inv = reachable_mockInv [OF assms(2,1)]
  have job: "jobOk (ms_Past s) j" if "ms_Jobs s t = Some j" for t j using inv that by (simp add: mockInv_def)
  have "answersFrom (ms_Past s) (job_Packet j) (Some pkt)" if "ms_Jobs s t = Some j" "job_Phase j = Done (Some pkt)" for t j pkt
    using job [OF that(1)] that(2) by (simp add: jobOk_def)
  then have "\<exists>j. ms_Jobs s t = Some j \<and> job_From j = to \<and> answersFrom (ms_Past s) (job_Packet j) (Some pkt)
      \<and> (\<exists>apdu. pkt = EncodeUnicastPacket apdu \<and> length apdu \<le> 1476)" if "(t, to, pkt) \<in> set (ms_Sent s)" for t to pkt
    using inv that answersFrom_fits by (fastforce simp: mockInv_def)
  moreover have "job_Phase j \<noteq> JobPanics" if "ms_Jobs s t = Some j" for t j
    using job [OF that] by (auto simp: jobOk_def)
  ultimately show ?thesis using inv job_alone by (auto simp: mockInv_def)
qed

text \<open>The witness: a Who-Is has arrived; its handler, run alone, sends the I-Am to the sender.\<close>

definition asked :: MockServer where
  "asked = (startMock (NewDevice 7))\<lparr>ms_Jobs := [0 \<mapsto> \<lparr>job_Packet = [0x81, 0x0A, 0, 8, 1, 0, 0x10, 8],
     job_From = \<lparr>AddrIP = [192, 0, 2, 1], AddrPort = 47808\<rparr>, job_Phase = Started\<rparr>]\<rparr>"

lemma asked_answer:
  "map_option (map_option length o snd) (case handlePacket False (NewDevice 7) [0x81, 0x0A, 0, 8, 1, 0, 0x10, 8] of
     Ok x \<Rightarrow> Some x | _ \<Rightarrow> None) = Some (Some 21)"
  by code_simp

lemma mock_serves_concurrently_witness:
  "\<exists>s' pkt. (jobStep 0)\<^sup>*\<^sup>* asked s' \<and> ms_Sent s' = [(0, \<lparr>AddrIP = [192, 0, 2, 1], AddrPort = 47808\<rparr>, pkt)] \<and> length pkt = 21"
proof -
  have "mockStep (startMock (NewDevice 7)) asked"
    using mockStep.receives [of "startMock (NewDevice 7)" 0 "[0x81, 0x0A, 0, 8, 1, 0, 0x10, 8]" "\<lparr>AddrIP = [192, 0, 2, 1], AddrPort = 47808\<rparr>"]
    by (simp add: asked_def startMock_def)
  then have "mockStep\<^sup>*\<^sup>* (startMock (NewDevice 7)) asked" by blast
  note serves = mock_serves_concurrently [OF deviceOk_NewDevice this, THEN conjunct2, THEN conjunct2, THEN conjunct2, THEN conjunct2]
  let ?j = "\<lparr>job_Packet = [0x81, 0x0A, 0, 8, 1, 0, 0x10, 8], job_From = \<lparr>AddrIP = [192, 0, 2, 1], AddrPort = 47808\<rparr>, job_Phase = Started\<rparr>"
  have "ms_Jobs asked 0 = Some ?j \<and> job_Phase ?j = Started" by (simp add: asked_def)
  from serves [THEN spec, THEN spec, THEN mp, OF this]
  obtain s' d r where r: "(jobStep 0)\<^sup>*\<^sup>* asked s'"
    "handlePacket (ms_IgnoreWhoIs asked) (ms_Device asked) (job_Packet ?j) = Ok (d, r)"
    "ms_Sent s' = ms_Sent asked @ (case r of None \<Rightarrow> [] | Some pkt \<Rightarrow> [(0, job_From ?j, pkt)])"
    by (elim exE conjE)
  have "ms_Device asked = NewDevice 7" "ms_IgnoreWhoIs asked = False" "ms_Sent asked = []" by (simp_all add: asked_def startMock_def)
  with asked_answer r show ?thesis by (cases r) auto
qed

end
