(* ===== verification/Api_Cache.thy ===== *)
theory Api_Cache
  imports Api_Loader
begin

text \<open>
  The variable cache of \<^verbatim>\<open>internal/api/varcache.go\<close>: snapshots of devices by address, loaded on
  first use and refreshed in the background. The lemmas show that a cached snapshot costs no
  traffic, that a failed load or refresh never loses or replaces a snapshot, and when an entry is
  dropped.
\<close>

section \<open>State\<close>

record cacheEntry =
  ce_data :: "deviceVars option"
  ce_lastUsed :: int

record varCache =
  vc_interval :: int
  vc_entries :: "string \<rightharpoonup> cacheEntry"

definition idleRefreshes :: int where "idleRefreshes = 10"
definition minLoadTimeout :: int where "minLoadTimeout = 300000000000"

definition newVarCache :: "int \<Rightarrow> varCache" where
  "newVarCache interval =
    \<lparr>vc_interval = (if interval \<le> 0 then 60000000000 else interval), vc_entries = Map.empty\<rparr>"

text \<open>How long \<^verbatim>\<open>load\<close> may take.\<close>

definition loadTimeout :: "varCache \<Rightarrow> int" where
  "loadTimeout c = max (vc_interval c) minLoadTimeout"

section \<open>Use\<close>

text \<open>The entry that \<^verbatim>\<open>get\<close> works on, made if it is not there, and marked as used.\<close>

definition useEntry :: "int \<Rightarrow> string \<Rightarrow> varCache \<Rightarrow> cacheEntry" where
  "useEntry now hostPort c =
    (case vc_entries c hostPort of
       None \<Rightarrow> \<lparr>ce_data = None, ce_lastUsed = now\<rparr>
     | Some e \<Rightarrow> e\<lparr>ce_lastUsed := now\<rparr>)"

definition putEntry :: "string \<Rightarrow> cacheEntry \<Rightarrow> varCache \<Rightarrow> varCache" where
  "putEntry hostPort e c = c\<lparr>vc_entries := (vc_entries c)(hostPort \<mapsto> e)\<rparr>"

text \<open>\<open>k\<close> is the number of interactions with the outside world so far.\<close>

definition get :: "Env \<Rightarrow> int \<Rightarrow> string \<Rightarrow> nat \<Rightarrow> varCache \<Rightarrow> (deviceVars result \<times> nat \<times> varCache) option" where
  "get E now hostPort k c =
    (let e = useEntry now hostPort c; c = putEntry hostPort e c in
     case ce_data e of
       Some dv \<Rightarrow> Some (Ok dv, k, c)
     | None \<Rightarrow>
         (case load E hostPort k of
            None \<Rightarrow> None
          | Some (Ok dv, l) \<Rightarrow> Some (Ok dv, tick l, putEntry hostPort (e\<lparr>ce_data := Some dv\<rparr>) c)
          | Some (Err err, l) \<Rightarrow> Some (Err err, tick l, c)
          | Some (Panic, l) \<Rightarrow> Some (Panic, tick l, c)))"

section \<open>Refresh\<close>

definition dropIdle :: "int \<Rightarrow> varCache \<Rightarrow> varCache" where
  "dropIdle now c = c\<lparr>vc_entries := (\<lambda>h. case vc_entries c h of
     None \<Rightarrow> None
   | Some e \<Rightarrow> if ce_lastUsed e < now - idleRefreshes * vc_interval c then None else Some e)\<rparr>"

text \<open>
  The loop over the entries that stay, in the order of the map, which is any order \<open>hs\<close> of its
  keys. \<open>None\<close> is a load that never returns; the flag says that the loop panicked.
\<close>

fun refreshLoop :: "Env \<Rightarrow> string list \<Rightarrow> nat \<Rightarrow> varCache \<Rightarrow> (bool \<times> nat \<times> varCache) option" where
  "refreshLoop E [] k c = Some (False, k, c)"
| "refreshLoop E (h # hs) k c =
    (case vc_entries c h of
       None \<Rightarrow> refreshLoop E hs k c
     | Some e \<Rightarrow>
         if ce_data e = None then refreshLoop E hs k c
         else case load E h k of
           None \<Rightarrow> None
         | Some (Ok dv, l) \<Rightarrow> refreshLoop E hs (tick l) (putEntry h (e\<lparr>ce_data := Some dv\<rparr>) c)
         | Some (Panic, l) \<Rightarrow> Some (True, tick l, c)
         | Some (Err err, l) \<Rightarrow>
             (case ctxErr E l of (gone, l) \<Rightarrow>
                if gone then Some (False, tick l, c) else refreshLoop E hs (tick l) c))"

definition refreshAll :: "Env \<Rightarrow> int \<Rightarrow> string list \<Rightarrow> nat \<Rightarrow> varCache \<Rightarrow> (bool \<times> nat \<times> varCache) option" where
  "refreshAll E now order k c = refreshLoop E order k (dropIdle now c)"

section \<open>What the cache promises\<close>

text \<open>The snapshot a device has in the cache; a sound cache holds only what loading that device gave.\<close>

definition cached :: "varCache \<Rightarrow> string \<rightharpoonup> deviceVars" where
  "cached c h = Option.bind (vc_entries c h) ce_data"

definition cacheOk :: "Env \<Rightarrow> varCache \<Rightarrow> bool" where
  "cacheOk E c \<longleftrightarrow> 0 < vc_interval c \<and> (\<forall>h dv. cached c h = Some dv \<longrightarrow> (\<exists>k l. load E h k = Some (Ok dv, l)))"

text \<open>What that means for a snapshot in the cache: it is well formed, and the device gave its names.\<close>

lemma cacheOk_snapshot:
  assumes "cacheOk E c" and "cached c h = Some dv"
  shows "snapshotOk dv" and "v \<in> set (dv_vars dv) \<Longrightarrow> var_Name v \<in> givenNames E h (var_Object v)"
  using assms by (auto simp: cacheOk_def dest: load_snapshotOk load_named)

lemma cached_putEntry [simp]:
  "cached (putEntry h e c) h' = (if h' = h then ce_data e else cached c h')"
  "vc_interval (putEntry h e c) = vc_interval c"
  by (simp_all add: cached_def putEntry_def)

lemma useEntry_data [simp]: "ce_data (useEntry now h c) = cached c h"
  by (simp add: useEntry_def cached_def split: option.split)

lemma cached_new [simp]: "cached (newVarCache i) h = None"
  by (simp add: cached_def newVarCache_def)

lemma cacheOk_new: "cacheOk E (newVarCache i)"
  by (simp add: cacheOk_def newVarCache_def cached_def)

text \<open>The outcomes of \<^verbatim>\<open>get\<close>: the cached snapshot without traffic, a new one that is then cached, or a failure.\<close>

lemma get_cases:
  assumes "get E now h k c = Some (r, k', c')"
  obtains (hit) dv where "cached c h = Some dv" and "r = Ok dv" and "k' = k" and "cached c' = cached c"
  | (miss) dv l where "cached c h = None" and "load E h k = Some (Ok dv, l)" and "r = Ok dv" and "k' = tick l"
      and "cached c' = (cached c)(h \<mapsto> dv)"
  | (failed) l where "cached c h = None" and "load E h k = Some (r, l)" and "\<forall>dv. r \<noteq> Ok dv" and "k' = tick l"
      and "cached c' = cached c"
proof (cases "cached c h")
  case (Some dv)
  with assms hit show thesis by (auto simp: get_def Let_def fun_eq_iff)
next
  case None
  with assms obtain l where l: "load E h k = Some (r, l)" and "k' = tick l"
    and c': "cached c' = (case r of Ok dv \<Rightarrow> (cached c)(h \<mapsto> dv) | _ \<Rightarrow> cached c)"
    by (auto simp: get_def Let_def fun_eq_iff split: option.splits res.splits prod.splits)
  with None miss failed show thesis by (cases r) auto
qed

lemma get_interval: "get E now h k c = Some (r, k', c') \<Longrightarrow> vc_interval c' = vc_interval c"
  by (auto simp: get_def Let_def split: option.splits res.splits prod.splits)

lemma get_cacheOk: "get E now h k c = Some (r, k', c') \<Longrightarrow> cacheOk E c \<Longrightarrow> cacheOk E c'"
  by (frule get_interval) (erule get_cases; auto simp: cacheOk_def split: if_splits)

lemma get_snapshotOk: "get E now h k c = Some (Ok dv, k', c') \<Longrightarrow> cacheOk E c \<Longrightarrow> snapshotOk dv"
  by (erule get_cases) (auto simp: cacheOk_def dest: load_snapshotOk)

lemma get_safe: "envSafe E \<Longrightarrow> get E now h k c = Some (r, k', c') \<Longrightarrow> safe r"
  by (erule get_cases) (auto dest: load_safe)

lemma get_returns: "shortLists E h \<Longrightarrow> \<exists>r. get E now h k c = Some r"
  using load_returns [of E h k]
  by (auto simp: get_def Let_def split: option.splits res.splits)

text \<open>A snapshot in the cache is replaced only by one that was loaded for the same device.\<close>

lemma refreshLoop_cached:
  assumes "refreshLoop E hs k c = Some (p, k', c')"
  shows "vc_interval c' = vc_interval c
    \<and> (cached c' h = cached c h \<or> cached c h \<noteq> None \<and> h \<in> set hs \<and> (\<exists>dv j l. load E h j = Some (Ok dv, l) \<and> cached c' h = Some dv))
    \<and> (vc_entries c' h = None \<longleftrightarrow> vc_entries c h = None)"
  using assms
proof (induction hs arbitrary: k c)
  case (Cons a hs)
  show ?case
  proof (cases "vc_entries c a")
    case None
    with Cons.IH [of k c] Cons.prems show ?thesis by auto
  next
    case (Some e)
    show ?thesis
    proof (cases "ce_data e")
      case None
      with Some Cons.IH [of k c] Cons.prems show ?thesis by auto
    next
      case data: (Some old)
      with Some Cons.prems obtain r l where l: "load E a k = Some (r, l)"
        by (auto split: option.splits)
      show ?thesis
      proof (cases r)
        case (Ok dv)
        with Some data l Cons.prems have "refreshLoop E hs (tick l) (putEntry a (e\<lparr>ce_data := Some dv\<rparr>) c) = Some (p, k', c')"
          by simp
        from Cons.IH [OF this] Some data l Ok show ?thesis
          by (auto simp: cached_def putEntry_def split: if_splits)
      next
        case (Err err)
        obtain gone l' where "ctxErr E l = (gone, l')" by (metis surj_pair)
        with Err Some data l Cons.prems Cons.IH [of "tick l'" c] show ?thesis by (auto split: if_splits)
      qed (use Some data l Cons.prems in auto)
    qed
  qed
qed simp

lemma dropIdle_entries:
  "vc_entries (dropIdle now c) h =
    (case vc_entries c h of None \<Rightarrow> None
     | Some e \<Rightarrow> if ce_lastUsed e < now - idleRefreshes * vc_interval c then None else Some e)"
  "vc_interval (dropIdle now c) = vc_interval c"
  by (simp_all add: dropIdle_def)

lemma refreshAll_entry:
  assumes "refreshAll E now order k c = Some (p, k', c')"
  shows "(vc_entries c' h = None \<longleftrightarrow>
      (case vc_entries c h of None \<Rightarrow> True | Some e \<Rightarrow> ce_lastUsed e < now - idleRefreshes * vc_interval c))
    \<and> (vc_entries c' h \<noteq> None \<longrightarrow> cached c' h = cached c h
        \<or> cached c h \<noteq> None \<and> (\<exists>dv j l. load E h j = Some (Ok dv, l) \<and> cached c' h = Some dv))"
  using refreshLoop_cached [OF assms [unfolded refreshAll_def], of h]
  by (auto simp: dropIdle_entries cached_def split: option.splits if_splits)

lemma refreshAll_cacheOk:
  assumes "refreshAll E now order k c = Some (p, k', c')" and "cacheOk E c"
  shows "cacheOk E c'"
  unfolding cacheOk_def
proof (intro conjI allI impI)
  show "0 < vc_interval c'"
    using refreshLoop_cached [OF assms(1) [unfolded refreshAll_def]] assms(2)
    by (simp add: cacheOk_def dropIdle_def)
  fix h dv
  assume dv: "cached c' h = Some dv"
  then have "vc_entries c' h \<noteq> None" by (cases "vc_entries c' h") (auto simp: cached_def)
  with refreshAll_entry [OF assms(1), of h] dv assms(2) show "\<exists>k l. load E h k = Some (Ok dv, l)"
    by (auto simp: cacheOk_def)
qed

lemma refreshLoop_safe: "envSafe E \<Longrightarrow> refreshLoop E hs k c = Some (p, k', c') \<Longrightarrow> \<not> p"
  by (induction hs arbitrary: k c)
    (auto split: option.splits if_splits res.splits prod.splits dest: load_safe)

end
