(* ===== verification/Auth.thy ===== *)
theory Auth
  imports Authz
begin

text \<open>
  \<^verbatim>\<open>internal/auth/auth.go\<close>: which opaque token or verified JWT a bearer credential stands for.
  The JWT library and the issuers' signing keys are parameters. The lemmas show when a credential
  yields a token name or claims, and with which key and restrictions it was verified.
\<close>

section \<open>The JWT library\<close>

text \<open>
  What the code hands to \<^verbatim>\<open>golang-jwt\<close>: the parser's options, and keys: the shared secret, or an
  RSA key (modulus and exponent), a point of a curve or an Ed25519 key. \<open>jwt_unverified\<close> is \<^verbatim>\<open>ParseUnverified\<close>: the
  algorithm and the claims of a token; \<open>jwt_parse\<close> is \<^verbatim>\<open>ParseWithClaims\<close> with a key function
  of the token's key ID (none when the header's \<^verbatim>\<open>kid\<close> is not a text, which the code reads as
  the empty ID).
\<close>

type_synonym Claims = "string \<rightharpoonup> any"

datatype Key =
    Secret string
  | RSAKey nat nat
  | ECKey string "byte list" "byte list"
  | EdKey "byte list"

record ParserOptions =
  po_ValidMethods :: "string list"
  po_Issuer :: "string option"
  po_Audience :: "string option"
  po_ExpirationRequired :: bool
  po_IssuedAt :: bool
  po_Leeway :: int

record JWT =
  jwt_unverified :: "string \<Rightarrow> (string \<times> Claims) option"
  jwt_parse :: "ParserOptions \<Rightarrow> (string \<Rightarrow> Key option) \<Rightarrow> string \<Rightarrow> Claims option"

definition leeway :: int where "leeway = 60000000000"

definition asymmetricAlgs :: "string list" where
  "asymmetricAlgs = [''RS256'', ''RS384'', ''RS512'', ''PS256'', ''PS384'', ''PS512'', ''ES256'', ''ES384'',
     ''ES512'', ''EdDSA'']"

definition hmacAlgs :: "string list" where "hmacAlgs = [''HS256'', ''HS384'', ''HS512'']"

section \<open>The authenticator\<close>

record Token =
  token_Name :: string
  token_Value :: string

record Issuer =
  iss_URL :: string
  iss_Audience :: string

record Options =
  opt_Tokens :: "Token list"
  opt_JWTSecret :: string
  opt_Issuers :: "Issuer list"

record Authenticator =
  tokensByValue :: "string \<rightharpoonup> string"
  jwtSecret :: "string option"
  issuers :: "string \<rightharpoonup> Issuer"

definition NewAuthenticator :: "Options \<Rightarrow> Authenticator" where
  "NewAuthenticator opts =
    \<lparr>tokensByValue = foldl (\<lambda>m t. m(token_Value t \<mapsto> token_Name t)) Map.empty (opt_Tokens opts),
       jwtSecret = (if opt_JWTSecret opts \<noteq> [] then Some (opt_JWTSecret opts) else None),
       issuers = foldl (\<lambda>m i. m(iss_URL i \<mapsto> i)) Map.empty (opt_Issuers opts)\<rparr>"

text \<open>\<open>Detail\<close> is for debugging; it has a case for each text the code builds.\<close>

datatype Detail =
    NoBearer
  | OpaqueToken string
  | NotParseable
  | NoSecretConfigured
  | HMACRejected
  | HMACVerified
  | UnknownIssuer string string
  | IssuerRejected string
  | IssuerVerified string string

record AuthResult =
  auth_TokenName :: string
  auth_Claims :: "Claims option"
  auth_Detail :: Detail

definition noResult :: "Detail \<Rightarrow> AuthResult" where
  "noResult d = \<lparr>auth_TokenName = [], auth_Claims = None, auth_Detail = d\<rparr>"

definition verifyHMAC :: "JWT \<Rightarrow> Authenticator \<Rightarrow> string \<Rightarrow> AuthResult" where
  "verifyHMAC J a bearer =
    (case jwtSecret a of
       None \<Rightarrow> noResult NoSecretConfigured
     | Some secret \<Rightarrow>
         (case jwt_parse J \<lparr>po_ValidMethods = hmacAlgs, po_Issuer = None, po_Audience = None,
                 po_ExpirationRequired = False, po_IssuedAt = False, po_Leeway = leeway\<rparr>
               (\<lambda>kid. Some (Secret secret)) bearer of
            None \<Rightarrow> noResult HMACRejected
          | Some claims \<Rightarrow> \<lparr>auth_TokenName = [], auth_Claims = Some claims, auth_Detail = HMACVerified\<rparr>))"

text \<open>
  \<^verbatim>\<open>oidcVerifier.verify\<close>; \<open>key url kid\<close> is what the verifier of the issuer returns for a key ID.
\<close>

definition issuerOptions :: "Issuer \<Rightarrow> ParserOptions" where
  "issuerOptions v = \<lparr>po_ValidMethods = asymmetricAlgs, po_Issuer = Some (iss_URL v), po_Audience = Some (iss_Audience v),
     po_ExpirationRequired = True, po_IssuedAt = True, po_Leeway = leeway\<rparr>"

definition verify :: "JWT \<Rightarrow> (string \<Rightarrow> string \<Rightarrow> Key option) \<Rightarrow> Issuer \<Rightarrow> string \<Rightarrow> Claims option" where
  "verify J key v bearer = jwt_parse J (issuerOptions v) (key (iss_URL v)) bearer"

definition Authenticate :: "JWT \<Rightarrow> (string \<Rightarrow> string \<Rightarrow> Key option) \<Rightarrow> Authenticator \<Rightarrow> string \<Rightarrow> AuthResult" where
  "Authenticate J key a bearer =
    (if bearer = [] then noResult NoBearer
     else case tokensByValue a bearer of
       Some name \<Rightarrow> \<lparr>auth_TokenName = name, auth_Claims = None, auth_Detail = OpaqueToken name\<rparr>
     | None \<Rightarrow>
         (case jwt_unverified J bearer of
            None \<Rightarrow> noResult NotParseable
          | Some (alg, unverified) \<Rightarrow>
              if HasPrefix alg ''HS'' then verifyHMAC J a bearer
              else let iss = (case unverified ''iss'' of Some (StringAny s) \<Rightarrow> s | _ \<Rightarrow> []) in
                case issuers a iss of
                  None \<Rightarrow> noResult (UnknownIssuer alg iss)
                | Some v \<Rightarrow>
                    (case verify J key v bearer of
                       None \<Rightarrow> noResult (IssuerRejected iss)
                     | Some claims \<Rightarrow> \<lparr>auth_TokenName = [], auth_Claims = Some claims, auth_Detail = IssuerVerified iss alg\<rparr>)))"

section \<open>When a credential is recognized\<close>

lemma Authenticate_token:
  "bearer \<noteq> [] \<Longrightarrow> tokensByValue a bearer = Some name \<Longrightarrow>
    Authenticate J key a bearer = \<lparr>auth_TokenName = name, auth_Claims = None, auth_Detail = OpaqueToken name\<rparr>"
  by (simp add: Authenticate_def)

lemma Authenticate_TokenName:
  assumes "auth_TokenName (Authenticate J key a bearer) = name" and "name \<noteq> []"
  shows "bearer \<noteq> [] \<and> tokensByValue a bearer = Some name \<and> auth_Claims (Authenticate J key a bearer) = None"
  using assms
  by (auto simp: Authenticate_def noResult_def verifyHMAC_def Let_def split: if_splits option.splits)

lemma Authenticate_Claims:
  assumes "auth_Claims (Authenticate J key a bearer) = Some claims"
  obtains (hmac) secret where "jwtSecret a = Some secret"
      and "jwt_parse J \<lparr>po_ValidMethods = hmacAlgs, po_Issuer = None, po_Audience = None,
             po_ExpirationRequired = False, po_IssuedAt = False, po_Leeway = leeway\<rparr>
             (\<lambda>kid. Some (Secret secret)) bearer = Some claims"
  | (issuer) v url where "issuers a url = Some v"
      and "jwt_parse J (issuerOptions v) (key (iss_URL v)) bearer = Some claims"
  using assms
  by (auto simp: Authenticate_def noResult_def verifyHMAC_def verify_def Let_def
      split: if_splits option.splits)

lemma issuers_URL:
  assumes "issuers (NewAuthenticator opts) url = Some v"
  shows "v \<in> set (opt_Issuers opts) \<and> iss_URL v = url"
proof -
  have "foldl (\<lambda>m i. m(iss_URL i \<mapsto> i)) Map.empty is' url = Some v \<Longrightarrow> v \<in> set is' \<and> iss_URL v = url" for is'
    by (induction is' rule: rev_induct) (auto split: if_splits)
  with assms show ?thesis by (simp add: NewAuthenticator_def)
qed

lemma tokens_configured:
  assumes "tokensByValue (NewAuthenticator opts) bearer = Some name"
  shows "\<exists>t \<in> set (opt_Tokens opts). token_Value t = bearer \<and> token_Name t = name"
proof -
  have "foldl (\<lambda>m t. m(token_Value t \<mapsto> token_Name t)) Map.empty ts bearer = Some name \<Longrightarrow>
      \<exists>t \<in> set ts. token_Value t = bearer \<and> token_Name t = name" for ts
    by (induction ts rule: rev_induct) (auto split: if_splits)
  with assms show ?thesis by (simp add: NewAuthenticator_def)
qed

end
