(* ===== verification/Api_Middleware.thy ===== *)
theory Api_Middleware
  imports Api_Http Api_Dto Api_Cache Auth
begin

text \<open>
  \<^verbatim>\<open>internal/api/middleware.go\<close> and the server it serves: who is calling and from where, and
  whether a request may proceed. A handler is a function on the server's changing state that may
  answer and stop early. The lemmas show that only a trusted proxy can name another client
  address, what a refusal looks like, and that a request about a variable proceeds only under the
  name that the device gave it.
\<close>

section \<open>Requests, the server and its state\<close>

text \<open>
  What the code reads of an HTTP request: the peer, the first value of each header, the path
  parameters, the query's index, and the decoded body (\<open>None\<close> when it is not valid JSON).
\<close>

record HttpRequest =
  hr_RemoteAddr :: string
  hr_Header :: "string \<Rightarrow> string"
  hr_deviceId :: string
  hr_objectType :: string
  hr_instance :: string
  hr_property :: string
  hr_index :: string
  hr_Body :: "writeRequest option"

text \<open>
  The server's fixed part. The switch for debug logging is left out, since it only logs, and the
  BACnet client is in the world outside.
\<close>

record Server =
  srv_devices :: "(string \<times> string) list"
  srv_authenticator :: Authenticator
  srv_rules :: "Rule list"
  srv_requestTimeout :: int
  srv_trustedProxies :: "IPNet list"
  srv_needsObjectName :: bool

definition NewServer :: "(string \<times> string) list \<Rightarrow> Options \<Rightarrow> Rule list \<Rightarrow> int \<Rightarrow> IPNet list \<Rightarrow> Server" where
  "NewServer devices opts rules timeout trusted =
    \<lparr>srv_devices = devices, srv_authenticator = NewAuthenticator opts, srv_rules = rules,
       srv_requestTimeout = timeout, srv_trustedProxies = trusted, srv_needsObjectName = UsesCondition rules ConditionVariable\<rparr>"

text \<open>\<^verbatim>\<open>requestContext\<close>: the deadline of the context of a request that is received at \<open>now\<close>.\<close>

definition requestContext :: "Server \<Rightarrow> int \<Rightarrow> int" where
  "requestContext S now = now + srv_requestTimeout S"

text \<open>
  The world outside: the BACnet network, the JWT library and the issuers' keys, the printing of
  claims, the conversion of floats beyond uint64, and the clock at each interaction.
\<close>

record World =
  w_env :: Env
  w_jwt :: JWT
  w_key :: "string \<Rightarrow> string \<Rightarrow> Key option"
  w_formats :: Formats
  w_far :: "u64 \<Rightarrow> u64"
  w_now :: "nat \<Rightarrow> int"

text \<open>The state: interactions so far, the cache, and the writes that were sent to devices.\<close>

record St =
  st_tick :: nat
  st_cache :: varCache
  st_writes :: "(string \<times> ObjectIdentifier \<times> PropertyIdentifier \<times> Value \<times> byte option) list"

datatype 'a step = Continue 'a | Reply Response | Panics

text \<open>\<open>None\<close> is a handler that never returns.\<close>

type_synonym 'a handler = "St \<Rightarrow> ('a step \<times> St) option"

definition continue :: "'a \<Rightarrow> 'a handler" where
  "continue x s = Some (Continue x, s)"

definition reply :: "Response \<Rightarrow> 'a handler" where
  "reply r s = Some (Reply r, s)"

definition andThen :: "'a handler \<Rightarrow> ('a \<Rightarrow> 'b handler) \<Rightarrow> 'b handler" where
  "andThen m f s =
    (case m s of
       None \<Rightarrow> None
     | Some (Continue x, s) \<Rightarrow> f x s
     | Some (Reply r, s) \<Rightarrow> Some (Reply r, s)
     | Some (Panics, s) \<Rightarrow> Some (Panics, s))"

text \<open>A call that returns \<^verbatim>\<open>(T, error)\<close>; its panic is the handler's.\<close>

definition outcome :: "'a result \<Rightarrow> (error + 'a) step" where
  "outcome r = (case r of Ok x \<Rightarrow> Continue (Inr x) | Err e \<Rightarrow> Continue (Inl e) | Panic \<Rightarrow> Panics)"

definition cacheGet :: "World \<Rightarrow> string \<Rightarrow> (error + deviceVars) handler" where
  "cacheGet W hostPort s =
    (case get (w_env W) (w_now W (st_tick s)) hostPort (st_tick s) (st_cache s) of
       None \<Rightarrow> None
     | Some (r, k, c) \<Rightarrow> Some (outcome r, s\<lparr>st_tick := k, st_cache := c\<rparr>))"

text \<open>\<^verbatim>\<open>recoverJSON\<close>: a panic becomes a 500; a handler that answers nothing sends an empty 200.\<close>

definition recoverJSON :: "unit handler \<Rightarrow> St \<Rightarrow> (Response \<times> St) option" where
  "recoverJSON h s =
    (case h s of
       None \<Rightarrow> None
     | Some (Reply r, s) \<Rightarrow> Some (r, s)
     | Some (Panics, s) \<Rightarrow> Some (writeError [] StatusInternalServerError (Text ''internal error''), s)
     | Some (Continue _, s) \<Rightarrow> Some (\<lparr>resp_Status = StatusOK, resp_Header = [], resp_Body = NoBody\<rparr>, s))"

section \<open>Who is calling\<close>

definition isTrustedProxy :: "Server \<Rightarrow> IP \<Rightarrow> bool" where
  "isTrustedProxy S ip \<longleftrightarrow> ip \<noteq> [] \<and> list_ex (\<lambda>n. Contains n ip) (srv_trustedProxies S)"

definition peerIP :: "HttpRequest \<Rightarrow> IP" where
  "peerIP r = ParseIP (case SplitHostPort (hr_RemoteAddr r) of Some (host, _) \<Rightarrow> host | None \<Rightarrow> hr_RemoteAddr r)"

definition clientIP :: "Server \<Rightarrow> HttpRequest \<Rightarrow> IP" where
  "clientIP S r =
    (let peer = peerIP r;
         xff = hr_Header r ''X-Forwarded-For'';
         xrip = hr_Header r ''X-Real-IP'';
         forwarded = ParseIP (TrimSpace (cutBefore xff (CHR '','')));
         real = ParseIP (TrimSpace xrip)
     in if isTrustedProxy S peer then
          if xff \<noteq> [] \<and> forwarded \<noteq> [] then forwarded
          else if xrip \<noteq> [] \<and> real \<noteq> [] then real
          else peer
        else peer)"

definition bearerToken :: "HttpRequest \<Rightarrow> string" where
  "bearerToken r =
    (let h = hr_Header r ''Authorization''; prefix = ''Bearer '' in
     if length h > length prefix \<and> map lowerAscii (take (length prefix) h) = map lowerAscii prefix
     then drop (length prefix) h else [])"

record caller =
  call_bearer :: string
  call_req :: Request

definition newCaller :: "World \<Rightarrow> Server \<Rightarrow> HttpRequest \<Rightarrow> string \<Rightarrow> caller" where
  "newCaller W S r device =
    (let bearer = bearerToken r;
         authResult = Authenticate (w_jwt W) (w_key W) (srv_authenticator S) bearer
     in \<lparr>call_bearer = bearer,
          call_req = \<lparr>req_Device = device, req_ClientIP = clientIP S r, req_Operation = [],
            req_TokenName = auth_TokenName authResult, req_JWTClaims = auth_Claims authResult,
            req_ObjectName = []\<rparr>\<rparr>)"

section \<open>What a caller may do\<close>

definition allowed :: "World \<Rightarrow> Server \<Rightarrow> caller \<Rightarrow> string \<Rightarrow> Operation \<Rightarrow> bool" where
  "allowed W S c name op =
    (let req = (call_req c)\<lparr>req_Operation := op, req_ObjectName := name\<rparr>;
         result = Evaluate (w_formats W) req (srv_rules S)
     in result_Allowed result
        \<and> (RequiredPermission op \<noteq> PermissionReadWrite \<or> result_Permission result = PermissionReadWrite))"

type_synonym access = string
definition accessNone :: access where "accessNone = []"
definition accessReadOnly :: access where "accessReadOnly = ''readonly''"
definition accessReadWrite :: access where "accessReadWrite = ''readwrite''"

lemmas access_defs = accessNone_def accessReadOnly_def accessReadWrite_def

definition variableAccess :: "World \<Rightarrow> Server \<Rightarrow> caller \<Rightarrow> string \<Rightarrow> access" where
  "variableAccess W S c name =
    (if \<not> allowed W S c name OperationReadProperty then accessNone
     else if allowed W S c name OperationWriteProperty then accessReadWrite
     else accessReadOnly)"

section \<open>Refusals\<close>

definition writeDenied :: "string \<Rightarrow> Response" where
  "writeDenied bearer =
    (if bearer = [] then writeError [(''WWW-Authenticate'', ''Bearer'')] StatusUnauthorized (Text ''authentication required'')
     else writeError [] StatusForbidden (Text ''access denied''))"

definition writeEnumerationError :: "caller \<Rightarrow> error \<Rightarrow> Response" where
  "writeEnumerationError c err =
    (if req_TokenName (call_req c) \<noteq> [] \<or> req_JWTClaims (call_req c) \<noteq> None then writeBACnetError err
     else writeDenied (call_bearer c))"

definition check :: "World \<Rightarrow> Server \<Rightarrow> caller \<Rightarrow> string \<Rightarrow> Operation \<Rightarrow> unit handler" where
  "check W S c name op =
    (if allowed W S c name op then continue ()
     else if RequiredPermission op = PermissionReadWrite \<and> allowed W S c name OperationReadProperty
       then reply (writeError [] StatusForbidden (Text ''readwrite permission required for this operation''))
     else reply (writeDenied (call_bearer c)))"

definition authorize :: "World \<Rightarrow> Server \<Rightarrow> HttpRequest \<Rightarrow> string \<Rightarrow> Operation \<Rightarrow> caller handler" where
  "authorize W S r device op =
    (let c = newCaller W S r device in andThen (check W S c [] op) (\<lambda>_. continue c))"

definition resolveDevice :: "Server \<Rightarrow> string \<Rightarrow> string" where
  "resolveDevice S dev = (case map_of (srv_devices S) dev of Some addr \<Rightarrow> addr | None \<Rightarrow> dev)"

definition authorizeVariable ::
  "World \<Rightarrow> Server \<Rightarrow> HttpRequest \<Rightarrow> string \<Rightarrow> ObjectIdentifier option \<Rightarrow> Operation \<Rightarrow> (caller \<times> string) handler" where
  "authorizeVariable W S r device obj op =
    (let c = newCaller W S r device in
     if \<not> srv_needsObjectName S then andThen (check W S c [] op) (\<lambda>_. continue (c, []))
     else andThen (cacheGet W (resolveDevice S device)) (\<lambda>got.
       case got of
         Inl err \<Rightarrow> reply (writeEnumerationError c err)
       | Inr dv \<Rightarrow>
           let oid = (case obj of None \<Rightarrow> deviceObject dv | Some o' \<Rightarrow> o') in
           (case dv_byID dv oid of
              None \<Rightarrow> reply (writeDenied (call_bearer c))
            | Some v \<Rightarrow> andThen (check W S c (var_Name v) op) (\<lambda>_. continue (c, var_Name v)))))"

section \<open>Client addresses\<close>

lemma clientIP_untrusted: "\<not> isTrustedProxy S (peerIP r) \<Longrightarrow> clientIP S r = peerIP r"
  by (simp add: clientIP_def Let_def)

lemma clientIP_cases:
  "clientIP S r \<in> {peerIP r, ParseIP (TrimSpace (cutBefore (hr_Header r ''X-Forwarded-For'') (CHR '',''))),
     ParseIP (TrimSpace (hr_Header r ''X-Real-IP''))}"
  by (simp add: clientIP_def Let_def)

section \<open>Permission\<close>

lemma writeDenied_status:
  "resp_Status (writeDenied bearer) = (if bearer = [] then StatusUnauthorized else StatusForbidden)"
  by (simp add: writeDenied_def)

text \<open>The names a rule set can tell apart: without a condition on names every variable is alike.\<close>

lemma allowed_name_irrelevant:
  assumes "\<not> UsesCondition (srv_rules S) ConditionVariable"
  shows "allowed W S c n op = allowed W S c m op"
  using engine.name_irrelevant [OF assms, where F = "w_formats W" and req = "(call_req c)\<lparr>req_Operation := op\<rparr>"
      and n = n and m = m]
  by (simp add: allowed_def Let_def)

lemma variableAccess_name_irrelevant:
  assumes "\<not> UsesCondition (srv_rules S) ConditionVariable"
  shows "variableAccess W S c n = variableAccess W S c m"
  unfolding variableAccess_def allowed_name_irrelevant [OF assms, of W c n _ m] by (rule refl)

lemma no_rules_no_access: "srv_rules S = [] \<Longrightarrow> \<not> allowed W S c name op"
  using engine.deny_default by (simp add: allowed_def Let_def)

section \<open>Steps of a handler\<close>

named_theorems handler_simps \<open>how the steps of a handler act on the state\<close>

lemma continue_simp [handler_simps]: "continue x s = Some (Continue x, s)"
  by (simp add: continue_def)

lemma reply_simp [handler_simps]: "reply r s = Some (Reply r, s)"
  by (simp add: reply_def)

lemma andThen_Continue:
  "andThen m f s = Some (Continue y, s') \<longleftrightarrow> (\<exists>x t. m s = Some (Continue x, t) \<and> f x t = Some (Continue y, s'))"
  by (auto simp: andThen_def split: option.splits step.splits prod.splits)

lemma andThen_None: "andThen m f s = None \<longleftrightarrow> m s = None \<or> (\<exists>x t. m s = Some (Continue x, t) \<and> f x t = None)"
  by (auto simp: andThen_def split: option.splits step.splits prod.splits)

lemma andThen_Panics:
  "andThen m f s = Some (Panics, s') \<longleftrightarrow> m s = Some (Panics, s') \<or> (\<exists>x t. m s = Some (Continue x, t) \<and> f x t = Some (Panics, s'))"
  by (auto simp: andThen_def split: option.splits step.splits prod.splits)

lemma andThen_Reply:
  "andThen m f s = Some (Reply r, s') \<longleftrightarrow> m s = Some (Reply r, s') \<or> (\<exists>x t. m s = Some (Continue x, t) \<and> f x t = Some (Reply r, s'))"
  by (auto simp: andThen_def split: option.splits step.splits prod.splits)

lemma andThen_continue [handler_simps]: "andThen (continue x) f s = f x s"
  by (simp add: andThen_def continue_def)

lemma andThen_reply [handler_simps]: "andThen (reply r) f s = Some (Reply r, s)"
  by (simp add: andThen_def reply_def)

lemma check_cases:
  obtains (allowed) "allowed W S c name op" and "check W S c name op s = Some (Continue (), s)"
  | (readable) "\<not> allowed W S c name op" and "RequiredPermission op = PermissionReadWrite"
      and "allowed W S c name OperationReadProperty"
      and "check W S c name op s = Some (Reply (writeError [] StatusForbidden (Text ''readwrite permission required for this operation'')), s)"
  | (denied) "\<not> allowed W S c name op" and "check W S c name op s = Some (Reply (writeDenied (call_bearer c)), s)"
proof (cases "allowed W S c name op")
  case True
  then show thesis by (intro allowed) (simp_all add: check_def handler_simps)
next
  case False
  then show thesis
    using readable denied
    by (cases "RequiredPermission op = PermissionReadWrite \<and> allowed W S c name OperationReadProperty")
      (auto simp: check_def handler_simps)
qed

lemma check_Continue: "check W S c name op s = Some (Continue u, s') \<longleftrightarrow> allowed W S c name op \<and> s' = s"
  by (cases rule: check_cases [of W S c name op s]) auto

lemma check_total: "check W S c name op s \<noteq> None" "check W S c name op s \<noteq> Some (Panics, s')"
  by (cases rule: check_cases [of W S c name op s]; simp)+

text \<open>The frame of a step: it sends no write and keeps the cache well formed.\<close>

definition framed :: "World \<Rightarrow> 'a handler \<Rightarrow> bool" where
  "framed W m \<longleftrightarrow> (\<forall>s x s'. m s = Some (x, s') \<longrightarrow>
    st_writes s' = st_writes s \<and> (cacheOk (w_env W) (st_cache s) \<longrightarrow> cacheOk (w_env W) (st_cache s')))"

named_theorems framed_intros \<open>steps that send no write and keep the cache\<close>

lemma framedD:
  "framed W m \<Longrightarrow> m s = Some (x, s') \<Longrightarrow> st_writes s' = st_writes s"
  "framed W m \<Longrightarrow> m s = Some (x, s') \<Longrightarrow> cacheOk (w_env W) (st_cache s) \<Longrightarrow> cacheOk (w_env W) (st_cache s')"
  by (auto simp: framed_def)

lemma framed_return [framed_intros]: "framed W (continue x)" "framed W (reply r)"
  by (simp_all add: framed_def handler_simps)

lemma framed_andThen [framed_intros]: "framed W m \<Longrightarrow> (\<And>x. framed W (f x)) \<Longrightarrow> framed W (andThen m f)"
  unfolding framed_def andThen_def by (fastforce split: option.splits step.splits prod.splits)

lemma framed_cacheGet [framed_intros]: "framed W (cacheGet W h)"
  by (auto simp: framed_def cacheGet_def dest: get_cacheOk split: option.splits)

lemma framed_cases [framed_intros]:
  "framed W m \<Longrightarrow> framed W m' \<Longrightarrow> framed W (if b then m else m')"
  "(\<And>a. framed W (f a)) \<Longrightarrow> (\<And>b. framed W (g b)) \<Longrightarrow> framed W (case x of Inl a \<Rightarrow> f a | Inr b \<Rightarrow> g b)"
  "framed W m \<Longrightarrow> (\<And>y. framed W (h y)) \<Longrightarrow> framed W (case opt of None \<Rightarrow> m | Some y \<Rightarrow> h y)"
  "framed W m \<Longrightarrow> (\<And>y ys. framed W (k y ys)) \<Longrightarrow> framed W (case l of [] \<Rightarrow> m | y # ys \<Rightarrow> k y ys)"
  "(\<And>y z. framed W (q y z)) \<Longrightarrow> framed W (case p of (y, z) \<Rightarrow> q y z)"
  "(\<And>v. framed W (body v)) \<Longrightarrow> framed W (let v = val in body v)"
  by (simp_all split: sum.split option.split list.split prod.split)

lemma framed_check [framed_intros]: "framed W (check W S c name op)"
  unfolding check_def by (intro framed_intros)

lemma framed_authorize [framed_intros]: "framed W (authorize W S r d op)" "framed W (authorizeVariable W S r d obj op)"
  unfolding authorize_def authorizeVariable_def by (intro framed_intros)+

text \<open>
  What a successful authorization of a variable means: the caller is the request's, it is allowed
  the operation under the name returned, and when the rules look at names that is the nonempty
  name of the object's variable in a snapshot that is now in the cache.
\<close>

lemma cacheGet_Inr:
  assumes "cacheGet W h s = Some (Continue (Inr dv), s')"
  shows "cached (st_cache s') h = Some dv"
proof -
  from assms obtain k c where "get (w_env W) (w_now W (st_tick s)) h (st_tick s) (st_cache s) = Some (Ok dv, k, c)"
    and "s' = s\<lparr>st_tick := k, st_cache := c\<rparr>"
    by (auto simp: cacheGet_def outcome_def split: option.splits res.splits prod.splits)
  then show ?thesis by (auto elim!: get_cases)
qed

lemma authorizeVariable_cases:
  assumes "authorizeVariable W S r d obj op s = Some (Continue (c, name), s')"
  obtains (nameless) "\<not> srv_needsObjectName S" and "c = newCaller W S r d" and "name = []" and "s' = s"
      and "allowed W S c name op"
  | (known) dv v where "srv_needsObjectName S" and "c = newCaller W S r d" and "cached (st_cache s') (resolveDevice S d) = Some dv"
      and "dv_byID dv (case obj of None \<Rightarrow> deviceObject dv | Some o' \<Rightarrow> o') = Some v" and "name = var_Name v"
      and "allowed W S c name op" and "cacheGet W (resolveDevice S d) s = Some (Continue (Inr dv), s')"
proof (cases "srv_needsObjectName S")
  case False
  with assms nameless show thesis
    by (auto simp: authorizeVariable_def Let_def andThen_Continue check_Continue handler_simps)
next
  case True
  let ?c = "newCaller W S r d"
  from True assms obtain got t where got: "cacheGet W (resolveDevice S d) s = Some (Continue got, t)"
    and rest: "(case got of Inl err \<Rightarrow> reply (writeEnumerationError ?c err)
       | Inr dv \<Rightarrow>
           (case dv_byID dv (case obj of None \<Rightarrow> deviceObject dv | Some o' \<Rightarrow> o') of
              None \<Rightarrow> reply (writeDenied (call_bearer ?c))
            | Some v \<Rightarrow> andThen (check W S ?c (var_Name v) op) (\<lambda>_. continue (?c, var_Name v)))) t = Some (Continue (c, name), s')"
    by (auto simp: authorizeVariable_def Let_def andThen_Continue)
  from rest obtain dv v where "got = Inr dv"
    and v: "dv_byID dv (case obj of None \<Rightarrow> deviceObject dv | Some o' \<Rightarrow> o') = Some v"
    and "andThen (check W S ?c (var_Name v) op) (\<lambda>_. continue (?c, var_Name v)) t = Some (Continue (c, name), s')"
    by (auto simp: handler_simps split: sum.splits option.splits)
  then have "c = ?c" "name = var_Name v" "s' = t" "allowed W S c name op"
    by (auto simp: andThen_Continue check_Continue handler_simps)
  with True got \<open>got = Inr dv\<close> v known show thesis
    using cacheGet_Inr by metis
qed

end
