(* ===== verification/Api_Server.thy ===== *)
theory Api_Server
  imports Api_Handlers "HOL-Library.Sublist"
begin

text \<open>
  The server over time: requests one after the other, with refreshes of the cache in between. The
  lemmas show what every history keeps: the cache holds only what loading its devices gave, and
  each write that was sent to a device goes back to a request that was allowed to send it.
\<close>

section \<open>Histories\<close>

definition initialState :: "int \<Rightarrow> St" where
  "initialState interval = \<lparr>st_tick = 0, st_cache = newVarCache interval, st_writes = []\<rparr>"

text \<open>The requests answered so far, and the state they led to.\<close>

inductive served :: "World \<Rightarrow> Server \<Rightarrow> (route \<times> HttpRequest) list \<Rightarrow> St \<Rightarrow> bool" for W S where
  start: "served W S [] (initialState interval)"
| request: "served W S rs s \<Longrightarrow> serve W S rt r s = Some (resp, s') \<Longrightarrow> served W S (rs @ [(rt, r)]) s'"
| refresh: "served W S rs s \<Longrightarrow>
    refreshAll (w_env W) (w_now W (st_tick s)) order (st_tick s) (st_cache s) = Some (False, k, c) \<Longrightarrow>
    served W S rs (s\<lparr>st_tick := k, st_cache := c\<rparr>)"
| wait: "served W S rs s \<Longrightarrow> served W S rs (s\<lparr>st_tick := st_tick s + d\<rparr>)"

section \<open>The step of one request\<close>

lemma recoverJSON_Some:
  "recoverJSON h s = Some (resp, s') \<Longrightarrow> \<exists>x. h s = Some (x, s')"
  by (auto simp: recoverJSON_def split: option.splits step.splits prod.splits)

lemma handleWriteProperty_cacheOk:
  assumes "handleWriteProperty W S r s = Some (x, s')" and "cacheOk (w_env W) (st_cache s)"
  shows "cacheOk (w_env W) (st_cache s')"
proof (cases "parseObjectRef r")
  case (Inl msg)
  with assms show ?thesis by (simp add: handleWriteProperty_def badRequest_def handler_simps)
next
  case (Inr obj)
  with assms(1) obtain y s1 where y: "authorizeVariable W S r (hr_deviceId r) (Some obj) OperationWriteProperty s = Some (y, s1)"
    by (auto simp: handleWriteProperty_def andThen_def split: option.splits)
  from framedD(2) [OF framed_authorize(2) y assms(2)] have "cacheOk (w_env W) (st_cache s1)" .
  moreover from assms(1) Inr y have "st_cache s' = st_cache s1"
    by (auto simp: handleWriteProperty_def andThen_def orBACnetError_def sendWrite_def badRequest_def handler_simps
        split: step.splits sum.splits option.splits res.splits)
  ultimately show ?thesis by simp
qed

lemma serve_cacheOk:
  assumes "serve W S rt r s = Some (resp, s')" and "cacheOk (w_env W) (st_cache s)"
  shows "cacheOk (w_env W) (st_cache s')"
proof -
  from recoverJSON_Some [OF assms(1) [unfolded serve_def]]
  obtain x where x: "handlerOf rt W S r s = Some (x, s')" by blast
  show ?thesis
    using framed_readers [THEN framedD(2)] handleWriteProperty_cacheOk x assms(2)
    by (cases rt) (simp only: handlerOf_def route.case; blast)+
qed

text \<open>The write that a request asks for, when its caller may send it under the name given.\<close>

definition asksFor :: "World \<Rightarrow> Server \<Rightarrow> HttpRequest \<Rightarrow> string \<times> ObjectIdentifier \<times> PropertyIdentifier \<times> Value \<times> byte option \<Rightarrow> bool" where
  "asksFor W S r w \<longleftrightarrow>
    (case w of (addr, obj, pid, v, priority) \<Rightarrow>
      addr = resolveDevice S (hr_deviceId r) \<and> parseObjectRef r = Inr obj
      \<and> ParsePropertyIdentifier (hr_property r) = Some pid
      \<and> (\<exists>b. hr_Body r = Some b \<and> valueForWrite (w_far W) (Type obj) pid (wr_Value b) = Ok v \<and> priority = wr_Priority b))"

definition mayWrite :: "World \<Rightarrow> Server \<Rightarrow> HttpRequest \<Rightarrow> string \<Rightarrow> ObjectIdentifier \<Rightarrow> bool" where
  "mayWrite W S r addr obj \<longleftrightarrow>
    (\<exists>name. allowed W S (newCaller W S r (hr_deviceId r)) name OperationWriteProperty
      \<and> (if srv_needsObjectName S then name \<noteq> [] \<and> name \<in> givenNames (w_env W) addr obj else name = []))"

lemma serve_writes:
  assumes "serve W S rt r s = Some (resp, s')" and "cacheOk (w_env W) (st_cache s)"
  obtains (none) "st_writes s' = st_writes s"
  | (sent) w where "rt = WriteProp" and "st_writes s' = st_writes s @ [w]" and "asksFor W S r w"
      and "mayWrite W S r (fst w) (fst (snd w))"
proof -
  from recoverJSON_Some [OF assms(1) [unfolded serve_def]]
  obtain x where x: "handlerOf rt W S r s = Some (x, s')" by blast
  show thesis
  proof (cases "rt = WriteProp")
    case False
    then have "st_writes s' = st_writes s"
      using framed_readers [THEN framedD(1)] x by (cases rt) (simp_all only: handlerOf_def route.case; blast)+
    then show thesis by (rule none)
  next
    case True
    with x have "handleWriteProperty W S r s = Some (x, s')" by (simp add: handlerOf_def)
    then show thesis
    proof (cases rule: handleWriteProperty_writes)
      case (sent obj c name s1 pid b v)
      let ?addr = "resolveDevice S (hr_deviceId r)"
      note ok = framedD(2) [OF framed_authorize(2) sent(2) assms(2)]
      have "mayWrite W S r ?addr obj"
        using sent(2)
      proof (cases rule: authorizeVariable_cases)
        case nameless
        then show ?thesis unfolding mayWrite_def by auto
      next
        case (known dv var)
        then have "dv_byID dv obj = Some var" by simp
        from snapshotOk_byID [OF cacheOk_snapshot(1) [OF ok known(3)] this] cacheOk_snapshot(2) [OF ok known(3)]
        show ?thesis unfolding mayWrite_def using known by auto
      qed
      then show thesis
        using that(2) [OF True sent(6)] sent by (auto simp: asksFor_def)
    qed (rule none)
  qed
qed

text \<open>And the other way round: a request that is allowed and well formed sends its write.\<close>

lemma authorizeVariable_nameless:
  assumes "\<not> srv_needsObjectName S"
  shows "authorizeVariable W S r d obj op s =
    andThen (check W S (newCaller W S r d) [] op) (\<lambda>_. continue (newCaller W S r d, [])) s"
  using assms by (simp add: authorizeVariable_def Let_def)

lemma serve_sends:
  assumes "authorizeVariable W S r (hr_deviceId r) (Some obj) OperationWriteProperty s = Some (Continue cn, s1)"
    and "asksFor W S r (addr, obj, pid, v, priority)"
  shows "\<exists>resp s'. serve W S WriteProp r s = Some (resp, s') \<and> st_writes s' = st_writes s1 @ [(addr, obj, pid, v, priority)]"
  using assms
  by (auto simp: asksFor_def serve_def recoverJSON_def handlerOf_def handleWriteProperty_def andThen_def orBACnetError_def
      sendWrite_def handler_simps split: step.split sum.split)

section \<open>What every history keeps\<close>

lemma served_cacheOk: "served W S rs s \<Longrightarrow> cacheOk (w_env W) (st_cache s)"
  by (induction rule: served.induct)
    (auto simp: initialState_def cacheOk_new dest: serve_cacheOk refreshAll_cacheOk)

text \<open>The writes are those of some of the write requests, each asked for and allowed.\<close>

definition writesFrom ::
  "World \<Rightarrow> Server \<Rightarrow> (route \<times> HttpRequest) list
    \<Rightarrow> (string \<times> ObjectIdentifier \<times> PropertyIdentifier \<times> Value \<times> byte option) list \<Rightarrow> bool" where
  "writesFrom W S rs writes \<longleftrightarrow>
    (\<exists>sent. map fst sent = writes \<and> subseq (map snd sent) (map snd (filter (\<lambda>(rt, r). rt = WriteProp) rs))
      \<and> (\<forall>(w, r) \<in> set sent. asksFor W S r w \<and> mayWrite W S r (fst w) (fst (snd w))))"

lemma writesFrom_request:
  assumes "writesFrom W S rs (st_writes s)" and "serve W S rt r s = Some (resp, s')" and "cacheOk (w_env W) (st_cache s)"
  shows "writesFrom W S (rs @ [(rt, r)]) (st_writes s')"
proof -
  from assms(1) obtain sent where sent: "map fst sent = st_writes s"
    "subseq (map snd sent) (map snd (filter (\<lambda>(rt, r). rt = WriteProp) rs))"
    "\<forall>(w, r) \<in> set sent. asksFor W S r w \<and> mayWrite W S r (fst w) (fst (snd w))"
    unfolding writesFrom_def by blast
  from assms(2,3) show ?thesis
    unfolding writesFrom_def
  proof (cases rule: serve_writes)
    case none
    with sent show "\<exists>sent. map fst sent = st_writes s' \<and> subseq (map snd sent) (map snd (filter (\<lambda>(rt, r). rt = WriteProp) (rs @ [(rt, r)])))
        \<and> (\<forall>(w, r) \<in> set sent. asksFor W S r w \<and> mayWrite W S r (fst w) (fst (snd w)))"
      by (intro exI [of _ sent]) (auto intro: list_emb_prefix)
  next
    case new: (sent w)
    with sent show "\<exists>sent. map fst sent = st_writes s' \<and> subseq (map snd sent) (map snd (filter (\<lambda>(rt, r). rt = WriteProp) (rs @ [(rt, r)])))
        \<and> (\<forall>(w, r) \<in> set sent. asksFor W S r w \<and> mayWrite W S r (fst w) (fst (snd w)))"
      by (intro exI [of _ "sent @ [(w, r)]"]) (auto intro: list_emb_append_mono)
  qed
qed

lemma served_writes: "served W S rs s \<Longrightarrow> writesFrom W S rs (st_writes s)"
proof (induction rule: served.induct)
  case (start interval)
  show ?case unfolding writesFrom_def by (intro exI [of _ "[]"]) (simp add: initialState_def)
next
  case (request rs s rt r resp s')
  then show ?case using served_cacheOk by (intro writesFrom_request) auto
qed auto

end
