(* ===== verification/Api_Device.thy ===== *)
theory Api_Device
  imports Mock_EndToEnd Api_Server
begin

text \<open>
  The proxy against a device: enumeration of the device's objects and their names, with or
  without ReadPropertyMultiple, over the wire format and the client. The lemmas show that the
  variables that the cache holds are the named objects of the device's store, in the order of its
  object list, whichever way they had to be read.
\<close>

section \<open>Names\<close>

text \<open>The name that the device gives an object: empty when it has none that is a text.\<close>

definition nameIn :: "Device \<Rightarrow> ObjectIdentifier \<Rightarrow> string" where
  "nameIn d oid = (case readProperty d (Type oid) (Instance oid) PropObjectName None of Ok vs \<Rightarrow> charString vs | _ \<Rightarrow> [])"

text \<open>A network on which the device answers at \<open>host\<close>, and every name fits one reply.\<close>

definition reaches :: "Env \<Rightarrow> bool \<Rightarrow> Device \<Rightarrow> string \<Rightarrow> bool" where
  "reaches E rpm d host \<longleftrightarrow>
    (\<exists>c j resolve addr. E = deviceEnv rpm d c resolve \<and> pending c j = None \<and> resolveDeviceAddr resolve host = Ok addr)
    \<and> storeOk d"

definition namesFit :: "Device \<Rightarrow> bool" where
  "namesFit d \<longleftrightarrow> (\<forall>key ps p. map_of (objects d) key = Some ps \<and> map_of ps PropObjectName = Some p \<longrightarrow>
    length (valuesBytes (case plist p of Some vs \<Rightarrow> vs | None \<Rightarrow> [effectiveValue p])) \<le> 1400)"

lemma reaches_read:
  assumes "reaches E rpm d host" and "wireObject obj"
  shows "ReadProperty (env_resolve E) (env_request E k) host obj pr idx
    = readOutcome d \<lparr>Property = pr, ArrayIndex = idx, Object = obj\<rparr>"
  using assms deviceRead by (auto simp: reaches_def)

lemma reaches_ctx: "reaches E rpm d host \<Longrightarrow> \<not> env_ctxErr E k"
  by (auto simp: reaches_def)

text \<open>A read of a name gives the name, or a failure when the object has no name property.\<close>

lemma readName:
  assumes "reaches E rpm d host" and "wireObject obj" and "namesFit d"
  shows "case ReadProperty (env_resolve E) (env_request E k) host obj PropObjectName None of
      Ok vs \<Rightarrow> charString vs = nameIn d obj | Err e \<Rightarrow> nameIn d obj = [] | Panic \<Rightarrow> False"
proof -
  let ?r = "\<lparr>Property = PropObjectName, ArrayIndex = None, Object = obj\<rparr>"
  have noList: "\<not> (Type obj = ObjectDevice \<and> thisInstance d (Type obj) (Instance obj) = devInstance d \<and> PropObjectName = PropObjectList)"
    by (simp add: PropObjectName_def PropObjectList_def)
  have "3 + length (ackBytes (ackOf ?r vs)) \<le> maxAPDU"
    if "readProperty d (Type obj) (Instance obj) PropObjectName None = Ok vs" for vs
  proof -
    have "PropObjectName \<noteq> PropObjectID" by (simp add: PropObjectName_def PropObjectID_def)
    with that noList obtain ps p where "map_of (objects d) (objectKey (Type obj) (thisInstance d (Type obj) (Instance obj))) = Some ps"
        "map_of ps PropObjectName = Some p" "vs = (case plist p of Some vs \<Rightarrow> vs | None \<Rightarrow> [effectiveValue p])"
      by (auto simp: readProperty_def Let_def split: option.splits if_splits)
    with assms(3) have "length (valuesBytes vs) \<le> 1400" unfolding namesFit_def by blast
    with targetBytes_length [of "ackOf ?r vs"] show ?thesis
      by (simp add: ackBytes_def ackOf_def maxAPDU_def markerTag_def)
  qed
  then show ?thesis
    unfolding reaches_read [OF assms(1,2)] using readProperty_safe [of d "Type obj" "Instance obj" PropObjectName None]
    by (auto simp: readOutcome_def nameIn_def not_less [symmetric] split: res.split)
qed

section \<open>Metadata of some objects\<close>

definition bare :: "variable list \<Rightarrow> bool" where
  "bare chunk \<longleftrightarrow> (\<forall>v \<in> set chunk. var_Name v = [] \<and> wireObject (var_Object v)) \<and> distinct (map var_Object chunk)"

text \<open>The result of reading the metadata of a chunk: the same objects, with their names.\<close>

definition chunkNamed :: "Device \<Rightarrow> variable list \<Rightarrow> variable list \<Rightarrow> bool" where
  "chunkNamed d chunk vs \<longleftrightarrow> map var_Object vs = map var_Object chunk \<and> map var_Name vs = map (nameIn d \<circ> var_Object) chunk"

lemma chunkNamed_append: "chunkNamed d a vs \<Longrightarrow> chunkNamed d b ws \<Longrightarrow> chunkNamed d (a @ b) (vs @ ws)"
  by (simp add: chunkNamed_def)

lemma bare_parts: "bare (a @ b) \<Longrightarrow> bare a \<and> bare b"
  by (auto simp: bare_def)

lemma readNames_device:
  assumes "reaches E rpm d host" and "namesFit d"
  shows "bare chunk \<Longrightarrow> \<exists>vs l'. readNames E host chunk l = (Ok vs, l') \<and> chunkNamed d chunk vs"
proof (induction chunk arbitrary: l)
  case (Cons v chunk)
  then have v: "var_Name v = []" "wireObject (var_Object v)" and chunk: "bare chunk" by (auto simp: bare_def)
  have IH: "\<exists>vs l'. readNames E host chunk l = (Ok vs, l') \<and> chunkNamed d chunk vs" for l
    using Cons.IH chunk by blast
  from readName [OF assms(1) v(2) assms(2), of "tick l"]
  consider (given) vs where "clientRead E host (var_Object v) PropObjectName None l = (Ok vs, l\<lparr>tick := tick l + 1\<rparr>)" "charString vs = nameIn d (var_Object v)"
    | (none) e where "clientRead E host (var_Object v) PropObjectName None l = (Err e, l\<lparr>tick := tick l + 1\<rparr>)" "nameIn d (var_Object v) = []"
    by (auto simp: clientRead_def split: res.splits)
  then show ?case
  proof cases
    case given
    from IH [of "l\<lparr>tick := tick l + 1\<rparr>"] given show ?thesis by (auto simp: chunkNamed_def)
  next
    case none
    from IH [of "l\<lparr>tick := tick l + 2\<rparr>"] none v(1) reaches_ctx [OF assms(1)] show ?thesis
      by (auto simp: chunkNamed_def ctxErr_def)
  qed
qed (simp add: chunkNamed_def)

text \<open>Several objects at once: each result is put where its object stands.\<close>

lemma lastWith_middle:
  assumes "distinct (map var_Object (xs @ y # ys))"
  shows "lastWith (var_Object y) (xs @ y # ys) = Some (length xs)"
proof -
  let ?zs = "xs @ y # ys"
  have "filter (\<lambda>i. var_Object (?zs ! i) = var_Object y) (rev [0..<length ?zs]) = [length xs]"
  proof -
    have "filter (\<lambda>i. var_Object (?zs ! i) = var_Object y) [0..<length ?zs] = [length xs]"
    proof (rule sorted_distinct_set_unique)
      have "var_Object (?zs ! i) = var_Object y \<longleftrightarrow> i = length xs" if "i < length ?zs" for i
      proof -
        have "map var_Object ?zs ! i = var_Object (?zs ! i)" using that by (rule nth_map)
        moreover have "map var_Object ?zs ! length xs = var_Object y" by (simp add: nth_append)
        moreover have "map var_Object ?zs ! i = map var_Object ?zs ! length xs \<longleftrightarrow> i = length xs"
          using that by (intro nth_eq_iff_index_eq [OF assms]) simp_all
        ultimately show ?thesis by simp
      qed
      then show "set (filter (\<lambda>i. var_Object (?zs ! i) = var_Object y) [0..<length ?zs]) = set [length xs]" by (auto simp del: upt_Suc)
    qed (simp_all add: sorted_filter [of id, simplified] del: upt_Suc)
    then show ?thesis by (simp add: rev_filter [symmetric] del: upt_Suc)
  qed
  then show ?thesis by (simp add: lastWith_def)
qed

lemma applyProperties_object [simp]: "var_Object (foldl applyProperty v prs) = var_Object v"
  by (induction prs arbitrary: v) simp_all

lemma applyResult_all:
  assumes "distinct (map var_Object (xs @ ys))"
  shows "foldl applyResult (xs @ ys) (map (\<lambda>v. specResult d (metadataSpec v)) ys)
    = xs @ map (\<lambda>v. foldl applyProperty v (Results (specResult d (metadataSpec v)))) ys"
  using assms
proof (induction ys arbitrary: xs)
  case (Cons y ys)
  let ?y = "foldl applyProperty y (Results (specResult d (metadataSpec y)))"
  have "applyResult (xs @ y # ys) (specResult d (metadataSpec y)) = (xs @ [?y]) @ ys"
    using lastWith_middle [OF Cons.prems] by (simp add: applyResult_def specResult_def metadataSpec_def nth_append list_update_append)
  with Cons.IH [of "xs @ [?y]"] Cons.prems show ?case by simp
qed simp

lemma applyProperty_other: "Property pr \<noteq> PropObjectName \<Longrightarrow> var_Name (applyProperty v pr) = var_Name v"
  by (simp add: applyProperty_def)

lemma refResult_Property: "Property (refResult d oid ref) = Property ref"
  by (simp add: refResult_def split: res.split)

lemma applied_first:
  assumes "var_Name v = []"
  shows "var_Name (applyProperty v (refResult d (var_Object v) \<lparr>Property = PropObjectName, ArrayIndex = None\<rparr>)) = nameIn d (var_Object v)"
proof (cases "readProperty d (Type (var_Object v)) (Instance (var_Object v)) PropObjectName None")
  case Panic
  with readProperty_safe [of d "Type (var_Object v)" "Instance (var_Object v)" PropObjectName None] show ?thesis by simp
qed (use assms in \<open>simp_all add: refResult_def applyProperty_def nameIn_def\<close>)

lemma applied_name:
  assumes "var_Name v = []"
  shows "var_Name (foldl applyProperty v (Results (specResult d (metadataSpec v)))) = nameIn d (var_Object v)"
proof -
  have "PropDescription \<noteq> PropObjectName" "PropUnits \<noteq> PropObjectName"
    by (simp_all add: PropObjectName_def PropDescription_def PropUnits_def)
  then show ?thesis
    using applied_first [OF assms] by (simp add: specResult_def metadataSpec_def applyProperty_other refResult_Property)
qed

lemma metadataRPM_device:
  assumes "reaches E True d host" and "bare chunk" and "length chunk \<le> 16"
  shows "(\<exists>vs. readMetadataRPM E host chunk l = (Ok vs, l\<lparr>tick := tick l + 1\<rparr>) \<and> chunkNamed d chunk vs)
    \<or> readMetadataRPM E host chunk l = (Err (AbortErr AbortReasonSegmentationNotSupported), l\<lparr>tick := tick l + 1\<rparr>)"
proof -
  from assms(1) obtain c j resolve addr where E: "E = deviceEnv True d c resolve" and free: "pending c j = None"
    and addr: "resolveDeviceAddr resolve host = Ok addr" and store: "storeOk d" by (auto simp: reaches_def)
  let ?specs = "map metadataSpec chunk"
  have objs: "list_all (\<lambda>s. wireObject (SpecObject s)) ?specs"
    using assms(2) by (auto simp: bare_def metadataSpec_def list_all_iff)
  have "length (specBytes (metadataSpec v)) \<le> 46" for v
    using tagged_short [of 0 True "putUint32 (objectIDWord (var_Object v))"] uintBytes_length [of 0 PropObjectName]
      uintBytes_length [of 0 PropDescription] uintBytes_length [of 0 PropUnits]
    by (simp add: specBytes_def metadataSpec_def oidBytes_def refBytes_def indexBytes_def markerTag_def)
  then have "length (requestBytes ?specs) \<le> 46 * length chunk"
    unfolding requestBytes_def by (induction chunk) (simp_all add: add_mono)
  with assms(3) have "length (requestBytes ?specs) < 65500" by simp
  from readPropertyMultiple_end_to_end [OF free objs storeOk_wireStore [OF store] addr this]
  have "clientReadMultiple E host ?specs l =
      (if 3 + length (multiReply d ?specs) > maxAPDU then Err (AbortErr AbortReasonSegmentationNotSupported)
       else Ok (map (specResult d) ?specs), l\<lparr>tick := tick l + 1\<rparr>)"
    by (simp add: E clientReadMultiple_def ReadPropertyMultiple_device)
  moreover have "chunkNamed d chunk (foldl applyResult chunk (map (specResult d) ?specs))"
    using applyResult_all [of "[]" chunk d] assms(2) applied_name by (auto simp: chunkNamed_def bare_def o_def)
  ultimately show ?thesis by (auto simp: readMetadataRPM_def)
qed

lemma metadataRPM_refused:
  assumes "reaches E False d host"
  shows "readMetadataRPM E host chunk l = (Err (RejectErr RejectReasonUnrecognizedService), l\<lparr>tick := tick l + 1\<rparr>)"
  using assms ReadPropertyMultiple_refused by (auto simp: reaches_def readMetadataRPM_def clientReadMultiple_def)

lemma readMetadata_device:
  assumes "reaches E rpm d host" and "namesFit d"
  shows "bare chunk \<Longrightarrow> length chunk \<le> 16 \<Longrightarrow> \<exists>vs l'. readMetadata E host chunk l = (Ok vs, l') \<and> chunkNamed d chunk vs"
proof (induction "length chunk" arbitrary: chunk l rule: less_induct)
  case less
  note names = readNames_device [OF assms less.prems(1)]
  note ctx = reaches_ctx [OF assms(1)]
  have noReject: "asRejectError (AbortErr a) = None" for a by (simp add: asRejectError_def)
  show ?case
  proof (cases "noRPM l")
    case True
    with names show ?thesis by (simp add: readMetadata.simps)
  next
    case rpm: False
    show ?thesis
    proof (cases rpm)
      case False
      with metadataRPM_refused assms(1) rpm names ctx show ?thesis
        by (subst readMetadata.simps) (simp add: ctxErr_def noteRPMFailure_def)
    next
      case True
      with assms(1) have "reaches E True d host" by simp
      from metadataRPM_device [OF this less.prems, of l]
      consider (whole) vs where "readMetadataRPM E host chunk l = (Ok vs, l\<lparr>tick := tick l + 1\<rparr>)" "chunkNamed d chunk vs"
        | (long) "readMetadataRPM E host chunk l = (Err (AbortErr AbortReasonSegmentationNotSupported), l\<lparr>tick := tick l + 1\<rparr>)"
        by blast
      then show ?thesis
      proof cases
        case whole
        with rpm show ?thesis by (subst readMetadata.simps) simp
      next
        case long
        let ?mid = "length chunk div 2"
        have parts: "bare (take ?mid chunk)" "bare (drop ?mid chunk)" using bare_parts [of "take ?mid chunk" "drop ?mid chunk"] less.prems(1) by simp_all
        have IH: "\<exists>vs l'. readMetadata E host (take ?mid chunk) l = (Ok vs, l') \<and> chunkNamed d (take ?mid chunk) vs"
          "\<exists>vs l'. readMetadata E host (drop ?mid chunk) l = (Ok vs, l') \<and> chunkNamed d (drop ?mid chunk) vs"
          if "length chunk > 1" for l
          using that less.prems(2) by (intro less.hyps parts; simp)+
        show ?thesis
        proof (cases "length chunk > 1")
          case True
          from IH(1) [OF True] obtain vs l1 where left: "readMetadata E host (take ?mid chunk) (l\<lparr>tick := Suc (Suc (Suc (tick l)))\<rparr>) = (Ok vs, l1)"
              "chunkNamed d (take ?mid chunk) vs" by blast
          from IH(2) [OF True] obtain ws l2 where right: "readMetadata E host (drop ?mid chunk) l1 = (Ok ws, l2)"
              "chunkNamed d (drop ?mid chunk) ws" by blast
          from chunkNamed_append [OF left(2) right(2)] left(1) right(1) long rpm True ctx noReject show ?thesis
            by (subst readMetadata.simps) (simp add: ctxErr_def noteRPMFailure_def retryPiecewise_def Let_def)
        next
          case False
          with names long rpm ctx noReject show ?thesis
            by (subst readMetadata.simps) (simp add: ctxErr_def noteRPMFailure_def retryPiecewise_def)
        qed
      qed
    qed
  qed
qed

lemma readAllMetadata_device:
  assumes "reaches E rpm d host" and "namesFit d"
  shows "bare vars \<Longrightarrow> \<exists>vs l'. readAllMetadata E host vars l = (Ok vs, l') \<and> chunkNamed d vars vs"
proof (induction "length vars" arbitrary: vars l rule: less_induct)
  case less
  show ?case
  proof (cases "vars = []")
    case True
    then show ?thesis by (simp add: readAllMetadata.simps chunkNamed_def)
  next
    case False
    have parts: "bare (take rpmChunk vars)" "bare (drop rpmChunk vars)"
      using bare_parts [of "take rpmChunk vars" "drop rpmChunk vars"] less.prems by simp_all
    have "length (take rpmChunk vars) \<le> 16" by (simp add: rpmChunk_def)
    from readMetadata_device [OF assms parts(1) this, of l] obtain vs l1
      where head: "readMetadata E host (take rpmChunk vars) l = (Ok vs, l1)" "chunkNamed d (take rpmChunk vars) vs"
      by blast
    have "length (drop rpmChunk vars) < length vars" using False by (simp add: rpmChunk_def)
    from less.hyps [OF this parts(2)] obtain ws l2
      where tail: "readAllMetadata E host (drop rpmChunk vars) l1 = (Ok ws, l2)" "chunkNamed d (drop rpmChunk vars) ws" by blast
    from chunkNamed_append [OF head(2) tail(2)] head(1) tail(1) False show ?thesis
      by (subst readAllMetadata.simps) simp
  qed
qed

section \<open>Enumerating a device\<close>

text \<open>The identifiers of the object list, and the variables that the cache should hold.\<close>

definition objectIDs :: "Device \<Rightarrow> ObjectIdentifier list" where
  "objectIDs d = map keyObject (sort (map fst (objects d)))"

lemma objectList_IDs: "objectList d = map ObjectIDValue (objectIDs d)"
  by (simp add: objectList_def objectIDs_def)

lemma objectIDs_ok:
  assumes "deviceOk d" and "storeOk d"
  shows "distinct (objectIDs d)" and "oid \<in> set (objectIDs d) \<Longrightarrow> wireObject oid"
proof -
  have "inj keyObject" by (auto simp: inj_def keyObject_def intro: objectKey.expand)
  with assms(1) show "distinct (objectIDs d)"
    by (simp add: objectIDs_def distinct_map [of keyObject] deviceOk_def inj_on_subset [OF _ subset_UNIV])
  from assms(2) show "oid \<in> set (objectIDs d) \<Longrightarrow> wireObject oid"
    by (auto simp: objectIDs_def storeOk_def list_all_iff)
qed

lemma WhoIs_device:
  assumes "resolveDeviceAddr resolve host = Ok addr"
  shows "DeviceInstance (WhoIs resolve (env_whoIs (deviceEnv rpm d c resolve) k) n host) b read = Ok (devInstance d)"
  using assms by (simp add: WhoIs_def deviceEnv_def whoIsLoop.simps DeviceInstance_def deviceID_def)

lemma load_device:
  assumes "reaches E rpm d host" and "namesFit d" and "deviceOk d" and "devInstance d < 4194304" and "length (objects d) + 50 < 2 ^ 32"
  shows "\<exists>vs l. load E host k = Some (Ok (indexVariables (devInstance d) vs), l)
    \<and> map (\<lambda>v. (var_Object v, var_Name v)) vs = filter (\<lambda>(oid, name). name \<noteq> []) (map (\<lambda>oid. (oid, nameIn d oid)) (objectIDs d))"
proof -
  from assms(1) obtain c j resolve addr where E: "E = deviceEnv rpm d c resolve" and free: "pending c j = None"
    and addr: "resolveDeviceAddr resolve host = Ok addr" and store: "storeOk d" by (auto simp: reaches_def)
  have "length (objectList d) + 50 < 2 ^ 32" using assms(5) by (simp add: objectList_def)
  from readObjectList_device [OF free store addr assms(4) this] obtain l1
    where list: "readObjectList E host (devInstance d) (newLoader k\<lparr>tick := k + 3\<rparr>) = Some (Ok (objectList d), l1)"
    unfolding E by blast
  let ?vars = "map bareVariable (objectIDs d)"
  have "map (\<lambda>v. bareVariable (ObjectField v)) (filter isObjectID (objectList d)) = ?vars"
    by (simp add: objectList_IDs o_def filter_map isObjectID_def ObjectField_def)
  moreover have "bare ?vars"
    using objectIDs_ok [OF assms(3) store] by (auto simp: bare_def bareVariable_def o_def)
  moreover from readAllMetadata_device [OF assms(1,2) this] obtain vs l2
    where vs: "readAllMetadata E host ?vars l1 = (Ok vs, l2)" "chunkNamed d ?vars vs" by blast
  moreover have "clientDeviceInstance E host (newLoader k) = (Ok (devInstance d), newLoader k\<lparr>tick := k + 3\<rparr>)"
    using WhoIs_device [OF addr] by (simp add: E clientDeviceInstance_def newLoader_def)
  ultimately have "load E host k = Some (Ok (indexVariables (devInstance d) (filter (\<lambda>v. var_Name v \<noteq> []) vs)), l2)"
    using list by (simp add: load_def)
  moreover have "map (\<lambda>v. (var_Object v, var_Name v)) (filter (\<lambda>v. var_Name v \<noteq> []) vs)
      = filter (\<lambda>(oid, name). name \<noteq> []) (map (\<lambda>oid. (oid, nameIn d oid)) (objectIDs d))"
  proof -
    have "map (\<lambda>v. (var_Object v, var_Name v)) vs = zip (map var_Object vs) (map var_Name vs)"
      by (simp add: zip_map_map zip_same_conv_map)
    also have "\<dots> = map (\<lambda>oid. (oid, nameIn d oid)) (objectIDs d)"
      using vs(2) zip_map2 [of "objectIDs d" "nameIn d" "objectIDs d"] by (simp add: chunkNamed_def bareVariable_def o_def zip_same_conv_map)
    finally have "map (\<lambda>v. (var_Object v, var_Name v)) vs = map (\<lambda>oid. (oid, nameIn d oid)) (objectIDs d)" .
    moreover have "filter (\<lambda>(oid, name). name \<noteq> []) (map (\<lambda>v. (var_Object v, var_Name v)) vs)
        = map (\<lambda>v. (var_Object v, var_Name v)) (filter (\<lambda>v. var_Name v \<noteq> []) vs)"
      by (simp add: filter_map o_def)
    ultimately show ?thesis by simp
  qed
  ultimately show ?thesis by blast
qed

end
