(* ===== verification/Authz_Theorems.thy ===== *)
theory Authz_Theorems
  imports Authz
begin

text \<open>
  The properties of the authorization engine: which rule decides, what each kind of condition
  means, and that a condition about something the request does not have never matches.
\<close>

section \<open>Which rule decides\<close>

lemma considered_applying:
  "filter (ruleApplies F req) (considered F req rules) = rs @ [r] \<Longrightarrow>
    \<exists>i<length rules. rules ! i = r \<and> ruleApplies F req r
      \<and> (\<forall>j<i. \<not> decisive F req (rules ! j))
      \<and> (isNow (rule_Action r) \<or> (\<forall>j<length rules. i < j \<longrightarrow> \<not> ruleApplies F req (rules ! j)))"
proof (induction rules arbitrary: rs)
  case Nil
  then show ?case by simp
next
  case (Cons x xs)
  show ?case
  proof (cases "decisive F req x")
    case True
    with Cons.prems show ?thesis
      by (intro exI [of _ 0]) (auto simp: decisive_def)
  next
    case other: False
    show ?thesis
    proof (cases "filter (ruleApplies F req) (considered F req xs)" rule: rev_cases)
      case Nil
      with Cons.prems other have "x = r" and "ruleApplies F req r"
        by (auto split: if_splits)
      moreover have "\<not> ruleApplies F req y" if "y \<in> set xs" for y
        using Nil that
      proof (induction xs)
        case (Cons z zs)
        then show ?case by (auto simp: decisive_def split: if_splits)
      qed simp
      ultimately show ?thesis
        by (intro exI [of _ 0]) (auto simp: nth_Cons')
    next
      case (snoc qs q)
      with Cons.prems other have "q = r" by (auto split: if_splits)
      with Cons.IH snoc obtain i where "i < length xs" "xs ! i = r" "ruleApplies F req r"
        "\<forall>j<i. \<not> decisive F req (xs ! j)"
        "isNow (rule_Action r) \<or> (\<forall>j<length xs. i < j \<longrightarrow> \<not> ruleApplies F req (xs ! j))"
        by blast
      with other show ?thesis
        by (intro exI [of _ "Suc i"]) (auto simp: nth_Cons split: nat.splits)
    qed
  qed
qed

lemma considered_none:
  "filter (ruleApplies F req) (considered F req rules) = [] \<Longrightarrow> r \<in> set rules \<Longrightarrow> \<not> ruleApplies F req r"
  by (induction rules) (auto simp: decisive_def split: if_splits)

text \<open>
  Two candidates for the deciding position are the same one: neither can come after the other.
\<close>

definition decidesAt :: "Formats \<Rightarrow> Request \<Rightarrow> Rule list \<Rightarrow> nat \<Rightarrow> bool" where
  "decidesAt F req rules i \<longleftrightarrow> i < length rules \<and> ruleApplies F req (rules ! i)
    \<and> (\<forall>j<i. \<not> decisive F req (rules ! j))
    \<and> (isNow (rule_Action (rules ! i)) \<or> (\<forall>j<length rules. i < j \<longrightarrow> \<not> ruleApplies F req (rules ! j)))"

lemma decidesAt_unique: "decidesAt F req rules i \<Longrightarrow> decidesAt F req rules k \<Longrightarrow> i = k"
  by (rule linorder_cases [of i k]) (auto simp: decidesAt_def decisive_def)

lemma Evaluate_cases:
  obtains (rule) i where "decidesAt F req rules i" and "Evaluate F req rules = ruleResult (rules ! i)"
  | (default) "\<forall>r \<in> set rules. \<not> ruleApplies F req r" and "Evaluate F req rules = implicitDefault"
proof (cases "filter (ruleApplies F req) (considered F req rules)" rule: rev_cases)
  case Nil
  then show thesis
    using considered_none [OF Nil] by (intro default) (auto simp: Evaluate_eq lastApplying_def resultOr_def)
next
  case (snoc rs r)
  then have "Evaluate F req rules = ruleResult r"
    by (cases rs) (simp_all add: Evaluate_eq lastApplying_def resultOr_def)
  with considered_applying [OF snoc] rule show thesis
    by (auto simp: decidesAt_def)
qed

text \<open>
  C11. The decision is that of one rule: the first rule that applies with a "now" action, or, when
  there is none, the last rule that applies; with no applying rule it is the implicit denial.
  Explaining gives the same result and the comparisons of exactly the rules up to the first
  decisive one.
\<close>

theorem rules_decide:
  "(Evaluate F req rules = result \<longleftrightarrow>
     (\<exists>i<length rules. ruleApplies F req (rules ! i) \<and> result = ruleResult (rules ! i)
        \<and> (\<forall>j<i. \<not> (ruleApplies F req (rules ! j) \<and> isNow (rule_Action (rules ! j))))
        \<and> (isNow (rule_Action (rules ! i)) \<or> (\<forall>j\<in>{i<..<length rules}. \<not> ruleApplies F req (rules ! j))))
     \<or> (\<forall>r \<in> set rules. \<not> ruleApplies F req r) \<and> result = implicitDefault)
   \<and> Explain F req rules = (Evaluate F req rules, map (ruleTrace F req) (considered F req rules))"
  (is "(_ \<longleftrightarrow> ?R \<or> ?D) \<and> _")
proof -
  have R: "?R \<longleftrightarrow> (\<exists>i. decidesAt F req rules i \<and> result = ruleResult (rules ! i))"
    by (auto simp: decidesAt_def decisive_def)
  have "Evaluate F req rules = result \<longleftrightarrow> ?R \<or> ?D"
  proof (cases rule: Evaluate_cases [of F req rules])
    case (rule i)
    with decidesAt_unique have "?R \<longleftrightarrow> Evaluate F req rules = result"
      unfolding R by metis
    moreover from rule(1) have "\<not> ?D"
      unfolding decidesAt_def by (metis nth_mem)
    ultimately show ?thesis by blast
  next
    case default
    then have "\<not> ?R" by auto
    with default show ?thesis by auto
  qed
  then show ?thesis by (simp add: Explain_eq)
qed

text \<open>An issuer guard that denies at once, an allow for readers and one for operators.\<close>

definition demoCondition :: "ConditionType \<Rightarrow> string \<Rightarrow> Condition" where
  "demoCondition t v = \<lparr>cond_Type = t, cond_Field = [], cond_Value = v\<rparr>"

definition demoRules :: "Rule list" where
  "demoRules =
    [\<lparr>rule_Name = ''reads'', rule_Conditions = [demoCondition ConditionOperation ''read-*''],
        rule_Match = MatchAll, rule_Permission = PermissionReadOnly, rule_Action = ActionAllow\<rparr>,
     \<lparr>rule_Name = ''guard'', rule_Conditions = [demoCondition ConditionVariable ''secret*''],
        rule_Match = MatchAny, rule_Permission = [], rule_Action = ActionDenyNow\<rparr>,
     \<lparr>rule_Name = ''operators'', rule_Conditions = [demoCondition ConditionToken ''ops''],
        rule_Match = MatchAll, rule_Permission = PermissionReadWrite, rule_Action = ActionAllow\<rparr>]"

definition demoRequest :: "string \<Rightarrow> string \<Rightarrow> Request" where
  "demoRequest token variable = \<lparr>req_Device = ''dev'', req_ClientIP = [10, 0, 0, 1],
     req_Operation = OperationReadProperty, req_TokenName = token, req_JWTClaims = None,
     req_ObjectName = variable\<rparr>"

definition demoFormats :: Formats where
  "demoFormats = \<lparr>fmtV = (\<lambda>_. []), fmtJSON = (\<lambda>_. None), fmtQ = (\<lambda>s. s)\<rparr>"

lemmas demo_defs = demoRules_def demoRequest_def demoCondition_def Condition_defs Match_defs
  Action_defs Operation_defs PermissionReadOnly_def PermissionReadWrite_def

lemma demo_guarded:
  "ruleApplies demoFormats (demoRequest ''ops'' ''secret-1'') (demoRules ! 1)"
  "isNow (rule_Action (demoRules ! 1))"
  "\<not> (ruleApplies demoFormats (demoRequest ''ops'' ''secret-1'') (demoRules ! 0)
     \<and> isNow (rule_Action (demoRules ! 0)))"
  by code_simp+

lemma rules_decide_witness:
  "Evaluate demoFormats (demoRequest ''ops'' ''secret-1'') demoRules =
    \<lparr>result_Allowed = False, result_Permission = [], result_RuleName = ''guard''\<rparr>"
proof -
  have "1 < length demoRules"
    and "\<lparr>result_Allowed = False, result_Permission = [], result_RuleName = ''guard''\<rparr> = ruleResult (demoRules ! 1)"
    by code_simp+
  with demo_guarded show ?thesis
    by (subst rules_decide [THEN conjunct1]) (auto intro!: exI [of _ 1] simp: less_Suc_eq)
qed

section \<open>What a condition means\<close>

lemma stringItem: "(case x of StringAny s \<Rightarrow> P s | _ \<Rightarrow> False) \<longleftrightarrow> (\<exists>s. x = StringAny s \<and> P s)"
  by (cases x) auto

lemma matchClaimValue_slice:
  "matchClaimValue F (SliceAny items) p \<longleftrightarrow> (\<exists>s. StringAny s \<in> set items \<and> matchWildcard p s)"
  by (auto simp: matchClaimValue_def list_ex_iff stringItem)

lemma glob_slashes: "globMatches p v \<Longrightarrow> count_list v (CHR ''/'') = count_list p (CHR ''/'')"
proof (induction p arbitrary: v)
  case (Cons c p)
  show ?case
  proof (cases "c = CHR ''*''")
    case True
    with Cons.prems obtain a b where "v = a @ b" "CHR ''/'' \<notin> set a" "globMatches p b"
      using glob_star [of p v] by auto
    with Cons.IH True show ?thesis by (simp add: count_notin)
  next
    case False
    with Cons show ?thesis by (cases v) auto
  qed
qed simp

text \<open>
  C37. What a rule's conditions mean. The conditions apply by the match mode: all of them must match,
  or any, or none, or not all; another mode never applies. What a condition asks: its pattern must match
  the device, the operation, the token's name, the variable's name, the client's address (for a pattern
  with a slash: the network must contain it) or the claim, where a list needs one text that matches;
  a condition about data that the request does not carry (no client address, no verified token, no
  such claim, no variable name) never matches, not even the pattern "*", nor does one of an unknown
  type. And what a pattern of plain characters and stars matches: everything if it is the lone star,
  else what its stars can be filled in for without a slash.
\<close>

theorem conditions_mean:
  "(fst (evaluateConditions F rule req trace) \<longleftrightarrow>
    (let ok = (\<lambda>c. matchCondition F c req); cs = set (rule_Conditions rule) in
      rule_Match rule = MatchAll \<and> (\<forall>c \<in> cs. ok c) \<or> rule_Match rule = MatchAny \<and> (\<exists>c \<in> cs. ok c)
      \<or> rule_Match rule = MatchNone \<and> (\<forall>c \<in> cs. \<not> ok c) \<or> rule_Match rule = MatchNotAll \<and> (\<exists>c \<in> cs. \<not> ok c)))
   \<and> (matchCondition F c req \<longleftrightarrow>
    (let p = cond_Value c; t = cond_Type c; ok = matchWildcard p in
      t = ConditionDevice \<and> ok (req_Device req)
      \<or> t = ConditionOperation \<and> ok (req_Operation req)
      \<or> t = ConditionToken \<and> req_TokenName req \<noteq> [] \<and> ok (req_TokenName req)
      \<or> t = ConditionVariable \<and> req_ObjectName req \<noteq> [] \<and> ok (req_ObjectName req)
      \<or> t = ConditionIP \<and> req_ClientIP req \<noteq> []
          \<and> (if CHR ''/'' \<in> set p then \<exists>n. ParseCIDR p = Some n \<and> Contains n (req_ClientIP req)
             else ok (IP_String (req_ClientIP req)))
      \<or> t = ConditionJWT \<and> (\<exists>claims claim. req_JWTClaims req = Some claims \<and> claims (cond_Field c) = Some claim
          \<and> (case claim of StringAny s \<Rightarrow> ok s
             | SliceAny items \<Rightarrow> (\<exists>s. StringAny s \<in> set items \<and> ok s)
             | v \<Rightarrow> ok (fmtV F v)))))
   \<and> (list_all plainChar p \<longrightarrow> (matchWildcard p v \<longleftrightarrow> p = ''*'' \<or> globMatches p v))"
  (is "?mode \<and> ?condition \<and> ?pattern")
proof (intro conjI)
  show ?mode
    by (auto simp: evaluateConditions_eq ruleApplies_mode Let_def list_all_iff list_ex_iff Match_defs)
  have claim: "matchClaimValue F claim (cond_Value c) \<longleftrightarrow>
      (let ok = matchWildcard (cond_Value c) in
        case claim of StringAny s \<Rightarrow> ok s
             | SliceAny items \<Rightarrow> (\<exists>s. StringAny s \<in> set items \<and> ok s)
             | v \<Rightarrow> ok (fmtV F v))" for claim
    by (cases claim) (simp_all only: matchClaimValue_slice, simp_all add: matchClaimValue_def Let_def)
  consider "cond_Type c = ConditionDevice" | "cond_Type c = ConditionOperation" | "cond_Type c = ConditionToken"
    | "cond_Type c = ConditionVariable" | "cond_Type c = ConditionIP" | "cond_Type c = ConditionJWT"
    | "cond_Type c \<notin> {ConditionDevice, ConditionOperation, ConditionToken, ConditionVariable, ConditionIP, ConditionJWT}"
    by blast
  then show ?condition
    by cases (simp_all add: matchCondition_def claim Let_def Condition_defs split: option.splits)
  show ?pattern by (simp add: matchWildcard_plain)
qed

text \<open>
  A rule for the token "op*" and any variable applies to a request for the token ops if one match is
  enough, but not if all must: the request names no variable, and the rule asks for one.
\<close>

definition demoModeRule :: "MatchMode \<Rightarrow> Rule" where
  "demoModeRule m = (demoRules ! 0)\<lparr>rule_Match := m,
    rule_Conditions := [demoCondition ConditionToken ''op*'', demoCondition ConditionVariable ''*'']\<rparr>"

lemma conditions_mean_witness:
  "fst (evaluateConditions demoFormats (demoModeRule MatchAny) (demoRequest ''ops'' []) None)
   \<and> \<not> fst (evaluateConditions demoFormats (demoModeRule MatchAll) (demoRequest ''ops'' []) None)
   \<and> \<not> fst (evaluateConditions demoFormats (demoModeRule MatchNone) (demoRequest ''ops'' []) None)
   \<and> fst (evaluateConditions demoFormats (demoModeRule MatchNotAll) (demoRequest ''ops'' []) None)
   \<and> matchCondition demoFormats (demoCondition ConditionToken ''op*'') (demoRequest ''ops'' [])
   \<and> \<not> matchCondition demoFormats (demoCondition ConditionVariable ''*'') (demoRequest ''ops'' [])
   \<and> matchWildcard ''op*'' ''ops''"
proof -
  have plain: "list_all plainChar ''op*''" and glob: "globMatches ''op*'' ''ops''"
    by code_simp+
  note parts = conditions_mean [THEN conjunct1] conditions_mean [THEN conjunct2, THEN conjunct1]
    conditions_mean [THEN conjunct2, THEN conjunct2, rule_format]
  from parts(3) [OF plain, of "''ops''"] have ops: "matchWildcard ''op*'' ''ops''" using glob by simp
  have matches: "matchCondition demoFormats (demoCondition ConditionToken ''op*'') (demoRequest ''ops'' [])"
    "\<not> matchCondition demoFormats (demoCondition ConditionVariable ''*'') (demoRequest ''ops'' [])"
    unfolding parts(2) using ops by (simp_all add: demo_defs)
  then show ?thesis
    unfolding parts(1) using ops by (simp add: demoModeRule_def Match_defs)
qed

text \<open>
  C38. No star of a pattern matches a slash: for a pattern of plain characters and stars other than
  the lone star, every value it matches has exactly as many slashes as the pattern has. The lone star
  matches everything. And a text followed by a star matches exactly the values that start with the
  text and have no slash after it, so a denial of "secret*" does not reach a variable named "secret/x".
\<close>

theorem star_stops_at_slash:
  assumes "list_all plainChar p"
  shows "(p \<noteq> ''*'' \<and> matchWildcard p v \<longrightarrow> count_list v (CHR ''/'') = count_list p (CHR ''/''))
    \<and> matchWildcard ''*'' v
    \<and> (starless p \<and> p \<noteq> [] \<longrightarrow> (matchWildcard (p @ ''*'') v \<longleftrightarrow> (\<exists>w. v = p @ w \<and> CHR ''/'' \<notin> set w)))"
proof (intro conjI impI)
  assume "p \<noteq> ''*'' \<and> matchWildcard p v"
  then have "globMatches p v" unfolding matchWildcard_plain [OF assms] by blast
  then show "count_list v (CHR ''/'') = count_list p (CHR ''/'')" by (rule glob_slashes)
next
  show "matchWildcard ''*'' v" by (simp add: matchWildcard_def)
next
  assume p: "starless p \<and> p \<noteq> []"
  from assms have plain: "list_all plainChar (p @ ''*'')"
    by (simp add: plainChar_def backslash_def)
  have "matchWildcard (p @ ''*'') v \<longleftrightarrow> globMatches (p @ ''*'') v"
    using p unfolding matchWildcard_plain [OF plain] by (cases p) auto
  also have "\<dots> \<longleftrightarrow> take (length p) v = p \<and> CHR ''/'' \<notin> set (drop (length p) v)"
    using p by (simp add: glob_literal glob_star)
  also have "\<dots> \<longleftrightarrow> (\<exists>w. v = p @ w \<and> CHR ''/'' \<notin> set w)"
    by (metis append_eq_conv_conj append_take_drop_id)
  finally show "matchWildcard (p @ ''*'') v \<longleftrightarrow> (\<exists>w. v = p @ w \<and> CHR ''/'' \<notin> set w)" .
qed

lemma star_stops_at_slash_witness:
  "matchWildcard ''secret*'' ''secret-1'' \<and> \<not> matchWildcard ''secret*'' ''secret/1''
   \<and> matchWildcard ''a/*'' ''a/b'' \<and> \<not> matchWildcard ''*a*'' ''x/a''"
  using star_stops_at_slash [of "''secret''" "''secret-1''"] star_stops_at_slash [of "''secret''" "''secret/1''"]
    star_stops_at_slash [of "''a/''" "''a/b''"] star_stops_at_slash [of "''*a*''" "''x/a''"]
  by (simp add: plainChar_def backslash_def)

section \<open>Networks\<close>

lemma v4Loop_shape:
  assumes "v4Loop atStart val digLen fs s = Some a" and "length fs \<le> 3"
  shows "length a = 4 \<and> list_all (\<lambda>c. isDigit c \<or> c = CHR ''.'') s \<and> (length fs < 3 \<longrightarrow> CHR ''.'' \<in> set s)"
  using assms by (induction atStart val digLen fs s rule: v4Loop.induct) (auto split: if_splits)

lemma parseIPv4Fields_shape:
  assumes "parseIPv4Fields addr = Some a"
  shows "length a = 4" and "c \<in> set addr \<Longrightarrow> isDigit c \<or> c = CHR ''.''"
    and "\<exists>u v. addr = u @ CHR ''.'' # v \<and> CHR '':'' \<notin> set u \<and> CHR ''%'' \<notin> set u \<and> CHR ''.'' \<notin> set u"
proof -
  note shape = v4Loop_shape [OF assms [unfolded parseIPv4Fields_def]]
  then have chars: "isDigit c \<or> c = CHR ''.''" if "c \<in> set addr" for c
    using that by (auto simp: list_all_iff)
  then show "c \<in> set addr \<Longrightarrow> isDigit c \<or> c = CHR ''.''" .
  from shape show "length a = 4" by simp
  from shape have "CHR ''.'' \<in> set addr" by simp
  then obtain u v where "addr = u @ CHR ''.'' # v" and "CHR ''.'' \<notin> set u"
    by (meson split_list_first)
  moreover have "CHR '':'' \<notin> set addr" "CHR ''%'' \<notin> set addr"
    using chars [of "CHR '':''"] chars [of "CHR ''%''"] by (auto simp: isDigit_def)
  ultimately show "\<exists>u v. addr = u @ CHR ''.'' # v \<and> CHR '':'' \<notin> set u \<and> CHR ''%'' \<notin> set u \<and> CHR ''.'' \<notin> set u"
    by (intro exI [of _ u] exI [of _ v]) auto
qed

text \<open>
  A condition on an IPv4 network holds exactly for the clients whose address, in either form,
  agrees with the network's on the leading bits.
\<close>

lemma network_condition:
  assumes "parseIPv4Fields addr = Some a" and "n \<le> 32"
  shows "matchCondition F \<lparr>cond_Type = ConditionIP, cond_Field = f, cond_Value = addr @ ''/'' @ showNat n\<rparr> req
    \<longleftrightarrow> length (To4 (req_ClientIP req)) = 4 \<and> (\<forall>k<n. bitAt a k = bitAt (To4 (req_ClientIP req)) k)"
proof -
  from assms(2) have digits: "prefixLength (showNat n) = Some n"
    by (simp add: prefixLength_def showNat_digits decimalValue_showNat)
  have "CHR ''/'' \<notin> set addr"
    using parseIPv4Fields_shape(2) [OF assms(1), of "CHR ''/''"] by (auto simp: isDigit_def)
  from ParseCIDR_v4 [OF assms(1) this digits assms(2) parseIPv4Fields_shape(3) [OF assms(1)]]
  have "ParseCIDR (addr @ ''/'' @ showNat n) = Some (v4Net a n)" .
  then show ?thesis
    using Contains_v4 [OF parseIPv4Fields_shape(1) [OF assms(1)] assms(2)]
    by (auto simp: matchCondition_def Condition_defs To4_def)
qed

lemma network_condition_witness:
  "matchCondition demoFormats (demoCondition ConditionIP ''10.0.0.0/8'') (demoRequest [] [])"
proof -
  have addr: "parseIPv4Fields ''10.0.0.0'' = Some [10, 0, 0, 0]" and digits: "''/'' @ showNat 8 = ''/8''"
    by code_simp+
  have bits: "\<forall>k<8. bitAt [10, 0, 0, 0] k = bitAt (To4 [10, 0, 0, 1]) k"
    by (auto simp: bitAt_def To4_def)
  from network_condition [OF addr, of 8 demoFormats "[]" "demoRequest [] []"] bits digits
  show ?thesis
    by (simp add: demoRequest_def demoCondition_def To4_def)
qed

end
