(* ===== verification/Api_Theorems.thy ===== *)
theory Api_Theorems
  imports Api_Server Authz_Theorems
begin

text \<open>
  The properties of the REST API: who may write and read, what a refusal reveals, that every
  request is answered, and which status an error has.
\<close>

section \<open>Who writes\<close>

text \<open>What a request needs to be allowed a write, over the rules.\<close>

lemma mayWrite_rules:
  "mayWrite W S r addr obj \<longleftrightarrow>
      (\<exists>name result. result = Evaluate (w_formats W)
              \<lparr>req_Device = hr_deviceId r, req_ClientIP = clientIP S r, req_Operation = OperationWriteProperty,
                 req_TokenName = auth_TokenName (Authenticate (w_jwt W) (w_key W) (srv_authenticator S) (bearerToken r)),
                 req_JWTClaims = auth_Claims (Authenticate (w_jwt W) (w_key W) (srv_authenticator S) (bearerToken r)),
                 req_ObjectName = name\<rparr> (srv_rules S)
            \<and> result_Allowed result \<and> result_Permission result = PermissionReadWrite
            \<and> (if srv_needsObjectName S then name \<noteq> [] \<and> name \<in> givenNames (w_env W) addr obj else name = []))"
  by (simp add: mayWrite_def allowed_def Let_def newCaller_def RequiredPermission_def Operation_defs
      PermissionReadOnly_def PermissionReadWrite_def)

text \<open>
  C1. In every history of requests and refreshes, the writes sent to devices are, in order, those
  of some of the write requests received: to the device named, with the object, property, value
  and priority asked for. Each of these requests was allowed to write by the rules, for the caller
  that its peer address and bearer stand for; and when the rules look at names, the decision was
  made under a nonempty name that the device itself gave the object.
\<close>

theorem write_authorized:
  assumes "served W S rs s"
  shows "\<exists>sent. map fst sent = st_writes s
    \<and> subseq (map snd sent) (map snd (filter (\<lambda>(rt, r). rt = WriteProp) rs))
    \<and> (\<forall>((addr, obj, pid, v, priority), r) \<in> set sent.
        addr = resolveDevice S (hr_deviceId r) \<and> parseObjectRef r = Inr obj
        \<and> ParsePropertyIdentifier (hr_property r) = Some pid
        \<and> (\<exists>b. hr_Body r = Some b \<and> valueForWrite (w_far W) (Type obj) pid (wr_Value b) = Ok v \<and> priority = wr_Priority b)
        \<and> (\<exists>name result. result = Evaluate (w_formats W)
              \<lparr>req_Device = hr_deviceId r, req_ClientIP = clientIP S r, req_Operation = OperationWriteProperty,
                 req_TokenName = auth_TokenName (Authenticate (w_jwt W) (w_key W) (srv_authenticator S) (bearerToken r)),
                 req_JWTClaims = auth_Claims (Authenticate (w_jwt W) (w_key W) (srv_authenticator S) (bearerToken r)),
                 req_ObjectName = name\<rparr> (srv_rules S)
            \<and> result_Allowed result \<and> result_Permission result = PermissionReadWrite
            \<and> (if srv_needsObjectName S then name \<noteq> [] \<and> name \<in> givenNames (w_env W) addr obj else name = [])))"
  using served_writes [OF assms]
  unfolding writesFrom_def mayWrite_rules [symmetric]
  by (elim ex_forward) (auto simp: asksFor_def split_beta)

text \<open>
  A server with one device, one token and one rule, behind a trusted proxy, in a world where no
  device ever answers.
\<close>

definition silentWorld :: World where
  "silentWorld =
    \<lparr>w_env = \<lparr>env_resolve = (\<lambda>_. Ok \<lparr>AddrIP = [10, 0, 0, 9], AddrPort = 47808\<rparr>), env_request = (\<lambda>_ _ _ _. Err ErrTimeout),
       env_whoIs = (\<lambda>_ _ _. RoundDeadline []), env_retries = 0, env_ctxErr = (\<lambda>_. False)\<rparr>,
     w_jwt = \<lparr>jwt_unverified = (\<lambda>_. None), jwt_parse = (\<lambda>_ _ _. None)\<rparr>, w_key = (\<lambda>_ _. None),
     w_formats = demoFormats, w_far = (\<lambda>x. x), w_now = (\<lambda>_. 0)\<rparr>"

definition demoServer :: Server where
  "demoServer = NewServer [(''plant'', ''10.0.0.9'')]
    \<lparr>opt_Tokens = [\<lparr>token_Name = ''ops'', token_Value = ''s3cret''\<rparr>], opt_JWTSecret = [], opt_Issuers = []\<rparr>
    [\<lparr>rule_Name = ''operators'', rule_Conditions = [demoCondition ConditionToken ''ops''],
       rule_Match = MatchAll, rule_Permission = PermissionReadWrite, rule_Action = ActionAllow\<rparr>]
    (3 * 10 ^ 9) [v4Net [10, 1, 0, 0] 16]"

definition demoPut :: "string \<Rightarrow> HttpRequest" where
  "demoPut peer = \<lparr>hr_RemoteAddr = peer, hr_Header = (\<lambda>n. if n = ''Authorization'' then ''Bearer s3cret'' else []),
     hr_deviceId = ''plant'', hr_objectType = ''binary-output'', hr_instance = ''1'', hr_property = ''present-value'',
     hr_index = [], hr_Body = Some \<lparr>wr_Value = BoolAny True, wr_Priority = Some 8\<rparr>\<rparr>"

lemma demoPut_fields:
  "hr_RemoteAddr (demoPut p) = p" "hr_deviceId (demoPut p) = ''plant''" "hr_property (demoPut p) = ''present-value''"
  "hr_Body (demoPut p) = Some \<lparr>wr_Value = BoolAny True, wr_Priority = Some 8\<rparr>"
  "hr_Header (demoPut p) ''Authorization'' = ''Bearer s3cret''"
  by (simp_all add: demoPut_def)

lemma demo_parsed:
  "ParseObjectType ''binary-output'' = Some 4" "ParsePropertyIdentifier ''present-value'' = Some PropPresentValue"
  by code_simp+

lemma demo_objectRef: "parseObjectRef (demoPut p) = Inr \<lparr>Type = 4, Instance = 1\<rparr>"
  by (simp add: parseObjectRef_def demoPut_def demo_parsed ParseUint_def decimalValue_def isDigit_def digitVal_def)

lemma demo_value: "valueForWrite f 4 PropPresentValue (BoolAny True) = Ok (EnumeratedValue 1)"
  by (simp add: valueForWrite_def binaryPresentValue_def ObjectAnalogInput_def ObjectAnalogOutput_def ObjectAnalogValue_def
      ObjectBinaryInput_def ObjectBinaryOutput_def ObjectBinaryValue_def PropPresentValue_def)

lemma demoServer_fields:
  "\<not> srv_needsObjectName demoServer" "resolveDevice demoServer ''plant'' = ''10.0.0.9''"
  "srv_trustedProxies demoServer = [v4Net [10, 1, 0, 0] 16]"
  "srv_rules demoServer = [\<lparr>rule_Name = ''operators'', rule_Conditions = [demoCondition ConditionToken ''ops''],
     rule_Match = MatchAll, rule_Permission = PermissionReadWrite, rule_Action = ActionAllow\<rparr>]"
  by (simp_all add: demoServer_def NewServer_def UsesCondition_def demoCondition_def Condition_defs resolveDevice_def)

lemma demo_caller: "req_TokenName (call_req (newCaller W demoServer (demoPut p) d)) = ''ops''"
proof -
  have "bearerToken (demoPut p) = ''s3cret''"
    by (simp add: demoPut_fields bearerToken_def Let_def lowerAscii_def)
  then show ?thesis
    by (simp add: newCaller_def Let_def Authenticate_def demoServer_def NewServer_def NewAuthenticator_def)
qed

lemma ops_matches: "matchWildcard ''ops'' ''ops''"
  by code_simp

lemma demo_allowed: "allowed W demoServer (newCaller W demoServer (demoPut p) d) name op"
  by (simp add: allowed_def Let_def demo_caller demoServer_fields Evaluate_eq lastApplying_def resultOr_def ruleApplies_mode
      decisive_def ruleResult_def isAllow_def Action_defs Match_defs PermissionReadWrite_def matchCondition_def
      demoCondition_def Condition_defs ops_matches)

lemma demo_served:
  obtains s where "served silentWorld demoServer [(WriteProp, demoPut p)] s"
    and "st_writes s = [(''10.0.0.9'', \<lparr>Type = 4, Instance = 1\<rparr>, PropPresentValue, EnumeratedValue 1, Some 8)]"
proof -
  have "authorizeVariable silentWorld demoServer (demoPut p) (hr_deviceId (demoPut p)) (Some \<lparr>Type = 4, Instance = 1\<rparr>)
      OperationWriteProperty (initialState 0)
    = Some (Continue (newCaller silentWorld demoServer (demoPut p) ''plant'', []), initialState 0)"
    using demo_allowed
    by (simp add: authorizeVariable_nameless demoServer_fields andThen_def check_def handler_simps)
      (simp add: demoPut_fields)
  moreover have "asksFor silentWorld demoServer (demoPut p)
      (''10.0.0.9'', \<lparr>Type = 4, Instance = 1\<rparr>, PropPresentValue, EnumeratedValue 1, Some 8)"
    by (simp add: asksFor_def demo_objectRef demoPut_fields demo_value demoServer_fields demo_parsed)
  ultimately obtain resp s where "serve silentWorld demoServer WriteProp (demoPut p) (initialState 0) = Some (resp, s)"
    and "st_writes s = [(''10.0.0.9'', \<lparr>Type = 4, Instance = 1\<rparr>, PropPresentValue, EnumeratedValue 1, Some 8)]"
    using serve_sends [of silentWorld demoServer "demoPut p" _ "initialState 0"] by (fastforce simp: initialState_def)
  with served.request [OF served.start] that show thesis by fastforce
qed

lemma write_authorized_witness:
  "\<exists>s sent. served silentWorld demoServer [(WriteProp, demoPut ''10.0.0.1:5555'')] s
    \<and> st_writes s = [(''10.0.0.9'', \<lparr>Type = 4, Instance = 1\<rparr>, PropPresentValue, EnumeratedValue 1, Some 8)]
    \<and> map fst sent = st_writes s \<and> map snd sent = [demoPut ''10.0.0.1:5555'']"
proof -
  obtain s where s: "served silentWorld demoServer [(WriteProp, demoPut ''10.0.0.1:5555'')] s"
    and w: "st_writes s = [(''10.0.0.9'', \<lparr>Type = 4, Instance = 1\<rparr>, PropPresentValue, EnumeratedValue 1, Some 8)]"
    by (rule demo_served)
  obtain sent where sent: "map fst sent = st_writes s" "subseq (map snd sent) [demoPut ''10.0.0.1:5555'']"
    using write_authorized [OF s] by auto
  with w obtain x where "sent = [x]" by (cases sent) auto
  with sent w s show ?thesis by (intro exI [of _ s] exI [of _ sent]) (auto split: if_splits)
qed

section \<open>Where requests come from\<close>

lemma other_fields:
  "hr_RemoteAddr (r\<lparr>hr_Header := h\<rparr>) = hr_RemoteAddr r" "hr_deviceId (r\<lparr>hr_Header := h\<rparr>) = hr_deviceId r"
  "hr_objectType (r\<lparr>hr_Header := h\<rparr>) = hr_objectType r" "hr_instance (r\<lparr>hr_Header := h\<rparr>) = hr_instance r"
  "hr_property (r\<lparr>hr_Header := h\<rparr>) = hr_property r" "hr_index (r\<lparr>hr_Header := h\<rparr>) = hr_index r"
  "hr_Body (r\<lparr>hr_Header := h\<rparr>) = hr_Body r"
  by simp_all

lemma peerIP_headers [simp]: "peerIP (r\<lparr>hr_Header := h\<rparr>) = peerIP r"
  by (simp only: peerIP_def other_fields)

lemma newCaller_headers:
  assumes "\<not> isTrustedProxy S (peerIP r)" and "h ''Authorization'' = hr_Header r ''Authorization''"
  shows "newCaller W S (r\<lparr>hr_Header := h\<rparr>) d = newCaller W S r d"
  using assms by (simp add: newCaller_def clientIP_untrusted bearerToken_def Let_def)

text \<open>
  C8. A peer that is no trusted proxy cannot pass itself off as another client: whatever it puts
  in the forwarding headers, or any header but Authorization, the server does and answers the
  same, and takes the peer's own address for the client's.
\<close>

theorem headers_do_not_spoof:
  assumes "\<forall>n \<in> set (srv_trustedProxies S). \<not> Contains n (peerIP r)"
    and "h ''Authorization'' = hr_Header r ''Authorization''"
  shows "serve W S rt (r\<lparr>hr_Header := h\<rparr>) s = serve W S rt r s
    \<and> clientIP S (r\<lparr>hr_Header := h\<rparr>) = peerIP r"
proof -
  have untrusted: "\<not> isTrustedProxy S (peerIP r)"
    using assms(1) by (auto simp: isTrustedProxy_def list_ex_iff)
  note caller = newCaller_headers [OF untrusted, of h, OF assms(2)]
  have "handlerOf rt W S (r\<lparr>hr_Header := h\<rparr>) = handlerOf rt W S r"
    by (cases rt) (simp only: handlerOf_def route.case; unfold handleListDevices_def handleGetDevice_def
        handleListObjects_def handleGetObject_def handleGetProperty_def handleWriteProperty_def authorize_def
        authorizeVariable_def parseObjectRef_def caller other_fields; rule refl)+
  moreover have "clientIP S (r\<lparr>hr_Header := h\<rparr>) = peerIP r"
    using untrusted by (simp add: clientIP_untrusted)
  ultimately show ?thesis by (simp add: serve_def)
qed

text \<open>A client at 192.0.2.1 that claims to be 10.0.0.1.\<close>

definition spoofed :: "string \<Rightarrow> string" where
  "spoofed n = (if n = ''Authorization'' then ''Bearer s3cret'' else if n = ''X-Forwarded-For'' then ''10.0.0.1'' else [])"

lemma demo_peer:
  "peerIP (demoPut ''192.0.2.1:5555'') = [0, 0, 0, 0, 0, 0, 0, 0, 0, 0, 255, 255, 192, 0, 2, 1]"
  "\<not> Contains (v4Net [10, 1, 0, 0] 16) [0, 0, 0, 0, 0, 0, 0, 0, 0, 0, 255, 255, 192, 0, 2, 1]"
proof -
  have "SplitHostPort ''192.0.2.1:5555'' = Some (''192.0.2.1'', ''5555'')"
    "ParseIP ''192.0.2.1'' = [0, 0, 0, 0, 0, 0, 0, 0, 0, 0, 255, 255, 192, 0, 2, 1]"
    by code_simp+
  then show "peerIP (demoPut ''192.0.2.1:5555'') = [0, 0, 0, 0, 0, 0, 0, 0, 0, 0, 255, 255, 192, 0, 2, 1]"
    by (simp add: peerIP_def demoPut_fields)
  show "\<not> Contains (v4Net [10, 1, 0, 0] 16) [0, 0, 0, 0, 0, 0, 0, 0, 0, 0, 255, 255, 192, 0, 2, 1]"
    by code_simp
qed

lemma headers_do_not_spoof_witness:
  "clientIP demoServer ((demoPut ''192.0.2.1:5555'')\<lparr>hr_Header := spoofed\<rparr>)
    = [0, 0, 0, 0, 0, 0, 0, 0, 0, 0, 255, 255, 192, 0, 2, 1]"
  using headers_do_not_spoof [of demoServer "demoPut ''192.0.2.1:5555''" spoofed] demo_peer
  by (simp add: demoServer_fields demoPut_fields spoofed_def)

section \<open>Refusals\<close>

lemma cacheGet_hit:
  assumes "cached (st_cache s) h = Some dv"
  shows "\<exists>s'. cacheGet W h s = Some (Continue (Inr dv), s') \<and> cached (st_cache s') = cached (st_cache s)
    \<and> st_tick s' = st_tick s \<and> st_writes s' = st_writes s"
  using assms by (auto simp: cacheGet_def get_def Let_def outcome_def fun_eq_iff)

text \<open>The operation that a request for one object is authorized as.\<close>

definition operationOf :: "route \<Rightarrow> Operation" where
  "operationOf rt = (case rt of GetObject \<Rightarrow> OperationReadPropertyMultiple | GetProperty \<Rightarrow> OperationReadProperty
     | WriteProp \<Rightarrow> OperationWriteProperty | _ \<Rightarrow> OperationReadPropertyMultiple)"

text \<open>
  C7. What a caller may not read looks to it as if it did not exist. When the rules look at
  names, every request for an object (summary, property or write) that has no variable, or one
  that the caller may not use in this way nor read, gets the same answer: 401 with a challenge if
  it carried no bearer, 403 otherwise, without traffic to the device, and the answer does not
  depend on whether the object exists.
\<close>

theorem hidden_like_absent:
  assumes "srv_needsObjectName S" and "rt \<in> {GetObject, GetProperty, WriteProp}" and "parseObjectRef r = Inr obj"
    and "cached (st_cache s) (resolveDevice S (hr_deviceId r)) = Some dv"
    and "\<forall>v. dv_byID dv obj = Some v \<longrightarrow>
      \<not> allowed W S (newCaller W S r (hr_deviceId r)) (var_Name v) (operationOf rt)
      \<and> \<not> allowed W S (newCaller W S r (hr_deviceId r)) (var_Name v) OperationReadProperty"
  shows "\<exists>s'. serve W S rt r s = Some
      (if bearerToken r = [] then
         \<lparr>resp_Status = 401, resp_Header = [(''WWW-Authenticate'', ''Bearer''), (''Content-Type'', ''application/json'')],
          resp_Body = ErrorJSON (plainError (Text ''authentication required''))\<rparr>
       else \<lparr>resp_Status = 403, resp_Header = [(''Content-Type'', ''application/json'')],
          resp_Body = ErrorJSON (plainError (Text ''access denied''))\<rparr>, s')
    \<and> st_tick s' = st_tick s \<and> st_writes s' = st_writes s"
proof -
  let ?c = "newCaller W S r (hr_deviceId r)"
  obtain s' where hit: "cacheGet W (resolveDevice S (hr_deviceId r)) s = Some (Continue (Inr dv), s')"
    and same: "st_tick s' = st_tick s" "st_writes s' = st_writes s"
    using cacheGet_hit [OF assms(4)] by blast
  have bearer: "call_bearer ?c = bearerToken r" by (simp add: newCaller_def Let_def)
  have "check W S ?c (var_Name v) (operationOf rt) s' = Some (Reply (writeDenied (call_bearer ?c)), s')"
    if "dv_byID dv obj = Some v" for v
    using assms(5) that by (cases rule: check_cases [of W S ?c "var_Name v" "operationOf rt" s']) auto
  with hit assms(1) have "authorizeVariable W S r (hr_deviceId r) (Some obj) (operationOf rt) s
      = Some (Reply (writeDenied (call_bearer ?c)), s')"
    by (cases "dv_byID dv obj") (simp_all add: authorizeVariable_def Let_def andThen_def handler_simps)
  then have "handlerOf rt W S r s = Some (Reply (writeDenied (call_bearer ?c)), s')"
    using assms(2,3)
    by (auto simp: handlerOf_def handleGetObject_def handleGetProperty_def handleWriteProperty_def operationOf_def andThen_def)
  then have "serve W S rt r s = Some (writeDenied (bearerToken r), s')"
    by (simp add: serve_def recoverJSON_def bearer)
  with same show ?thesis
    by (auto simp: writeDenied_def writeError_def contentType_def StatusUnauthorized_def StatusForbidden_def)
qed

text \<open>A server whose rules let everyone read the variable "open", and a device with two variables.\<close>

definition nameServer :: Server where
  "nameServer = NewServer [] \<lparr>opt_Tokens = [], opt_JWTSecret = [], opt_Issuers = []\<rparr>
    [\<lparr>rule_Name = ''public'', rule_Conditions = [demoCondition ConditionVariable ''open''],
       rule_Match = MatchAll, rule_Permission = PermissionReadOnly, rule_Action = ActionAllow\<rparr>] (3 * 10 ^ 9) []"

definition namedVariable :: "u32 \<Rightarrow> string \<Rightarrow> variable" where
  "namedVariable i n = (bareVariable \<lparr>Type = ObjectBinaryOutput, Instance = i\<rparr>)\<lparr>var_Name := n\<rparr>"

definition knownState :: St where
  "knownState = \<lparr>st_tick = 0, st_cache = \<lparr>vc_interval = 1, vc_entries = [''plant'' \<mapsto>
     \<lparr>ce_data = Some (indexVariables 7 [namedVariable 1 ''secret'', namedVariable 2 ''open'']), ce_lastUsed = 0\<rparr>]\<rparr>,
     st_writes = []\<rparr>"

lemma nameServer_fields:
  "srv_needsObjectName nameServer" "resolveDevice nameServer d = d"
  "srv_rules nameServer = [\<lparr>rule_Name = ''public'', rule_Conditions = [demoCondition ConditionVariable ''open''],
     rule_Match = MatchAll, rule_Permission = PermissionReadOnly, rule_Action = ActionAllow\<rparr>]"
  by (simp_all add: nameServer_def NewServer_def UsesCondition_def demoCondition_def Condition_defs resolveDevice_def)

lemma names_match: "matchWildcard ''open'' ''open''" "\<not> matchWildcard ''open'' ''secret''"
  by code_simp+

lemma nameServer_allowed:
  "allowed W nameServer c name op \<longleftrightarrow> name \<noteq> [] \<and> matchWildcard ''open'' name \<and> RequiredPermission op \<noteq> PermissionReadWrite"
  by (auto simp: allowed_def Let_def nameServer_fields Evaluate_eq lastApplying_def resultOr_def ruleApplies_mode
      decisive_def ruleResult_def isAllow_def isNow_def Action_defs Match_defs PermissionReadWrite_def PermissionReadOnly_def
      matchCondition_def demoCondition_def Condition_defs implicitDefault_def)

lemma knownState_variables:
  "cached (st_cache knownState) ''plant'' = Some (indexVariables 7 [namedVariable 1 ''secret'', namedVariable 2 ''open''])"
  "dv_byID (indexVariables 7 [namedVariable 1 ''secret'', namedVariable 2 ''open'']) \<lparr>Type = 4, Instance = 1\<rparr>
    = Some (namedVariable 1 ''secret'')"
  by (simp_all add: knownState_def cached_def indexVariables_def namedVariable_def bareVariable_def ObjectBinaryOutput_def)

lemma hidden_like_absent_witness:
  "\<exists>s'. serve silentWorld nameServer WriteProp (demoPut ''10.0.0.1:5555'') knownState
      = Some (\<lparr>resp_Status = 403, resp_Header = [(''Content-Type'', ''application/json'')],
          resp_Body = ErrorJSON (plainError (Text ''access denied''))\<rparr>, s') \<and> st_writes s' = []"
proof -
  have bearer: "bearerToken (demoPut ''10.0.0.1:5555'') = ''s3cret''"
    by (simp add: demoPut_fields bearerToken_def Let_def lowerAscii_def)
  have hidden: "\<forall>v. dv_byID (indexVariables 7 [namedVariable 1 ''secret'', namedVariable 2 ''open'']) \<lparr>Type = 4, Instance = 1\<rparr> = Some v
      \<longrightarrow> \<not> allowed silentWorld nameServer (newCaller silentWorld nameServer (demoPut ''10.0.0.1:5555'') (hr_deviceId (demoPut ''10.0.0.1:5555'')))
            (var_Name v) (operationOf WriteProp)
        \<and> \<not> allowed silentWorld nameServer (newCaller silentWorld nameServer (demoPut ''10.0.0.1:5555'') (hr_deviceId (demoPut ''10.0.0.1:5555'')))
            (var_Name v) OperationReadProperty"
    unfolding knownState_variables(2) nameServer_allowed by (simp add: namedVariable_def names_match)
  have "cached (st_cache knownState) (resolveDevice nameServer (hr_deviceId (demoPut ''10.0.0.1:5555'')))
      = Some (indexVariables 7 [namedVariable 1 ''secret'', namedVariable 2 ''open''])"
    by (simp only: nameServer_fields demoPut_fields knownState_variables)
  from hidden_like_absent [OF nameServer_fields(1) _ demo_objectRef this hidden]
  show ?thesis by (auto simp: bearer knownState_def)
qed

section \<open>Lists\<close>

text \<open>The name that decides about a variable: none when the rules do not look at names.\<close>

definition decidingName :: "Server \<Rightarrow> variable \<Rightarrow> string" where
  "decidingName S v = (if srv_needsObjectName S then var_Name v else [])"

lemma visible_eq:
  "visibleVariables W S c dv =
    map (\<lambda>v. (v, if allowed W S c (decidingName S v) OperationWriteProperty then accessReadWrite else accessReadOnly))
      (filter (\<lambda>v. allowed W S c (decidingName S v) OperationReadProperty) (dv_vars dv))"
  by (auto simp: visibleVariables_def Let_def decidingName_def variableAccess_def access_defs intro!: filter_cong)

text \<open>
  C12. The list of a device's objects shows exactly the variables that the caller may read, in the
  order of the device's object list, each with the access that the rules give: "readwrite" when
  the caller may also write it, else "readonly". When there is none the answer is the refusal, and
  no request goes to the device while its variables are cached.
\<close>

theorem listing_exact:
  assumes "cached (st_cache s) (resolveDevice S (hr_deviceId r)) = Some dv"
  shows "\<exists>s'. serve W S ListObjects r s = Some
      (let c = newCaller W S r (hr_deviceId r);
           readable = filter (\<lambda>v. allowed W S c (decidingName S v) OperationReadProperty) (dv_vars dv)
       in if readable = [] then writeDenied (bearerToken r)
          else writeJSON [] StatusOK (ValueJSON (JArray (map (\<lambda>v. objectSummary v
            (if allowed W S c (decidingName S v) OperationWriteProperty then ''readwrite'' else ''readonly'')) readable))), s')
    \<and> st_tick s' = st_tick s \<and> st_writes s' = st_writes s"
proof -
  let ?c = "newCaller W S r (hr_deviceId r)"
  obtain s' where hit: "cacheGet W (resolveDevice S (hr_deviceId r)) s = Some (Continue (Inr dv), s')"
    and same: "st_tick s' = st_tick s" "st_writes s' = st_writes s"
    using cacheGet_hit [OF assms] by blast
  have bearer: "call_bearer ?c = bearerToken r" by (simp add: newCaller_def Let_def)
  show ?thesis
  proof (cases "\<not> srv_needsObjectName S \<and> variableAccess W S ?c [] = accessNone")
    case True
    then have "\<not> allowed W S ?c (decidingName S v) OperationReadProperty" for v
      by (auto simp: decidingName_def variableAccess_def access_defs split: if_splits)
    with True show ?thesis
      by (intro exI [of _ s])
        (simp add: serve_def recoverJSON_def handlerOf_def handleListObjects_def Let_def bearer handler_simps)
  next
    case False
    then have "handleListObjects W S r s = Some (Reply
       (if visibleVariables W S ?c dv = [] then writeDenied (bearerToken r)
        else writeJSON [] StatusOK (ValueJSON (JArray (map (\<lambda>(v, a). objectSummary v a) (visibleVariables W S ?c dv))))), s')"
      by (simp only: handleListObjects_def Let_def if_False andThen_def hit bearer)
        (simp add: handler_simps writeOK_def)
    with same show ?thesis
      by (intro exI [of _ s'])
        (simp add: serve_def recoverJSON_def handlerOf_def visible_eq Let_def access_defs comp_def cong: if_cong)
  qed
qed

lemma listing_exact_witness:
  "\<exists>s'. serve silentWorld nameServer ListObjects (demoPut ''10.0.0.1:5555'') knownState
    = Some (writeJSON [] StatusOK (ValueJSON (JArray [objectSummary (namedVariable 2 ''open'') ''readonly''])), s')"
proof -
  have "cached (st_cache knownState) (resolveDevice nameServer (hr_deviceId (demoPut ''10.0.0.1:5555'')))
      = Some (indexVariables 7 [namedVariable 1 ''secret'', namedVariable 2 ''open''])"
    by (simp only: nameServer_fields demoPut_fields knownState_variables)
  from listing_exact [OF this] show ?thesis
    by (auto simp: nameServer_allowed decidingName_def nameServer_fields indexVariables_def namedVariable_def
        bareVariable_def names_match RequiredPermission_def Operation_defs PermissionReadOnly_def PermissionReadWrite_def)
qed

section \<open>Every request is answered\<close>

text \<open>
  C13. When no call of the client panics and no device claims an object list next to the largest
  uint32, every request to the API is answered, and well: with 200 and a value that JSON can
  represent, with 204 and no body after a write, or with a failure from 400 on and an error body.
  In particular no handler loops forever, panics, or answers 500.
\<close>

theorem every_request_answered:
  assumes "envSafe (w_env W)" and "\<forall>h. shortLists (w_env W) h"
  shows "\<exists>resp s'. serve W S rt r s = Some (resp, s')
    \<and> (case resp_Body resp of
         NoBody \<Rightarrow> resp_Status resp = 204
       | ErrorJSON e \<Rightarrow> 400 \<le> resp_Status resp \<and> resp_Status resp \<noteq> 500
       | ValueJSON v \<Rightarrow> resp_Status resp = 200 \<and> encodable v)"
proof -
  have "good True (handlerOf rt W S r)"
    using assms by (intro good_handlers) (simp add: worldOk_def)
  then obtain x s' where "handlerOf rt W S r s = Some (x, s')"
    and "case x of Continue u \<Rightarrow> False | Reply resp \<Rightarrow> answerOk resp | Panics \<Rightarrow> False"
    unfolding good_def not_True_eq_False by blast
  then show ?thesis
    by (cases x) (simp_all add: serve_def recoverJSON_def answerOk_def Status_defs split: body.splits)
qed

lemma silentWorld_ok: "envSafe (w_env silentWorld)" "shortLists (w_env silentWorld) h"
  by (auto simp: silentWorld_def envSafe_def shortLists_def ReadProperty_def safe_def res_bind_Ok_iff)

lemma every_request_answered_witness: "\<exists>resp s'. serve silentWorld demoServer GetDevice (demoPut ''10.0.0.1:5555'') (initialState 0) = Some (resp, s')"
  using every_request_answered [of silentWorld demoServer GetDevice "demoPut ''10.0.0.1:5555''" "initialState 0"] silentWorld_ok by blast

end
