(* ===== verification/Proxy_Theorems.thy ===== *)
theory Proxy_Theorems
  imports Api_Device Api_Theorems
begin

text \<open>
  The properties of the whole path from an HTTP request to a device and back: enumeration, reads
  and writes against the mock device, over the wire format, the client and the cache.
\<close>

section \<open>Enumeration\<close>

lemma byID_distinct:
  assumes "snapshotOk dv" and "distinct (map var_Object (dv_vars dv))" and "v \<in> set (dv_vars dv)"
  shows "dv_byID dv (var_Object v) = Some v"
proof -
  have "distinct (map var_Object vs) \<Longrightarrow> v \<in> set vs \<Longrightarrow> filter (\<lambda>w. var_Object w = var_Object v) vs = [v]" for vs
  proof (induction vs)
    case (Cons w vs)
    show ?case
    proof (cases "w = v")
      case True
      with Cons.prems(1) have "filter (\<lambda>w. var_Object w = var_Object v) vs = []"
        by (metis (mono_tags, lifting) True distinct.simps(2) filter_empty_conv image_eqI list.set_map list.simps(9))
      with True show ?thesis by simp
    next
      case False
      with Cons.prems have "v \<in> set vs" by simp
      with Cons.prems(1) have "var_Object w \<noteq> var_Object v" by auto
      with Cons \<open>v \<in> set vs\<close> show ?thesis by simp
    qed
  qed simp
  with assms show ?thesis by (simp add: snapshotOk_def)
qed

text \<open>An index whose variables are the named ones among distinct objects finds exactly those.\<close>

lemma named_byID:
  assumes ok: "snapshotOk dv" and "distinct oids"
    and vs: "map (\<lambda>v. (var_Object v, var_Name v)) (dv_vars dv) = filter (\<lambda>(oid, name). name \<noteq> []) (map (\<lambda>oid. (oid, f oid)) oids)"
  shows "map_option var_Name (dv_byID dv oid) = (if oid \<in> set oids \<and> f oid \<noteq> [] then Some (f oid) else None)"
proof -
  have ids: "map var_Object (dv_vars dv) = filter (\<lambda>oid. f oid \<noteq> []) oids"
    using arg_cong [OF vs, of "map fst"] by (simp add: filter_map o_def)
  then have objs: "var_Object ` set (dv_vars dv) = {oid \<in> set oids. f oid \<noteq> []}"
    by (metis set_filter set_map)
  have distinct: "distinct (map var_Object (dv_vars dv))" using assms(2) unfolding ids by simp
  have name: "var_Name v = f (var_Object v)" if "v \<in> set (dv_vars dv)" for v
  proof -
    have "(var_Object v, var_Name v) \<in> set (map (\<lambda>v. (var_Object v, var_Name v)) (dv_vars dv))" using that by auto
    then show ?thesis unfolding vs by auto
  qed
  show ?thesis
  proof (cases "oid \<in> set oids \<and> f oid \<noteq> []")
    case True
    with objs have "oid \<in> var_Object ` set (dv_vars dv)" by blast
    then obtain v where v: "v \<in> set (dv_vars dv)" "var_Object v = oid" by blast
    with byID_distinct [OF ok distinct v(1)] name [OF v(1)] True show ?thesis by simp
  next
    case False
    have "dv_byID dv oid = None"
    proof (rule ccontr)
      assume "dv_byID dv oid \<noteq> None"
      then obtain v where "dv_byID dv oid = Some v" by blast
      from snapshotOk_byID(1,2) [OF ok this] have "oid \<in> var_Object ` set (dv_vars dv)" by auto
      with False objs show False by blast
    qed
    with False show ?thesis by simp
  qed
qed

text \<open>
  C3. Whether or not the device knows ReadPropertyMultiple, and however long its object list and
  its replies are, enumerating it gives its instance and, in the order of its object list, exactly
  the objects of its store that have a name, each with that name; an object is found by its
  identifier exactly if it is one of them. Reading its object list gives the whole list.
\<close>

theorem enumeration_exact:
  assumes "reaches E rpm d host" and "namesFit d" and "deviceOk d" and "devInstance d < 4194304"
    and "length (objects d) + 50 < 2 ^ 32"
  shows "\<exists>dv l. load E host k = Some (Ok dv, l) \<and> dv_instance dv = devInstance d
    \<and> map (\<lambda>v. (var_Object v, var_Name v)) (dv_vars dv)
        = filter (\<lambda>(oid, name). name \<noteq> []) (map (\<lambda>oid. (oid, nameIn d oid)) (objectIDs d))
    \<and> (\<forall>oid. map_option var_Name (dv_byID dv oid)
        = (if oid \<in> set (objectIDs d) \<and> nameIn d oid \<noteq> [] then Some (nameIn d oid) else None))
    \<and> (\<exists>l'. readObjectList E host (devInstance d) (newLoader k) = Some (Ok (map ObjectIDValue (objectIDs d)), l'))"
proof -
  from load_device [OF assms] obtain vs l where load: "load E host k = Some (Ok (indexVariables (devInstance d) vs), l)"
    and vs: "map (\<lambda>v. (var_Object v, var_Name v)) vs = filter (\<lambda>(oid, name). name \<noteq> []) (map (\<lambda>oid. (oid, nameIn d oid)) (objectIDs d))"
    by blast
  let ?dv = "indexVariables (devInstance d) vs"
  have [simp]: "dv_vars ?dv = vs" "dv_instance ?dv = devInstance d" by (simp_all add: indexVariables_def)
  from assms(1) have "distinct (objectIDs d)" using objectIDs_ok(1) [OF assms(3)] by (simp add: reaches_def)
  then have byID: "map_option var_Name (dv_byID ?dv oid)
      = (if oid \<in> set (objectIDs d) \<and> nameIn d oid \<noteq> [] then Some (nameIn d oid) else None)" for oid
    using named_byID [OF load_snapshotOk [OF load]] vs by simp
  from assms(1) obtain c j resolve addr where E: "E = deviceEnv rpm d c resolve" "pending c j = None"
    "resolveDeviceAddr resolve host = Ok addr" "storeOk d" by (auto simp: reaches_def)
  have "length (objectList d) + 50 < 2 ^ 32" using assms(5) by (simp add: objectList_def)
  from readObjectList_device [OF E(2,4,3) assms(4) this]
  have "\<exists>l'. readObjectList E host (devInstance d) (newLoader k) = Some (Ok (map ObjectIDValue (objectIDs d)), l')"
    unfolding E(1) objectList_IDs .
  with load vs byID show ?thesis by (intro exI [of _ ?dv] exI [of _ l]) simp
qed

text \<open>A device with a named pump, and one address for everything.\<close>

definition plantDevice :: Device where
  "plantDevice = AddObject (NewDevice 7) ObjectBinaryOutput 1
    [(PropObjectName, CharStringValue ''pump''), (PropPresentValue, EnumeratedValue 0)]"

definition plantEnv :: "bool \<Rightarrow> Env" where
  "plantEnv rpm = deviceEnv rpm plantDevice newClient (\<lambda>_. Ok \<lparr>AddrIP = [10, 0, 0, 9], AddrPort = 47808\<rparr>)"

lemma plant_objects:
  "objects plantDevice = objects (NewDevice 7) @ [(objectKey ObjectBinaryOutput 1,
     [(PropObjectName, seededProperty ObjectBinaryOutput PropObjectName (CharStringValue ''pump'')),
      (PropPresentValue, seededProperty ObjectBinaryOutput PropPresentValue (EnumeratedValue 0))])]"
  by (simp add: plantDevice_def AddObject_def NewDevice_def ObjectDevice_def ObjectBinaryOutput_def)

lemma plant_ok: "deviceOk plantDevice" "storeOk plantDevice" "devInstance plantDevice = 7" "length (objects plantDevice) = 2"
proof -
  show "deviceOk plantDevice" by (simp add: plantDevice_def deviceOk_seed deviceOk_NewDevice)
  show "storeOk plantDevice"
    unfolding plantDevice_def
    by (intro storeOk_AddObject storeOk_NewDevice) (simp_all add: wireObject_def ObjectBinaryOutput_def wire_text)
  show "length (objects plantDevice) = 2" by (simp add: plant_objects NewDevice_def)
qed (simp add: plantDevice_def AddObject_def NewDevice_def)

lemma plant_address: "resolveDeviceAddr (\<lambda>_. Ok a) h = Ok a"
  by (simp add: resolveDeviceAddr_def Let_def split: option.split prod.split)

lemma plant_reaches: "reaches (plantEnv rpm) rpm plantDevice h"
  unfolding reaches_def plantEnv_def using plant_address plant_ok(2)
  by (intro conjI exI [of _ newClient] exI [of _ 0] exI) (auto simp: newClient_def)

lemma plant_namesFit: "namesFit plantDevice"
proof -
  have bytes: "length (valuesBytes [CharStringValue ''pump'']) \<le> 1400" "length (valuesBytes [CharStringValue ''mock-device'']) \<le> 1400"
    by code_simp+
  have "p = plainProperty (CharStringValue ''pump'') \<or> p = plainProperty (CharStringValue ''mock-device'')"
    if "map_of (objects plantDevice) key = Some ps" and "map_of ps PropObjectName = Some p" for key ps p
    using that unfolding plant_objects
    by (auto simp: NewDevice_def seededProperty_def Commandable_def PropObjectName_def PropVendorName_def PropModelName_def
        PropPresentValue_def split: if_splits)
  with bytes show ?thesis
    unfolding namesFit_def by (fastforce simp: plainProperty_def effectiveValue_def)
qed

lemma plant_IDs: "objectIDs plantDevice = [\<lparr>Type = ObjectBinaryOutput, Instance = 1\<rparr>, \<lparr>Type = ObjectDevice, Instance = 7\<rparr>]"
  by code_simp

text \<open>The witness: both ways of reading the names find the pump and the device itself.\<close>

lemma enumeration_exact_witness:
  "\<forall>rpm. \<exists>dv l. load (plantEnv rpm) ''plant'' 0 = Some (Ok dv, l) \<and> dv_instance dv = 7
    \<and> map_option var_Name (dv_byID dv \<lparr>Type = ObjectBinaryOutput, Instance = 1\<rparr>) = Some ''pump''"
proof
  fix rpm
  have name: "nameIn plantDevice \<lparr>Type = ObjectBinaryOutput, Instance = 1\<rparr> = ''pump''" by code_simp
  have "\<exists>dv l. load (plantEnv rpm) ''plant'' 0 = Some (Ok dv, l) \<and> dv_instance dv = devInstance plantDevice
    \<and> map (\<lambda>v. (var_Object v, var_Name v)) (dv_vars dv)
        = filter (\<lambda>(oid, name). name \<noteq> []) (map (\<lambda>oid. (oid, nameIn plantDevice oid)) (objectIDs plantDevice))
    \<and> (\<forall>oid. map_option var_Name (dv_byID dv oid)
        = (if oid \<in> set (objectIDs plantDevice) \<and> nameIn plantDevice oid \<noteq> [] then Some (nameIn plantDevice oid) else None))
    \<and> (\<exists>l'. readObjectList (plantEnv rpm) ''plant'' (devInstance plantDevice) (newLoader 0)
        = Some (Ok (map ObjectIDValue (objectIDs plantDevice)), l'))"
    by (rule enumeration_exact [OF plant_reaches plant_namesFit plant_ok(1)]) (simp_all add: plant_ok)
  then show "\<exists>dv l. load (plantEnv rpm) ''plant'' 0 = Some (Ok dv, l) \<and> dv_instance dv = 7
    \<and> map_option var_Name (dv_byID dv \<lparr>Type = ObjectBinaryOutput, Instance = 1\<rparr>) = Some ''pump''"
    by (elim exE conjE allE [of _ "\<lparr>Type = ObjectBinaryOutput, Instance = 1\<rparr>"]) (auto simp: plant_ok plant_IDs name)
qed

section \<open>Reading over HTTP\<close>

lemma sent_once: "tick (newLoader k) = k" by (simp add: newLoader_def)

lemma serve_get:
  assumes net: "reaches (w_env W) rpm d (resolveDevice S (hr_deviceId r))"
    and req: "parseObjectRef r = Inr obj" "ParsePropertyIdentifier (hr_property r) = Some pid" "parseIndex (hr_index r) = Some idx"
    and "wireObject obj" and single: "\<not> (Type obj = ObjectDevice \<and> pid = PropObjectList)"
    and auth: "authorizeVariable W S r (hr_deviceId r) (Some obj) OperationReadProperty s = Some (Continue (c, name), s1)"
  shows "serve W S GetProperty r s = Some
      (case readOutcome d \<lparr>Property = pid, ArrayIndex = idx, Object = obj\<rparr> of
         Ok vs \<Rightarrow> writeJSON [] StatusOK (ValueJSON (propertyValue vs (variableAccess W S c name)))
       | Err e \<Rightarrow> writeBACnetError e
       | Panic \<Rightarrow> writeError [] StatusInternalServerError (Text ''internal error''),
       s1\<lparr>st_tick := st_tick s1 + 1\<rparr>)"
proof -
  have "readSingle W (resolveDevice S (hr_deviceId r)) obj pid idx s1
      = Some (outcome (readOutcome d \<lparr>Property = pid, ArrayIndex = idx, Object = obj\<rparr>), s1\<lparr>st_tick := st_tick s1 + 1\<rparr>)"
    using reaches_read [OF net \<open>wireObject obj\<close>] by (simp add: readSingle_def clientRead_def sent_once)
  with auth single show ?thesis
    by (auto simp: serve_def handlerOf_def recoverJSON_def handleGetProperty_def req andThen_def orBACnetError_def outcome_def
        Let_def writeOK_def handler_simps split: res.split)
qed

text \<open>
  C4. A GET of a property that the caller may read reaches the device and brings back what its
  store has: 200 with the value and the caller's access; the status of the device's error (404 for
  an unknown object or property) with its class and code; or 502 when the value does not fit one
  APDU. Nothing is written.
\<close>

theorem http_read:
  assumes "reaches (w_env W) rpm d (resolveDevice S (hr_deviceId r))"
    and "parseObjectRef r = Inr obj" and "ParsePropertyIdentifier (hr_property r) = Some pid"
    and "parseIndex (hr_index r) = Some idx" and "wireObject obj" and "\<not> (Type obj = ObjectDevice \<and> pid = PropObjectList)"
    and "authorizeVariable W S r (hr_deviceId r) (Some obj) OperationReadProperty s = Some (Continue (c, name), s1)"
  shows "\<exists>resp s'. serve W S GetProperty r s = Some (resp, s') \<and> st_writes s' = st_writes s1
    \<and> (case readProperty d (Type obj) (Instance obj) pid idx of
         Ok vs \<Rightarrow>
           if 3 + length (ackBytes (ackOf \<lparr>Property = pid, ArrayIndex = idx, Object = obj\<rparr> vs)) \<le> 1476
           then resp_Status resp = 200
             \<and> resp_Body resp = ValueJSON (JObject [(''value'', jsonValues vs), (''access'', JString (variableAccess W S c name))])
           else resp_Status resp = 502
       | Err e \<Rightarrow> resp_Status resp = bacnetStatus (Code e)
           \<and> (\<exists>b. resp_Body resp = ErrorJSON b \<and> eb_Class b = showNat (unat (Class e)) \<and> eb_Code b = showNat (unat (Code e)))
       | Panic \<Rightarrow> False)"
proof -
  have abort: "resp_Status (writeBACnetError (AbortErr a)) = 502" for a
    by (simp add: writeBACnetError_status Status_defs isErrTimeout_def asBACnetError_def)
  from readProperty_safe [of d "Type obj" "Instance obj" pid idx] serve_get [OF assms] show ?thesis
    by (cases "readProperty d (Type obj) (Instance obj) pid idx")
      (simp_all add: readOutcome_def maxAPDU_def abort propertyValue_def Status_defs writeBACnetError_def asBACnetError_def not_less)
qed

text \<open>The demonstration server in front of the plant.\<close>

definition plantWorld :: World where
  "plantWorld = silentWorld\<lparr>w_env := plantEnv True\<rparr>"

lemma plantWorld_env [simp]: "w_env plantWorld = plantEnv True"
  by (simp add: plantWorld_def)

lemma plant_authorized:
  "authorizeVariable W demoServer (demoPut p) (hr_deviceId (demoPut p)) obj op s
    = Some (Continue (newCaller W demoServer (demoPut p) (hr_deviceId (demoPut p)), []), s)"
  using demo_allowed by (simp add: authorizeVariable_nameless demoServer_fields andThen_def check_def handler_simps)

lemma plant_present:
  "readProperty plantDevice 4 1 PropPresentValue None = Ok [EnumeratedValue 0]"
  by code_simp

lemma demo_index: "parseIndex (hr_index (demoPut p)) = Some None"
  by (simp add: demoPut_def parseIndex_def)

lemma plant_object: "wireObject \<lparr>Type = 4, Instance = 1\<rparr>"
  by (simp add: wireObject_def)

lemma http_read_witness:
  "\<exists>resp s'. serve plantWorld demoServer GetProperty (demoPut ''10.0.0.1:5555'') (initialState 0) = Some (resp, s')
    \<and> resp_Status resp = 200 \<and> resp_Body resp = ValueJSON (JObject [(''value'', JInteger 0), (''access'', JString ''readwrite'')])"
proof -
  have parsed: "ParsePropertyIdentifier (hr_property (demoPut ''10.0.0.1:5555'')) = Some PropPresentValue"
    by (simp add: demoPut_fields demo_parsed)
  have short: "3 + length (ackBytes (ackOf \<lparr>Property = PropPresentValue, ArrayIndex = None, Object = \<lparr>Type = 4, Instance = 1\<rparr>\<rparr>
      [EnumeratedValue 0])) \<le> 1476" by code_simp
  have access: "variableAccess W demoServer (newCaller W demoServer (demoPut p) d) name = ''readwrite''" for W p d name
    using demo_allowed by (simp add: variableAccess_def access_defs)
  have "reaches (w_env plantWorld) True plantDevice (resolveDevice demoServer (hr_deviceId (demoPut ''10.0.0.1:5555'')))"
    by (simp add: plant_reaches)
  from http_read [OF this demo_objectRef parsed demo_index plant_object _ plant_authorized, of "initialState 0"]
  show ?thesis by (auto simp: plant_present short access ObjectDevice_def jsonValues_def)
qed

section \<open>Writing over HTTP\<close>

lemma WriteProperty_device:
  "WriteProperty resolve (deviceAnswers rpm d c) host obj pr v prio = WriteProperty resolve (deviceRequest d c 0) host obj pr v prio"
  by (simp add: WriteProperty_def deviceAnswers_def Service_defs)

text \<open>
  C5. An authorized PUT reaches the device as exactly the write that was asked for. The answer is
  204 without a body when the device accepts it, else the status of the device's error with its
  class and code; and the device that took the request is the one that its own write gives, so a
  refused write changes nothing.
\<close>

theorem http_write:
  assumes net: "w_env W = deviceEnv rpm d c resolve" "pending c j = None"
    and addr: "resolveDeviceAddr resolve (resolveDevice S (hr_deviceId r)) = Ok addr"
    and asks: "asksFor W S r (host, obj, pid, v, prio)" and wire: "wireObject obj" "wirePrimitive v"
    and auth: "authorizeVariable W S r (hr_deviceId r) (Some obj) OperationWriteProperty s = Some (Continue cn, s1)"
    and small: "length (writeBytes \<lparr>Property = pid, ArrayIndex = None, Object = obj, WriteValue = v, Priority = prio\<rparr>) < 65500"
    and dev: "writeProperty d (Type obj) (Instance obj) pid v prio = (d', e)"
  shows "\<exists>resp s'. serve W S WriteProp r s = Some (resp, s') \<and> st_writes s' = st_writes s1 @ [(host, obj, pid, v, prio)]
    \<and> (case e of
         None \<Rightarrow> resp = \<lparr>resp_Status = 204, resp_Header = [], resp_Body = NoBody\<rparr>
       | Some err \<Rightarrow> d' = d \<and> resp_Status resp = bacnetStatus (Code err)
           \<and> (\<exists>b. resp_Body resp = ErrorJSON b \<and> eb_Class b = showNat (unat (Class err)) \<and> eb_Code b = showNat (unat (Code err))))
    \<and> (\<exists>reply. exchange d c 0 addr ServiceConfirmedWriteProperty
        (writeBytes \<lparr>Property = pid, ArrayIndex = None, Object = obj, WriteValue = v, Priority = prio\<rparr>) = Ok (d', reply))"
proof -
  note sent = writeProperty_end_to_end [OF net(2) wire addr small dev]
  from asks have host: "host = resolveDevice S (hr_deviceId r)" by (simp add: asksFor_def)
  have answer: "WriteProperty resolve (deviceAnswers rpm d c) (resolveDevice S (hr_deviceId r)) obj pid v prio
      = (case e of None \<Rightarrow> Ok () | Some err \<Rightarrow> Err (BACnetErr err))"
    using sent(1) by (simp add: WriteProperty_device)
  have kept: "e = Some err \<Longrightarrow> d' = d" for err
    using writeProperty_rejected [of d "Type obj" "Instance obj" pid v prio err] dev by simp
  show ?thesis
  proof (cases e)
    case None
    with answer asks auth sent(2) net host show ?thesis
      by (auto simp: asksFor_def serve_def handlerOf_def recoverJSON_def Api_Handlers.handleWriteProperty_def andThen_def sendWrite_def
          orBACnetError_def outcome_def Status_defs handler_simps)
  next
    case (Some err)
    with answer asks auth sent(2) net host kept show ?thesis
      by (auto simp: asksFor_def serve_def handlerOf_def recoverJSON_def Api_Handlers.handleWriteProperty_def andThen_def sendWrite_def
          orBACnetError_def outcome_def writeBACnetError_def asBACnetError_def handler_simps)
  qed
qed

definition demoWrite :: WritePropertyRequest where
  "demoWrite = \<lparr>Property = PropPresentValue, ArrayIndex = None, Object = \<lparr>Type = 4, Instance = 1\<rparr>,
     WriteValue = EnumeratedValue 1, Priority = Some 8\<rparr>"

lemma demo_asks:
  "asksFor W demoServer (demoPut p) (''10.0.0.9'', \<lparr>Type = 4, Instance = 1\<rparr>, PropPresentValue, EnumeratedValue 1, Some 8)"
  by (simp add: asksFor_def demo_objectRef demoPut_fields demo_value demoServer_fields demo_parsed)

lemma demo_small: "length (writeBytes demoWrite) < 65500"
proof -
  have "length (writeBytes demoWrite) \<le> 32" by code_simp
  then show ?thesis by simp
qed

lemma plant_accepts: "snd (writeProperty plantDevice 4 1 PropPresentValue (EnumeratedValue 1) (Some 8)) = None"
  by code_simp

lemma http_write_witness:
  "\<exists>s'. serve plantWorld demoServer WriteProp (demoPut ''10.0.0.1:5555'') (initialState 0)
      = Some (\<lparr>resp_Status = 204, resp_Header = [], resp_Body = NoBody\<rparr>, s')
    \<and> st_writes s' = [(''10.0.0.9'', \<lparr>Type = 4, Instance = 1\<rparr>, PropPresentValue, EnumeratedValue 1, Some 8)]"
proof -
  obtain d' where "writeProperty plantDevice 4 1 PropPresentValue (EnumeratedValue 1) (Some 8) = (d', None)"
    using plant_accepts by (metis prod.collapse)
  then have d': "writeProperty plantDevice (Type \<lparr>Type = 4, Instance = 1\<rparr>) (Instance \<lparr>Type = 4, Instance = 1\<rparr>)
      PropPresentValue (EnumeratedValue 1) (Some 8) = (d', None)" by simp
  have env: "w_env plantWorld = deviceEnv True plantDevice newClient (\<lambda>_. Ok \<lparr>AddrIP = [10, 0, 0, 9], AddrPort = 47808\<rparr>)"
    by (simp add: plantEnv_def)
  have free: "pending newClient 0 = None" by (simp add: newClient_def)
  have wire: "wirePrimitive (EnumeratedValue 1)" by simp
  from http_write [OF env free plant_address demo_asks plant_object wire plant_authorized _ d', where s = "initialState 0"] demo_small
  show ?thesis by (auto simp: demoWrite_def initialState_def)
qed

text \<open>A read of a property whose value is short enough for any reply.\<close>

lemma readOutcome_fits:
  assumes "readProperty d (Type obj) (Instance obj) pid idx = Ok [v]" and "length (valueBytes v) \<le> 1400"
  shows "readOutcome d \<lparr>Property = pid, ArrayIndex = idx, Object = obj\<rparr> = Ok [v]"
proof -
  have "3 + length (ackBytes (ackOf \<lparr>Property = pid, ArrayIndex = idx, Object = obj\<rparr> [v])) \<le> maxAPDU"
    using targetBytes_length [of "ackOf \<lparr>Property = pid, ArrayIndex = idx, Object = obj\<rparr> [v]"] assms(2)
    by (simp add: ackBytes_def ackOf_def maxAPDU_def markerTag_def)
  with assms(1) show ?thesis by (simp add: readOutcome_def)
qed

text \<open>
  C6. What a client writes it reads back. Once the device has accepted a write (as the PUT does
  that asks for it), a GET of the property by a caller who may read it answers 200 with the value
  of the highest priority that is commanded: the value written, unless a higher priority holds
  one; after null at a priority, that of the next lower one, else the property's default.
\<close>

theorem read_back:
  assumes dev: "deviceOk d" "writeProperty d (Type obj) (Instance obj) pid v prio = (d', None)"
    and p: "map_of (propertiesOf d (objectKey (Type obj) (Instance obj))) pid = Some p" "plist p = None"
    and plain: "Type obj \<noteq> ObjectDevice" "pid \<notin> {PropObjectID, PropObjectList}" "wireObject obj"
    and net: "reaches (w_env W) rpm d' (resolveDevice S (hr_deviceId r))"
    and req: "parseObjectRef r = Inr obj" "ParsePropertyIdentifier (hr_property r) = Some pid" "parseIndex (hr_index r) = Some idx"
    and auth: "authorizeVariable W S r (hr_deviceId r) (Some obj) OperationReadProperty s = Some (Continue (c, name), s1)"
    and fits: "length (valueBytes (commanded p (unat (writePriority prio) - 1) v)) \<le> 1400"
  shows "\<exists>resp s'. serve W S GetProperty r s = Some (resp, s') \<and> resp_Status resp = 200
    \<and> resp_Body resp = ValueJSON (JObject [(''value'', jsonValues [commanded p (unat (writePriority prio) - 1) v]),
        (''access'', JString (variableAccess W S c name))])"
proof -
  from dev(2) writeProperty_ok [of d "Type obj" "Instance obj" pid v prio] obtain ps q
    where ps: "map_of (objects d) (objectKey (Type obj) (Instance obj)) = Some ps" "map_of ps pid = Some q" "commandable q"
      and prio: "1 \<le> writePriority prio" "writePriority prio \<le> 16" by auto
  with p have "q = p" by (simp add: propertiesOf_def)
  with ps p(2) have at: "map_of ps pid = Some p" "commandable p" "plist p = None" by auto
  have "thisInstance d (Type obj) (Instance obj) = Instance obj" using plain(1) by (simp add: thisInstance_def)
  from read_after_write [OF dev(1) ps(1) at prio plain(2) this, of v idx] dev(2)
  have "readProperty d' (Type obj) (Instance obj) pid idx = Ok [commanded p (unat (writePriority prio) - 1) v]" by simp
  from readOutcome_fits [OF this fits] serve_get [OF net req plain(3) _ auth] plain(1)
  show ?thesis by (auto simp: propertyValue_def Status_defs)
qed

lemma read_back_witness:
  "\<exists>d' W resp s'. writeProperty plantDevice 4 1 PropPresentValue (EnumeratedValue 1) (Some 8) = (d', None)
    \<and> serve W demoServer GetProperty (demoPut ''10.0.0.1:5555'') (initialState 0) = Some (resp, s')
    \<and> resp_Body resp = ValueJSON (JObject [(''value'', JInteger 1), (''access'', JString ''readwrite'')])"
proof -
  obtain d' where d': "writeProperty plantDevice 4 1 PropPresentValue (EnumeratedValue 1) (Some 8) = (d', None)"
    using plant_accepts by (metis prod.collapse)
  define W where "W = silentWorld\<lparr>w_env := deviceEnv True d' newClient (\<lambda>_. Ok \<lparr>AddrIP = [10, 0, 0, 9], AddrPort = 47808\<rparr>)\<rparr>"
  have "storeOk d'" using storeOk_writeProperty [OF plant_ok(2) _ d'] by (simp add: wire_primitive)
  then have net: "reaches (w_env W) True d' h" for h
    unfolding reaches_def W_def using plant_address
    by (intro conjI exI [of _ newClient] exI [of _ 0] exI) (auto simp: newClient_def)
  have parsed: "ParsePropertyIdentifier (hr_property (demoPut ''10.0.0.1:5555'')) = Some PropPresentValue"
    by (simp add: demoPut_fields demo_parsed)
  have access: "variableAccess W demoServer (newCaller W demoServer (demoPut p) d) name = ''readwrite''" for W p d name
    using demo_allowed by (simp add: variableAccess_def access_defs)
  have at: "map_of (propertiesOf plantDevice (objectKey (Type \<lparr>Type = 4, Instance = 1\<rparr>) (Instance \<lparr>Type = 4, Instance = 1\<rparr>))) PropPresentValue
      = Some (seededProperty 4 PropPresentValue (EnumeratedValue 0))"
    by code_simp
  have w: "plist (seededProperty 4 PropPresentValue (EnumeratedValue 0)) = None"
    "commanded (seededProperty 4 PropPresentValue (EnumeratedValue 0)) 7 (EnumeratedValue 1) = EnumeratedValue 1"
    "unat (writePriority (Some 8)) - Suc 0 = 7"
    "length (valueBytes (EnumeratedValue 1)) \<le> 1400"
    by code_simp+
  have other: "Type \<lparr>Type = 4, Instance = 1\<rparr> \<noteq> ObjectDevice" "PropPresentValue \<notin> {PropObjectID, PropObjectList}"
    by (simp_all add: ObjectDevice_def PropPresentValue_def PropObjectID_def PropObjectList_def)
  from d' have "writeProperty plantDevice (Type \<lparr>Type = 4, Instance = 1\<rparr>) (Instance \<lparr>Type = 4, Instance = 1\<rparr>)
      PropPresentValue (EnumeratedValue 1) (Some 8) = (d', None)" by simp
  from read_back [OF plant_ok(1) this at w(1) other plant_object net demo_objectRef parsed demo_index plant_authorized, where s = "initialState 0"]
  obtain resp s' where "serve W demoServer GetProperty (demoPut ''10.0.0.1:5555'') (initialState 0) = Some (resp, s')"
    "resp_Body resp = ValueJSON (JObject [(''value'', JInteger 1), (''access'', JString ''readwrite'')])"
    using w(4) by (auto simp: w(2,3) access jsonValues_def)
  with d' show ?thesis by blast
qed

section \<open>Instances beyond 22 bits\<close>

text \<open>
  The path of a request takes any 32-bit instance, but the wire has room for 22 bits: an instance
  above is sent as another one, so the request is answered for an object it does not name.
\<close>

lemma instance_aliased:
  "objectIDWord \<lparr>Type = t, Instance = i + 4194304\<rparr> = objectIDWord \<lparr>Type = t, Instance = i\<rparr>"
proof -
  have mask: "(0x3FFFFF :: u32) = mask 22" by (simp add: mask_eq_exp_minus_1)
  have "take_bit 22 (i + 4194304) = take_bit 22 i" by transfer (simp add: take_bit_eq_mod mod_mod_cancel)
  then show ?thesis unfolding objectIDWord_def mask take_bit_eq_mask [symmetric] by simp
qed

lemma request_aliased:
  "EncodeReadPropertyRequest \<lparr>Property = pr, ArrayIndex = idx, Object = \<lparr>Type = t, Instance = i + 4194304\<rparr>\<rparr>
    = EncodeReadPropertyRequest \<lparr>Property = pr, ArrayIndex = idx, Object = \<lparr>Type = t, Instance = i\<rparr>\<rparr>"
  by (simp add: EncodeReadPropertyRequest_eq targetBytes_def oidBytes_def instance_aliased)

section \<open>A device that does not answer\<close>

text \<open>
  When the context of a request ends before an attempt does, no attempt follows, and the error that
  the client returns is not its timeout: the answer is 502 where a timeout would be a 504.
\<close>

lemma context_end:
  "env 0 = CtxDone \<Longrightarrow> attempts env retries 0 = Err ContextError"
  "resp_Status (writeBACnetError (Wrap c ContextError)) = 502"
  "resp_Status (writeBACnetError (Wrap c ErrTimeout)) = 504"
proof -
  show "env 0 = CtxDone \<Longrightarrow> attempts env retries 0 = Err ContextError" by (simp add: attempts.simps)
  show "resp_Status (writeBACnetError (Wrap c ContextError)) = 502"
    by (simp add: writeBACnetError_status asBACnetError_def isErrTimeout_def Status_defs)
  show "resp_Status (writeBACnetError (Wrap c ErrTimeout)) = 504"
    by (simp add: writeBACnetError_status asBACnetError_def asRejectError_def asAbortError_def isErrTimeout_def Status_defs)
qed

end
