(* ===== verification/Api_Cache_Concurrency.thy ===== *)
theory Api_Cache_Concurrency
  imports Api_Cache
begin

text \<open>
  The variable cache of \<^verbatim>\<open>internal/api/varcache.go\<close> with everything that runs at once: any number of
  calls of \<^verbatim>\<open>get\<close>, the goroutine \<^verbatim>\<open>run\<close> that refreshes, time, and \<^verbatim>\<open>close\<close>. A step is what the code
  does between two points where another goroutine can see the difference: one section under
  \<^verbatim>\<open>mu\<close>, one operation on an atomic, one lock or unlock of \<^verbatim>\<open>loadMu\<close>, one load. Entries are
  shared by pointer, so a call can still hold one that a refresh has dropped from the map.
\<close>

section \<open>State\<close>

text \<open>An entry, with the address it was made for, and the call that holds its \<^verbatim>\<open>loadMu\<close>.\<close>

record Cell =
  cell_Host :: string
  cell_Data :: "deviceVars option"
  cell_Used :: int
  cell_Lock :: "nat option"

text \<open>Where a call of \<^verbatim>\<open>get\<close> is; from \<open>Rechecks\<close> to \<open>Unlocks\<close> it holds the lock.\<close>

datatype getPhase =
    Enters
  | Marks nat
  | Checks nat
  | Waits nat
  | Rechecks nat
  | Loads nat
  | Stores nat deviceVars
  | Unlocks nat "deviceVars result"
  | Returned "deviceVars result"

record GetCall =
  call_Host :: string
  call_Phase :: getPhase

text \<open>Where the refreshing goroutine is, with the entries that it still has to look at.\<close>

datatype refreshPhase =
    Sleeps
  | Walks "(string \<times> nat) list"
  | Reloads string nat "(string \<times> nat) list"
  | Replaces nat deviceVars "(string \<times> nat) list"
  | Stopped
  | Crashed

record Shared =
  sh_Map :: "string \<rightharpoonup> nat"
  sh_Cells :: "nat \<rightharpoonup> Cell"
  sh_Calls :: "nat \<rightharpoonup> GetCall"
  sh_Refresh :: refreshPhase
  sh_Now :: int
  sh_Closed :: bool

definition initShared :: Shared where
  "initShared = \<lparr>sh_Map = Map.empty, sh_Cells = Map.empty, sh_Calls = Map.empty, sh_Refresh = Sleeps,
     sh_Now = 0, sh_Closed = False\<rparr>"

definition goto :: "Shared \<Rightarrow> nat \<Rightarrow> GetCall \<Rightarrow> getPhase \<Rightarrow> Shared" where
  "goto s t g p = s\<lparr>sh_Calls := (sh_Calls s)(t \<mapsto> g\<lparr>call_Phase := p\<rparr>)\<rparr>"

definition setCell :: "Shared \<Rightarrow> nat \<Rightarrow> Cell \<Rightarrow> Shared" where
  "setCell s e c = s\<lparr>sh_Cells := (sh_Cells s)(e \<mapsto> c)\<rparr>"

definition newCell :: "string \<Rightarrow> Cell" where
  "newCell h = \<lparr>cell_Host = h, cell_Data = None, cell_Used = 0, cell_Lock = None\<rparr>"

text \<open>The entries that \<^verbatim>\<open>refreshAll\<close> keeps.\<close>

definition kept :: "int \<Rightarrow> Shared \<Rightarrow> string \<rightharpoonup> nat" where
  "kept interval s = (\<lambda>h. case sh_Map s h of
     None \<Rightarrow> None
   | Some e \<Rightarrow>
       (case sh_Cells s e of
          None \<Rightarrow> None
        | Some c \<Rightarrow> if cell_Used c < sh_Now s - idleRefreshes * interval then None else Some e))"

text \<open>What some load of a device can give.\<close>

definition loads :: "Env \<Rightarrow> string \<Rightarrow> deviceVars result \<Rightarrow> bool" where
  "loads E h r \<longleftrightarrow> (\<exists>k l. load E h k = Some (r, l))"

section \<open>Steps\<close>

text \<open>The step of one call of \<^verbatim>\<open>get\<close>.\<close>

inductive getStep :: "Env \<Rightarrow> nat \<Rightarrow> Shared \<Rightarrow> Shared \<Rightarrow> bool" for E t s where
  makes: "sh_Calls s t = Some g \<Longrightarrow> call_Phase g = Enters \<Longrightarrow> sh_Map s (call_Host g) = None \<Longrightarrow> sh_Cells s e = None \<Longrightarrow>
    getStep E t s (goto (setCell (s\<lparr>sh_Map := (sh_Map s)(call_Host g \<mapsto> e)\<rparr>) e (newCell (call_Host g))) t g (Marks e))"
| finds: "sh_Calls s t = Some g \<Longrightarrow> call_Phase g = Enters \<Longrightarrow> sh_Map s (call_Host g) = Some e \<Longrightarrow>
    getStep E t s (goto s t g (Marks e))"
| marks: "sh_Calls s t = Some g \<Longrightarrow> call_Phase g = Marks e \<Longrightarrow> sh_Cells s e = Some c \<Longrightarrow>
    getStep E t s (goto (setCell s e (c\<lparr>cell_Used := sh_Now s\<rparr>)) t g (Checks e))"
| hit: "sh_Calls s t = Some g \<Longrightarrow> call_Phase g = Checks e \<Longrightarrow> sh_Cells s e = Some c \<Longrightarrow> cell_Data c = Some dv \<Longrightarrow>
    getStep E t s (goto s t g (Returned (Ok dv)))"
| miss: "sh_Calls s t = Some g \<Longrightarrow> call_Phase g = Checks e \<Longrightarrow> sh_Cells s e = Some c \<Longrightarrow> cell_Data c = None \<Longrightarrow>
    getStep E t s (goto s t g (Waits e))"
| locks: "sh_Calls s t = Some g \<Longrightarrow> call_Phase g = Waits e \<Longrightarrow> sh_Cells s e = Some c \<Longrightarrow> cell_Lock c = None \<Longrightarrow>
    getStep E t s (goto (setCell s e (c\<lparr>cell_Lock := Some t\<rparr>)) t g (Rechecks e))"
| found: "sh_Calls s t = Some g \<Longrightarrow> call_Phase g = Rechecks e \<Longrightarrow> sh_Cells s e = Some c \<Longrightarrow> cell_Data c = Some dv \<Longrightarrow>
    getStep E t s (goto s t g (Unlocks e (Ok dv)))"
| absent: "sh_Calls s t = Some g \<Longrightarrow> call_Phase g = Rechecks e \<Longrightarrow> sh_Cells s e = Some c \<Longrightarrow> cell_Data c = None \<Longrightarrow>
    getStep E t s (goto s t g (Loads e))"
| loaded: "sh_Calls s t = Some g \<Longrightarrow> call_Phase g = Loads e \<Longrightarrow> loads E (call_Host g) (Ok dv) \<Longrightarrow>
    getStep E t s (goto s t g (Stores e dv))"
| failed: "sh_Calls s t = Some g \<Longrightarrow> call_Phase g = Loads e \<Longrightarrow> loads E (call_Host g) r \<Longrightarrow> \<forall>dv. r \<noteq> Ok dv \<Longrightarrow>
    getStep E t s (goto s t g (Unlocks e r))"
| stores: "sh_Calls s t = Some g \<Longrightarrow> call_Phase g = Stores e dv \<Longrightarrow> sh_Cells s e = Some c \<Longrightarrow>
    getStep E t s (goto (setCell s e (c\<lparr>cell_Data := Some dv\<rparr>)) t g (Unlocks e (Ok dv)))"
| unlocks: "sh_Calls s t = Some g \<Longrightarrow> call_Phase g = Unlocks e r \<Longrightarrow> sh_Cells s e = Some c \<Longrightarrow>
    getStep E t s (goto (setCell s e (c\<lparr>cell_Lock := None\<rparr>)) t g (Returned r))"

text \<open>
  The step of the refreshing goroutine. A refresh looks at all entries at once: a call does not hold
  \<^verbatim>\<open>mu\<close> when it marks its entry, but a mark that falls between two of those looks is as good as one
  after them. It walks over the entries in any order. A failed load ends
  the walk only when the cache is closed; a panic is not recovered there, so it ends the process.
\<close>

inductive refreshStep :: "Env \<Rightarrow> int \<Rightarrow> Shared \<Rightarrow> Shared \<Rightarrow> bool" for E interval s where
  ticks: "sh_Refresh s = Sleeps \<Longrightarrow> set hs = {(h, e). kept interval s h = Some e} \<Longrightarrow> distinct hs \<Longrightarrow>
    refreshStep E interval s (s\<lparr>sh_Map := kept interval s, sh_Refresh := Walks hs\<rparr>)"
| skips: "sh_Refresh s = Walks ((h, e) # hs) \<Longrightarrow> sh_Cells s e = Some c \<Longrightarrow> cell_Data c = None \<Longrightarrow>
    refreshStep E interval s (s\<lparr>sh_Refresh := Walks hs\<rparr>)"
| reloads: "sh_Refresh s = Walks ((h, e) # hs) \<Longrightarrow> sh_Cells s e = Some c \<Longrightarrow> cell_Data c \<noteq> None \<Longrightarrow>
    refreshStep E interval s (s\<lparr>sh_Refresh := Reloads h e hs\<rparr>)"
| reloaded: "sh_Refresh s = Reloads h e hs \<Longrightarrow> loads E h (Ok dv) \<Longrightarrow>
    refreshStep E interval s (s\<lparr>sh_Refresh := Replaces e dv hs\<rparr>)"
| keeps: "sh_Refresh s = Reloads h e hs \<Longrightarrow> loads E h (Err err) \<Longrightarrow>
    refreshStep E interval s (s\<lparr>sh_Refresh := (if sh_Closed s then Sleeps else Walks hs)\<rparr>)"
| crashes: "sh_Refresh s = Reloads h e hs \<Longrightarrow> loads E h Panic \<Longrightarrow>
    refreshStep E interval s (s\<lparr>sh_Refresh := Crashed\<rparr>)"
| replaces: "sh_Refresh s = Replaces e dv hs \<Longrightarrow> sh_Cells s e = Some c \<Longrightarrow>
    refreshStep E interval s ((setCell s e (c\<lparr>cell_Data := Some dv\<rparr>))\<lparr>sh_Refresh := Walks hs\<rparr>)"
| rests: "sh_Refresh s = Walks [] \<Longrightarrow> refreshStep E interval s (s\<lparr>sh_Refresh := Sleeps\<rparr>)"
| stops: "sh_Refresh s = Sleeps \<Longrightarrow> sh_Closed s \<Longrightarrow> refreshStep E interval s (s\<lparr>sh_Refresh := Stopped\<rparr>)"

text \<open>Everything that can happen.\<close>

inductive cacheStep :: "Env \<Rightarrow> int \<Rightarrow> Shared \<Rightarrow> Shared \<Rightarrow> bool" for E interval s where
  calls: "sh_Calls s t = None \<Longrightarrow>
    cacheStep E interval s (s\<lparr>sh_Calls := (sh_Calls s)(t \<mapsto> \<lparr>call_Host = h, call_Phase = Enters\<rparr>)\<rparr>)"
| request: "getStep E t s s' \<Longrightarrow> cacheStep E interval s s'"
| refresh: "refreshStep E interval s s' \<Longrightarrow> cacheStep E interval s s'"
| time: "0 \<le> d \<Longrightarrow> cacheStep E interval s (s\<lparr>sh_Now := sh_Now s + d\<rparr>)"
| closes: "cacheStep E interval s (s\<lparr>sh_Closed := True\<rparr>)"

section \<open>The invariant\<close>

text \<open>The entry that a phase works on, and whether the call holds its lock there.\<close>

fun phaseCell :: "getPhase \<Rightarrow> nat option" where
  "phaseCell (Marks e) = Some e"
| "phaseCell (Checks e) = Some e"
| "phaseCell (Waits e) = Some e"
| "phaseCell (Rechecks e) = Some e"
| "phaseCell (Loads e) = Some e"
| "phaseCell (Stores e dv) = Some e"
| "phaseCell (Unlocks e r) = Some e"
| "phaseCell _ = None"

fun holding :: "getPhase \<Rightarrow> bool" where
  "holding (Rechecks e) = True"
| "holding (Loads e) = True"
| "holding (Stores e dv) = True"
| "holding (Unlocks e r) = True"
| "holding _ = False"

text \<open>A call that is loading: its entry has no snapshot yet.\<close>

fun loading :: "getPhase \<Rightarrow> bool" where
  "loading (Loads e) = True"
| "loading (Stores e dv) = True"
| "loading _ = False"

fun phaseResult :: "getPhase \<Rightarrow> deviceVars result option" where
  "phaseResult (Stores e dv) = Some (Ok dv)"
| "phaseResult (Unlocks e r) = Some r"
| "phaseResult (Returned r) = Some r"
| "phaseResult _ = None"

definition cellOf :: "Shared \<Rightarrow> nat \<Rightarrow> string \<Rightarrow> bool" where
  "cellOf s e h \<longleftrightarrow> (\<exists>c. sh_Cells s e = Some c \<and> cell_Host c = h)"

definition hasData :: "Shared \<Rightarrow> nat \<Rightarrow> bool" where
  "hasData s e \<longleftrightarrow> (\<exists>c. sh_Cells s e = Some c \<and> cell_Data c \<noteq> None)"

definition lockOf :: "Shared \<Rightarrow> nat \<Rightarrow> nat option" where
  "lockOf s e = Option.bind (sh_Cells s e) cell_Lock"

definition mapInv :: "Shared \<Rightarrow> bool" where
  "mapInv s \<longleftrightarrow> (\<forall>h e. sh_Map s h = Some e \<longrightarrow> cellOf s e h)"

definition dataInv :: "Env \<Rightarrow> Shared \<Rightarrow> bool" where
  "dataInv E s \<longleftrightarrow> (\<forall>e c dv. sh_Cells s e = Some c \<and> cell_Data c = Some dv \<longrightarrow> loads E (cell_Host c) (Ok dv))"

definition callOk :: "Env \<Rightarrow> Shared \<Rightarrow> nat \<Rightarrow> GetCall \<Rightarrow> bool" where
  "callOk E s t g \<longleftrightarrow>
    (\<forall>e. phaseCell (call_Phase g) = Some e \<longrightarrow> cellOf s e (call_Host g)
       \<and> (holding (call_Phase g) \<longrightarrow> lockOf s e = Some t) \<and> (loading (call_Phase g) \<longrightarrow> \<not> hasData s e))
    \<and> (\<forall>r. phaseResult (call_Phase g) = Some r \<longrightarrow> loads E (call_Host g) r)"

definition callInv :: "Env \<Rightarrow> Shared \<Rightarrow> bool" where
  "callInv E s \<longleftrightarrow> (\<forall>t g. sh_Calls s t = Some g \<longrightarrow> callOk E s t g)"

definition lockInv :: "Shared \<Rightarrow> bool" where
  "lockInv s \<longleftrightarrow> (\<forall>e t. lockOf s e = Some t \<longrightarrow>
     (\<exists>g. sh_Calls s t = Some g \<and> holding (call_Phase g) \<and> phaseCell (call_Phase g) = Some e))"

fun refreshOk :: "Env \<Rightarrow> Shared \<Rightarrow> refreshPhase \<Rightarrow> bool" where
  "refreshOk E s (Walks hs) = (\<forall>(h, e) \<in> set hs. cellOf s e h)"
| "refreshOk E s (Reloads h e hs) = (cellOf s e h \<and> hasData s e \<and> (\<forall>(h, e) \<in> set hs. cellOf s e h))"
| "refreshOk E s (Replaces e dv hs) = (hasData s e \<and> (\<exists>h. cellOf s e h \<and> loads E h (Ok dv)) \<and> (\<forall>(h, e) \<in> set hs. cellOf s e h))"
| "refreshOk E s _ = True"

definition cacheInv :: "Env \<Rightarrow> Shared \<Rightarrow> bool" where
  "cacheInv E s \<longleftrightarrow> mapInv s \<and> dataInv E s \<and> callInv E s \<and> lockInv s \<and> refreshOk E s (sh_Refresh s)"

text \<open>What each step leaves alone: entries stay, keep their address, and keep having a snapshot.\<close>

named_theorems shared_simps \<open>how updates change the parts of the state\<close>

lemma goto_simps [shared_simps]:
  "sh_Map (goto s t g p) = sh_Map s" "sh_Cells (goto s t g p) = sh_Cells s" "sh_Refresh (goto s t g p) = sh_Refresh s"
  "sh_Calls (goto s t g p) = (sh_Calls s)(t \<mapsto> g\<lparr>call_Phase := p\<rparr>)" "sh_Now (goto s t g p) = sh_Now s"
  by (simp_all add: goto_def)

lemma setCell_simps [shared_simps]:
  "sh_Map (setCell s e c) = sh_Map s" "sh_Cells (setCell s e c) = (sh_Cells s)(e \<mapsto> c)" "sh_Refresh (setCell s e c) = sh_Refresh s"
  "sh_Calls (setCell s e c) = sh_Calls s" "sh_Now (setCell s e c) = sh_Now s"
  by (simp_all add: setCell_def)

lemma views_cong:
  assumes "sh_Cells s' = sh_Cells s"
  shows "cellOf s' = cellOf s" "hasData s' = hasData s" "lockOf s' = lockOf s"
  using assms by (simp_all add: cellOf_def hasData_def lockOf_def fun_eq_iff)

lemma views_goto [shared_simps]:
  "cellOf (goto s t g p) = cellOf s" "hasData (goto s t g p) = hasData s" "lockOf (goto s t g p) = lockOf s"
  by (rule views_cong, simp add: shared_simps)+

lemma views_setCell [shared_simps]:
  "cellOf (setCell s e c) e' h = (if e' = e then cell_Host c = h else cellOf s e' h)"
  "hasData (setCell s e c) e' = (if e' = e then cell_Data c \<noteq> None else hasData s e')"
  "lockOf (setCell s e c) e' = (if e' = e then cell_Lock c else lockOf s e')"
  by (simp_all add: cellOf_def hasData_def lockOf_def shared_simps)

lemma views_update [shared_simps]:
  "cellOf (s\<lparr>sh_Map := m\<rparr>) = cellOf s" "hasData (s\<lparr>sh_Map := m\<rparr>) = hasData s" "lockOf (s\<lparr>sh_Map := m\<rparr>) = lockOf s"
  "cellOf (s\<lparr>sh_Refresh := p\<rparr>) = cellOf s" "hasData (s\<lparr>sh_Refresh := p\<rparr>) = hasData s" "lockOf (s\<lparr>sh_Refresh := p\<rparr>) = lockOf s"
  "cellOf (s\<lparr>sh_Calls := q\<rparr>) = cellOf s" "hasData (s\<lparr>sh_Calls := q\<rparr>) = hasData s" "lockOf (s\<lparr>sh_Calls := q\<rparr>) = lockOf s"
  "cellOf (s\<lparr>sh_Now := n\<rparr>) = cellOf s" "hasData (s\<lparr>sh_Now := n\<rparr>) = hasData s" "lockOf (s\<lparr>sh_Now := n\<rparr>) = lockOf s"
  "cellOf (s\<lparr>sh_Closed := b\<rparr>) = cellOf s" "hasData (s\<lparr>sh_Closed := b\<rparr>) = hasData s" "lockOf (s\<lparr>sh_Closed := b\<rparr>) = lockOf s"
  by (rule views_cong, simp)+

lemma cell_views:
  assumes "sh_Cells s e = Some c"
  shows "cellOf s e h \<longleftrightarrow> cell_Host c = h" "hasData s e \<longleftrightarrow> cell_Data c \<noteq> None" "lockOf s e = cell_Lock c"
  using assms by (simp_all add: cellOf_def hasData_def lockOf_def)

lemma loading_holding: "loading p \<Longrightarrow> holding p"
  by (cases p) simp_all

text \<open>What a call has established survives a change of a cell that respects its lock.\<close>

lemma callOk_setCell:
  assumes "callOk E s u g" and "sh_Cells s e = Some c" and "cell_Host c' = cell_Host c"
    and "cell_Lock c = Some u \<Longrightarrow> cell_Lock c' = Some u \<and> (cell_Data c = None \<longrightarrow> cell_Data c' = None)"
  shows "callOk E (setCell s e c') u g"
  using assms loading_holding [of "call_Phase g"]
  by (auto simp: callOk_def shared_simps cell_views [OF assms(2)] split: if_splits)

lemma callOk_newCell:
  assumes "callOk E s u g" and "sh_Cells s e = None"
  shows "callOk E (setCell s e c') u g"
  using assms by (auto simp: callOk_def shared_simps cellOf_def)

lemma callInv_goto:
  assumes "callInv E s" and "sh_Calls s1 = sh_Calls s"
    and "\<And>u g'. u \<noteq> t \<Longrightarrow> callOk E s u g' \<Longrightarrow> callOk E s1 u g'"
    and "callOk E s1 t (g\<lparr>call_Phase := p\<rparr>)"
  shows "callInv E (goto s1 t g p)"
proof -
  have "callOk E (goto s1 t g p) u g' = callOk E s1 u g'" for u g'
    by (simp add: callOk_def shared_simps)
  with assms show ?thesis by (auto simp: callInv_def shared_simps)
qed

lemma lockInv_goto:
  assumes "lockInv s" and "sh_Calls s1 = sh_Calls s" and "sh_Calls s t = Some g"
    and "\<And>e u. lockOf s1 e = Some u \<Longrightarrow> u \<noteq> t \<and> lockOf s e = Some u \<or> u = t \<and> holding p \<and> phaseCell p = Some e"
  shows "lockInv (goto s1 t g p)"
  unfolding lockInv_def
proof (intro allI impI)
  fix e u
  assume "lockOf (goto s1 t g p) e = Some u"
  with assms(4) consider "u \<noteq> t" "lockOf s e = Some u" | "u = t" "holding p" "phaseCell p = Some e"
    by (auto simp: shared_simps)
  then show "\<exists>g'. sh_Calls (goto s1 t g p) u = Some g' \<and> holding (call_Phase g') \<and> phaseCell (call_Phase g') = Some e"
    using assms(1,2) by cases (auto simp: lockInv_def shared_simps)
qed

text \<open>What holds of one call's entry in a state with the invariant.\<close>

lemma callInvD:
  assumes "cacheInv E s" and "sh_Calls s t = Some g" and "phaseCell (call_Phase g) = Some e" and "sh_Cells s e = Some c"
  shows "cell_Host c = call_Host g" "holding (call_Phase g) \<Longrightarrow> cell_Lock c = Some t"
    "loading (call_Phase g) \<Longrightarrow> cell_Data c = None"
proof -
  from assms(1,2) have "callOk E s t g" by (simp add: cacheInv_def callInv_def)
  with assms(3) show "cell_Host c = call_Host g" "holding (call_Phase g) \<Longrightarrow> cell_Lock c = Some t"
    "loading (call_Phase g) \<Longrightarrow> cell_Data c = None"
    by (simp_all add: callOk_def cell_views [OF assms(4)])
qed

lemma resultD:
  assumes "cacheInv E s" and "sh_Calls s t = Some g" and "phaseResult (call_Phase g) = Some r"
  shows "loads E (call_Host g) r"
  using assms by (auto simp: cacheInv_def callInv_def callOk_def)

lemma dataD: "cacheInv E s \<Longrightarrow> sh_Cells s e = Some c \<Longrightarrow> cell_Data c = Some dv \<Longrightarrow> loads E (cell_Host c) (Ok dv)"
  by (auto simp: cacheInv_def dataInv_def)

lemma mapD: "cacheInv E s \<Longrightarrow> sh_Map s h = Some e \<Longrightarrow> cellOf s e h"
  by (simp add: cacheInv_def mapInv_def)

text \<open>Only the holder's phase names an entry that the call has locked.\<close>

lemma lockD:
  assumes "cacheInv E s" and "sh_Calls s t = Some g" and "lockOf s e = Some t"
  shows "holding (call_Phase g) \<and> phaseCell (call_Phase g) = Some e"
proof -
  from assms(1,3) obtain g' where "sh_Calls s t = Some g'" "holding (call_Phase g')" "phaseCell (call_Phase g') = Some e"
    unfolding cacheInv_def lockInv_def by blast
  with assms(2) show ?thesis by simp
qed

lemma refreshOk_mono:
  assumes "\<And>e h. cellOf s e h \<Longrightarrow> cellOf s' e h" and "\<And>e. hasData s e \<Longrightarrow> hasData s' e" and "refreshOk E s p"
  shows "refreshOk E s' p"
  using assms by (cases p) auto

section \<open>Every step keeps the invariant\<close>

text \<open>The steps of a call that change no entry.\<close>

lemma inv_goto:
  assumes inv: "cacheInv E s" and t: "sh_Calls s t = Some g"
    and own: "callOk E s t (g\<lparr>call_Phase := p\<rparr>)"
    and lock: "\<And>e. holding (call_Phase g) \<Longrightarrow> phaseCell (call_Phase g) = Some e \<Longrightarrow> holding p \<and> phaseCell p = Some e"
  shows "cacheInv E (goto s t g p)"
proof -
  have "callInv E (goto s t g p)" using inv own by (intro callInv_goto) (auto simp: cacheInv_def)
  moreover have "lockInv (goto s t g p)"
  proof (rule lockInv_goto)
    show "lockInv s" using inv by (simp add: cacheInv_def)
    show "u \<noteq> t \<and> lockOf s e = Some u \<or> u = t \<and> holding p \<and> phaseCell p = Some e" if "lockOf s e = Some u" for e u
      using that lockD [OF inv t, of e] lock [of e] by blast
  qed (use t in simp_all)
  moreover have "refreshOk E (goto s t g p) (sh_Refresh s)"
    by (rule refreshOk_mono [of s]) (use inv in \<open>simp_all add: cacheInv_def shared_simps\<close>)
  ultimately show ?thesis
    using inv by (auto simp: cacheInv_def mapInv_def dataInv_def shared_simps)
qed

text \<open>The steps of a call that change its entry.\<close>

lemma inv_setCell:
  assumes inv: "cacheInv E s" and t: "sh_Calls s t = Some g" and c: "sh_Cells s e = Some c"
    and host: "cell_Host c' = cell_Host c"
    and data: "cell_Data c' = cell_Data c \<or> (\<exists>dv. cell_Data c' = Some dv \<and> loads E (cell_Host c) (Ok dv)) \<and> cell_Lock c = Some t"
    and others: "\<And>u. u \<noteq> t \<Longrightarrow> cell_Lock c = Some u \<Longrightarrow> cell_Lock c' = Some u"
    and own: "callOk E (setCell s e c') t (g\<lparr>call_Phase := p\<rparr>)"
    and lock: "\<And>e' u. lockOf (setCell s e c') e' = Some u \<Longrightarrow>
      u \<noteq> t \<and> lockOf s e' = Some u \<or> u = t \<and> holding p \<and> phaseCell p = Some e'"
  shows "cacheInv E (goto (setCell s e c') t g p)"
proof -
  have "callInv E (goto (setCell s e c') t g p)"
  proof (rule callInv_goto)
    show "callInv E s" using inv by (simp add: cacheInv_def)
    show "callOk E (setCell s e c') u g'" if "u \<noteq> t" "callOk E s u g'" for u g'
      using that c host data others by (intro callOk_setCell [of E s u g' e c]) auto
  qed (use own in \<open>simp_all add: shared_simps\<close>)
  moreover have "lockInv (goto (setCell s e c') t g p)"
  proof (rule lockInv_goto)
    show "lockInv s" using inv by (simp add: cacheInv_def)
    show "sh_Calls (setCell s e c') = sh_Calls s" by (simp add: shared_simps)
  qed (rule t, rule lock)
  moreover have "refreshOk E (goto (setCell s e c') t g p) (sh_Refresh s)"
    by (rule refreshOk_mono [of s]) (use inv host data in \<open>auto simp: cacheInv_def shared_simps cell_views [OF c]\<close>)
  moreover have "mapInv (goto (setCell s e c') t g p)"
    using mapD [OF inv] host by (fastforce simp: mapInv_def shared_simps cell_views [OF c])
  moreover have "dataInv E (goto (setCell s e c') t g p)"
    using inv host data dataD [OF inv c] by (auto simp: cacheInv_def dataInv_def shared_simps split: if_splits)
  ultimately show ?thesis by (simp add: cacheInv_def shared_simps)
qed

lemma callD: "cacheInv E s \<Longrightarrow> sh_Calls s t = Some g \<Longrightarrow> callOk E s t g"
  by (simp add: cacheInv_def callInv_def)

lemma getStep_inv:
  assumes "getStep E t s s'" and inv: "cacheInv E s"
  shows "cacheInv E s'"
  using assms(1)
proof cases
  case (makes g e)
  let ?s1 = "setCell (s\<lparr>sh_Map := (sh_Map s)(call_Host g \<mapsto> e)\<rparr>) e (newCell (call_Host g))"
  have fresh: "\<not> cellOf s e h" "\<not> hasData s e" "lockOf s e = None" for h
    using makes(5) by (simp_all add: cellOf_def hasData_def lockOf_def)
  have free: "lockOf s e' \<noteq> Some t" for e' using lockD [OF inv makes(2), of e'] makes(3) by auto
  have "callInv E (goto ?s1 t g (Marks e))"
  proof (rule callInv_goto)
    show "callInv E s" using inv by (simp add: cacheInv_def)
    show "callOk E ?s1 u g'" if "callOk E s u g'" for u g'
      using that fresh by (auto simp: callOk_def shared_simps)
  qed (simp_all add: shared_simps callOk_def newCell_def)
  moreover have "lockInv (goto ?s1 t g (Marks e))"
  proof (rule lockInv_goto)
    show "lockInv s" using inv by (simp add: cacheInv_def)
    show "u \<noteq> t \<and> lockOf s e' = Some u \<or> u = t \<and> holding (Marks e) \<and> phaseCell (Marks e) = Some e'"
      if "lockOf ?s1 e' = Some u" for e' u
      using that free by (auto simp: shared_simps newCell_def split: if_splits)
  qed (use makes(2) in \<open>simp_all add: shared_simps\<close>)
  moreover have "refreshOk E (goto ?s1 t g (Marks e)) (sh_Refresh s)"
    by (rule refreshOk_mono [of s]) (use inv fresh in \<open>auto simp: cacheInv_def shared_simps\<close>)
  moreover have "mapInv (goto ?s1 t g (Marks e))"
    using mapD [OF inv] fresh by (fastforce simp: mapInv_def shared_simps newCell_def)
  moreover have "dataInv E (goto ?s1 t g (Marks e))"
    using inv by (auto simp: cacheInv_def dataInv_def shared_simps newCell_def split: if_splits)
  ultimately show ?thesis unfolding makes(1) by (simp add: cacheInv_def shared_simps)
next
  case (finds g e)
  with inv have "cellOf s e (call_Host g)" by (simp add: cacheInv_def mapInv_def)
  with finds show ?thesis by (auto intro!: inv_goto [OF inv] simp: callOk_def)
next
  case (marks g e c)
  have free: "lockOf s e' \<noteq> Some t" for e' using lockD [OF inv marks(2), of e'] marks(3) by auto
  then have "cell_Lock c \<noteq> Some t" by (metis cell_views(3) marks(4))
  with free show ?thesis
    unfolding marks(1) using callD [OF inv marks(2)] marks(3)
    by (intro inv_setCell [OF inv marks(2,4)]) (auto simp: callOk_def shared_simps cell_views [OF marks(4)] split: if_splits)
next
  case (hit g e c dv)
  with callD [OF inv hit(2)] dataD [OF inv hit(4,5)] show ?thesis
    by (auto intro!: inv_goto [OF inv] simp: callOk_def cell_views)
next
  case (miss g e c)
  with callD [OF inv miss(2)] show ?thesis
    by (auto intro!: inv_goto [OF inv] simp: callOk_def)
next
  case (locks g e c)
  have "lockOf s e' \<noteq> Some t" for e' using lockD [OF inv locks(2), of e'] locks(3) by auto
  then show ?thesis
    unfolding locks(1) using callD [OF inv locks(2)] locks(3,5)
    by (intro inv_setCell [OF inv locks(2,4)]) (auto simp: callOk_def shared_simps cell_views [OF locks(4)] split: if_splits)
next
  case (found g e c dv)
  with callD [OF inv found(2)] dataD [OF inv found(4,5)] show ?thesis
    by (auto intro!: inv_goto [OF inv] simp: callOk_def cell_views)
next
  case (absent g e c)
  with callD [OF inv absent(2)] show ?thesis
    by (auto intro!: inv_goto [OF inv] simp: callOk_def cell_views)
next
  case (loaded g e dv)
  with callD [OF inv loaded(2)] show ?thesis
    by (auto intro!: inv_goto [OF inv] simp: callOk_def)
next
  case (failed g e r)
  with callD [OF inv failed(2)] show ?thesis
    by (auto intro!: inv_goto [OF inv] simp: callOk_def)
next
  case (stores g e dv c)
  have own: "cell_Host c = call_Host g" "cell_Lock c = Some t" using callInvD [OF inv stores(2) _ stores(4)] stores(3) by simp_all
  have mine: "lockOf s e' = Some t \<Longrightarrow> e' = e" for e' using lockD [OF inv stores(2), of e'] stores(3) by simp
  show ?thesis
    unfolding stores(1) using callD [OF inv stores(2)] stores(3) own mine
    by (intro inv_setCell [OF inv stores(2,4)]) (auto simp: callOk_def shared_simps cell_views [OF stores(4)] split: if_splits)
next
  case (unlocks g e r c)
  have own: "cell_Host c = call_Host g" "cell_Lock c = Some t" using callInvD [OF inv unlocks(2) _ unlocks(4)] unlocks(3) by simp_all
  have mine: "lockOf s e' = Some t \<Longrightarrow> e' = e" for e' using lockD [OF inv unlocks(2), of e'] unlocks(3) by simp
  show ?thesis
    unfolding unlocks(1) using callD [OF inv unlocks(2)] unlocks(3) own mine
    by (intro inv_setCell [OF inv unlocks(2,4)]) (auto simp: callOk_def shared_simps cell_views [OF unlocks(4)] split: if_splits)
qed

text \<open>The steps that change neither entries nor calls.\<close>

lemma cacheInv_frame:
  assumes inv: "cacheInv E s" and same: "sh_Cells s' = sh_Cells s" "sh_Calls s' = sh_Calls s"
    and map: "\<And>h e. sh_Map s' h = Some e \<Longrightarrow> sh_Map s h = Some e" and refresh: "refreshOk E s (sh_Refresh s')"
  shows "cacheInv E s'"
proof -
  note views = views_cong [OF same(1)]
  have "refreshOk E s' q = refreshOk E s q" for q by (cases q) (simp_all add: views)
  moreover have "callOk E s' = callOk E s" by (simp add: callOk_def views fun_eq_iff)
  ultimately show ?thesis
    using inv map refresh by (auto simp: cacheInv_def callInv_def lockInv_def dataInv_def mapInv_def views same)
qed

lemma refreshStep_inv:
  assumes "refreshStep E interval s s'" and inv: "cacheInv E s"
  shows "cacheInv E s'"
proof -
  have walk: "cacheInv E (s\<lparr>sh_Refresh := p\<rparr>)" if "refreshOk E s p" for p
    using that by (intro cacheInv_frame [OF inv]) simp_all
  have now: "refreshOk E s (sh_Refresh s)" using inv by (simp add: cacheInv_def)
  from assms(1) show ?thesis
  proof cases
    case (ticks hs)
    have kept: "sh_Map s h = Some e" if "kept interval s h = Some e" for h e
      using that by (auto simp: kept_def split: option.splits if_splits)
    then have "\<forall>(h, e) \<in> set hs. cellOf s e h" using ticks(3) mapD [OF inv] by auto
    then show ?thesis unfolding ticks(1) using kept by (intro cacheInv_frame [OF inv]) simp_all
  next
    case (replaces e dv hs c)
    then have c: "sh_Cells s e = Some c" and old: "cell_Data c \<noteq> None" and new: "loads E (cell_Host c) (Ok dv)"
      and rest: "\<forall>(h, e) \<in> set hs. cellOf s e h"
      using now by (auto simp: cell_views)
    let ?s1 = "setCell s e (c\<lparr>cell_Data := Some dv\<rparr>)"
    have "callInv E (?s1\<lparr>sh_Refresh := Walks hs\<rparr>)"
      unfolding callInv_def
    proof (intro allI impI)
      fix t g assume "sh_Calls (?s1\<lparr>sh_Refresh := Walks hs\<rparr>) t = Some g"
      then have "callOk E s t g" using callD [OF inv] by (simp add: shared_simps)
      then have "callOk E ?s1 t g" by (rule callOk_setCell [OF _ c]) (use old in simp_all)
      then show "callOk E (?s1\<lparr>sh_Refresh := Walks hs\<rparr>) t g" by (simp add: callOk_def shared_simps)
    qed
    moreover have "lockInv (?s1\<lparr>sh_Refresh := Walks hs\<rparr>)"
      using inv by (auto simp: cacheInv_def lockInv_def shared_simps cell_views [OF c, symmetric])
    moreover have "mapInv (?s1\<lparr>sh_Refresh := Walks hs\<rparr>)"
      using mapD [OF inv] by (fastforce simp: mapInv_def shared_simps cell_views [OF c])
    moreover have "dataInv E (?s1\<lparr>sh_Refresh := Walks hs\<rparr>)"
      using inv new by (auto simp: cacheInv_def dataInv_def shared_simps split: if_splits)
    moreover have "refreshOk E (?s1\<lparr>sh_Refresh := Walks hs\<rparr>) (Walks hs)"
      using rest by (fastforce simp: shared_simps cell_views [OF c])
    ultimately show ?thesis unfolding replaces(1) by (simp add: cacheInv_def shared_simps)
  qed (use now in \<open>auto intro!: walk simp: cell_views split: if_splits\<close>)
qed

lemma cacheStep_inv:
  assumes "cacheStep E interval s s'" and inv: "cacheInv E s"
  shows "cacheInv E s'"
  using assms(1)
proof cases
  case (calls t h)
  have lock: "lockOf s e \<noteq> Some t" for e
  proof
    assume "lockOf s e = Some t"
    with inv obtain g where "sh_Calls s t = Some g" unfolding cacheInv_def lockInv_def by blast
    with calls(2) show False by simp
  qed
  have "refreshOk E s' q = refreshOk E s q" for q unfolding calls(1) by (cases q) (simp_all add: shared_simps)
  moreover have "callOk E s' = callOk E s" unfolding calls(1) by (simp add: callOk_def shared_simps fun_eq_iff)
  moreover have "callOk E s t \<lparr>call_Host = h, call_Phase = Enters\<rparr>" by (simp add: callOk_def)
  moreover have "lockInv s'"
    unfolding lockInv_def
  proof (intro allI impI)
    fix e u assume "lockOf s' e = Some u"
    then have "lockOf s e = Some u" by (simp add: calls(1) shared_simps)
    moreover from this lock have "u \<noteq> t" by auto
    ultimately show "\<exists>g. sh_Calls s' u = Some g \<and> holding (call_Phase g) \<and> phaseCell (call_Phase g) = Some e"
      using inv by (simp add: cacheInv_def lockInv_def calls(1))
  qed
  ultimately show ?thesis
    using inv by (auto simp: cacheInv_def callInv_def dataInv_def mapInv_def calls(1) shared_simps)
next
  case (time d)
  then show ?thesis using inv by (intro cacheInv_frame [OF inv]) (simp_all add: cacheInv_def)
next
  case closes
  then show ?thesis using inv by (intro cacheInv_frame [OF inv]) (simp_all add: cacheInv_def)
qed (use inv getStep_inv refreshStep_inv in blast)+

lemma inv_start: "cacheInv E initShared"
  by (simp add: cacheInv_def initShared_def mapInv_def dataInv_def callInv_def lockInv_def lockOf_def)

lemma reachable_cacheInv: "(cacheStep E interval)\<^sup>*\<^sup>* initShared s \<Longrightarrow> cacheInv E s"
  by (induction rule: rtranclp_induct) (auto intro: inv_start cacheStep_inv)

end
