(* ===== verification/Api_Cache_Theorems.thy ===== *)
theory Api_Cache_Theorems
  imports Api_Cache_Concurrency
begin

text \<open>
  The properties of the variable cache under concurrency: what a call returns, who loads, that no
  call is stuck, and that a call that runs alone does what the function \<open>get\<close> does.
\<close>

section \<open>Safety\<close>

lemma getStep_hasData:
  assumes "getStep E t s s'" and "hasData s e"
  shows "hasData s' e"
proof -
  from assms(2) have "sh_Cells s e \<noteq> None" by (auto simp: hasData_def)
  with assms show ?thesis by (cases) (auto simp: shared_simps cell_views)
qed

lemma cacheStep_hasData:
  assumes "cacheStep E interval s s'" and "hasData s e"
  shows "hasData s' e"
  using assms(1)
proof cases
  case (request t)
  with getStep_hasData assms(2) show ?thesis by blast
next
  case refresh
  then show ?thesis using assms(2) by cases (auto simp: shared_simps)
qed (use assms(2) in \<open>simp_all add: shared_simps\<close>)

text \<open>The refreshing goroutine is loading for an entry.\<close>

fun refreshing :: "refreshPhase \<Rightarrow> nat option" where
  "refreshing (Reloads h e hs) = Some e"
| "refreshing (Replaces e dv hs) = Some e"
| "refreshing _ = None"

text \<open>The cache of the sequential model: the entries that the map reaches.\<close>

definition entryOf :: "Cell \<Rightarrow> cacheEntry" where
  "entryOf c = \<lparr>ce_data = cell_Data c, ce_lastUsed = cell_Used c\<rparr>"

definition entriesOf :: "int \<Rightarrow> Shared \<Rightarrow> varCache" where
  "entriesOf interval s = \<lparr>vc_interval = interval,
     vc_entries = (\<lambda>h. Option.bind (sh_Map s h) (\<lambda>e. map_option entryOf (sh_Cells s e)))\<rparr>"

lemma entriesOf_ok:
  assumes "cacheInv E s" and "0 < interval"
  shows "cacheOk E (entriesOf interval s)"
proof -
  have "\<exists>k l. load E h k = Some (Ok dv, l)" if "cached (entriesOf interval s) h = Some dv" for h dv
  proof -
    from that obtain e c where e: "sh_Map s h = Some e" "sh_Cells s e = Some c" "cell_Data c = Some dv"
      by (auto simp: cached_def entriesOf_def entryOf_def bind_eq_Some_conv)
    with mapD [OF assms(1) e(1)] dataD [OF assms(1) e(2,3)] show ?thesis by (auto simp: cellOf_def loads_def)
  qed
  with assms(2) show ?thesis by (simp add: cacheOk_def entriesOf_def)
qed

text \<open>
  C17. However requests, refreshes and time interleave: what a call returns for an address was loaded
  from that address (a snapshot that is well formed, with names that the device gave); for one
  entry at most one goroutine loads at a time, a request only as long as there is no snapshot,
  the refresh only when there is one; no step ever loses a snapshot of an entry; and the cache that a
  request finds is at every moment one of those that the theorems about single requests assume.
\<close>

theorem cache_concurrent:
  assumes "(cacheStep E interval)\<^sup>*\<^sup>* initShared s"
  shows "(\<forall>t g r. sh_Calls s t = Some g \<and> call_Phase g = Returned r \<longrightarrow> loads E (call_Host g) r
      \<and> (\<forall>dv. r = Ok dv \<longrightarrow> snapshotOk dv \<and> (\<forall>v \<in> set (dv_vars dv). var_Name v \<in> givenNames E (call_Host g) (var_Object v))))
    \<and> (\<forall>t u g g' e. sh_Calls s t = Some g \<and> loading (call_Phase g) \<and> phaseCell (call_Phase g) = Some e
        \<and> sh_Calls s u = Some g' \<and> loading (call_Phase g') \<and> phaseCell (call_Phase g') = Some e \<longrightarrow> t = u)
    \<and> (\<forall>t g e. sh_Calls s t = Some g \<and> loading (call_Phase g) \<and> phaseCell (call_Phase g) = Some e
        \<longrightarrow> \<not> hasData s e \<and> refreshing (sh_Refresh s) \<noteq> Some e)
    \<and> (\<forall>s' e. cacheStep E interval s s' \<and> hasData s e \<longrightarrow> hasData s' e)
    \<and> (0 < interval \<longrightarrow> cacheOk E (entriesOf interval s))"
proof -
  note inv = reachable_cacheInv [OF assms]
  note call = callD [OF inv, unfolded callOk_def]
  have own: "lockOf s e = Some t \<and> \<not> hasData s e"
    if "sh_Calls s t = Some g" "loading (call_Phase g)" "phaseCell (call_Phase g) = Some e" for t g e
    using call [OF that(1)] that loading_holding by blast
  have old: "hasData s e" if "refreshing (sh_Refresh s) = Some e" for e
    using inv that by (cases "sh_Refresh s") (auto simp: cacheInv_def)
  have snap: "snapshotOk dv \<and> (\<forall>v \<in> set (dv_vars dv). var_Name v \<in> givenNames E h (var_Object v))"
    if "loads E h (Ok dv)" for h dv
    using that load_snapshotOk load_named by (auto simp: loads_def)
  show ?thesis
  proof (intro conjI allI impI)
    fix t g r assume "sh_Calls s t = Some g \<and> call_Phase g = Returned r"
    with call [of t g] show loads: "loads E (call_Host g) r" by simp
    fix dv assume "r = Ok dv"
    with loads snap [of "call_Host g" dv] show "snapshotOk dv"
      and "\<forall>v \<in> set (dv_vars dv). var_Name v \<in> givenNames E (call_Host g) (var_Object v)" by simp_all
  next
    fix t u g g' e
    assume "sh_Calls s t = Some g \<and> loading (call_Phase g) \<and> phaseCell (call_Phase g) = Some e
      \<and> sh_Calls s u = Some g' \<and> loading (call_Phase g') \<and> phaseCell (call_Phase g') = Some e"
    with own [of t g e] own [of u g' e] show "t = u" by simp
  next
    fix t g e assume "sh_Calls s t = Some g \<and> loading (call_Phase g) \<and> phaseCell (call_Phase g) = Some e"
    with own [of t g e] old [of e] show "\<not> hasData s e" and "refreshing (sh_Refresh s) \<noteq> Some e" by auto
  next
    assume "0 < interval"
    with inv show "cacheOk E (entriesOf interval s)" by (rule entriesOf_ok)
  qed (use cacheStep_hasData in blast)
qed

section \<open>Progress\<close>

text \<open>How many steps of its own a call has left.\<close>

fun stepsLeft :: "getPhase \<Rightarrow> nat" where
  "stepsLeft Enters = 8"
| "stepsLeft (Marks e) = 7"
| "stepsLeft (Checks e) = 6"
| "stepsLeft (Waits e) = 5"
| "stepsLeft (Rechecks e) = 4"
| "stepsLeft (Loads e) = 3"
| "stepsLeft (Stores e dv) = 2"
| "stepsLeft (Unlocks e r) = 1"
| "stepsLeft (Returned r) = 0"

definition left :: "Shared \<Rightarrow> nat \<Rightarrow> nat" where
  "left s t = (case sh_Calls s t of Some g \<Rightarrow> stepsLeft (call_Phase g) | None \<Rightarrow> 9)"

lemma getStep_left:
  assumes "getStep E t s s'"
  shows "left s' t < left s t" and "u \<noteq> t \<Longrightarrow> left s' u = left s u"
  using assms by (cases, auto simp: left_def shared_simps)+

lemma cacheStep_left: "cacheStep E interval s s' \<Longrightarrow> left s' t \<le> left s t"
proof (induction rule: cacheStep.induct)
  case (request u s')
  then show ?case using getStep_left [of E u s s'] by (cases "t = u") (simp_all add: less_imp_le)
next
  case (refresh s')
  then show ?case by cases (simp_all add: left_def shared_simps)
qed (auto simp: left_def)

text \<open>A call can take a step unless it waits for the lock of its entry.\<close>

lemma getStep_enabled:
  assumes inv: "cacheInv E s" and t: "sh_Calls s t = Some g" and busy: "\<forall>r. call_Phase g \<noteq> Returned r"
    and loads: "\<exists>r. loads E (call_Host g) r" and room: "\<exists>e. sh_Cells s e = None"
    and free: "\<And>e. call_Phase g = Waits e \<Longrightarrow> lockOf s e = None"
  shows "\<exists>s'. getStep E t s s'"
proof -
  have cell: "\<exists>c. sh_Cells s e = Some c" if "phaseCell (call_Phase g) = Some e" for e
    using callD [OF inv t] that by (auto simp: callOk_def cellOf_def)
  note steps = getStep.intros [OF t]
  show ?thesis
  proof (cases "call_Phase g")
    case Enters
    then show ?thesis using steps(1,2) room by (cases "sh_Map s (call_Host g)") blast+
  next
    case (Marks e)
    then show ?thesis using steps(3) cell by fastforce
  next
    case (Checks e)
    then obtain c where "sh_Cells s e = Some c" using cell by fastforce
    then show ?thesis using steps(4,5) Checks by (cases "cell_Data c") blast+
  next
    case (Waits e)
    then obtain c where "sh_Cells s e = Some c" using cell by fastforce
    then show ?thesis using steps(6) Waits free cell_views(3) by metis
  next
    case (Rechecks e)
    then obtain c where "sh_Cells s e = Some c" using cell by fastforce
    then show ?thesis using steps(7,8) Rechecks by (cases "cell_Data c") blast+
  next
    case (Loads e)
    from loads obtain r where "loads E (call_Host g) r" by blast
    then show ?thesis using steps(9,10) Loads by (cases r) blast+
  next
    case (Stores e dv)
    then show ?thesis using steps(11) cell by fastforce
  next
    case (Unlocks e r)
    then show ?thesis using steps(12) cell by fastforce
  qed (use busy in blast)
qed

text \<open>There is always room for a new entry: only finitely many were ever made.\<close>

lemma finite_cells: "(cacheStep E interval)\<^sup>*\<^sup>* initShared s \<Longrightarrow> finite (dom (sh_Cells s))"
proof (induction rule: rtranclp_induct)
  case (step s s')
  from step(2) show ?case
  proof cases
    case (request t)
    from request step(3) show ?thesis by cases (simp_all add: goto_simps setCell_simps del: fun_upd_apply)
  next
    case refresh
    from refresh step(3) show ?thesis by cases (simp_all add: setCell_simps del: fun_upd_apply)
  qed (use step(3) in simp_all)
qed (simp add: initShared_def)

lemma room: "(cacheStep E interval)\<^sup>*\<^sup>* initShared s \<Longrightarrow> \<exists>e. sh_Cells s e = None"
  using finite_cells ex_new_if_finite [OF infinite_UNIV_nat, of "dom (sh_Cells s)"] by (auto simp: domIff)

text \<open>
  C24. No call of the cache is stuck, whatever the others do, as long as loads return: a call that has
  not returned can take a step itself, or it waits for the lock of its entry and the call that
  holds that lock can take one. Every such step brings its call closer to its end, nothing ever
  takes a call back, and a call has at most eight steps.
\<close>

theorem cache_progress:
  assumes "(cacheStep E interval)\<^sup>*\<^sup>* initShared s" and "\<forall>h. \<exists>r. loads E h r"
    and "sh_Calls s t = Some g" and "\<forall>r. call_Phase g \<noteq> Returned r"
  shows "(\<exists>u s'. getStep E u s s' \<and> left s' u < left s u
      \<and> (u = t \<or> (\<exists>e. call_Phase g = Waits e \<and> lockOf s e = Some u)))
    \<and> (\<forall>s' u. cacheStep E interval s s' \<longrightarrow> left s' u \<le> left s u) \<and> left s t \<le> 8"
proof -
  note inv = reachable_cacheInv [OF assms(1)]
  have "\<exists>u s'. getStep E u s s' \<and> (u = t \<or> (\<exists>e. call_Phase g = Waits e \<and> lockOf s e = Some u))"
  proof (cases "\<exists>e u. call_Phase g = Waits e \<and> lockOf s e = Some u")
    case True
    then obtain e u where u: "call_Phase g = Waits e" "lockOf s e = Some u" by blast
    with inv obtain g' where g': "sh_Calls s u = Some g'" "holding (call_Phase g')" unfolding cacheInv_def lockInv_def by blast
    then have "\<exists>s'. getStep E u s s'"
      using assms(2) by (intro getStep_enabled [OF inv g'(1) _ _ room [OF assms(1)]]) auto
    with u show ?thesis by blast
  next
    case False
    then have "\<exists>s'. getStep E t s s'"
      using assms(2,4) by (intro getStep_enabled [OF inv assms(3) _ _ room [OF assms(1)]]) auto
    then show ?thesis by blast
  qed
  moreover have "left s t \<le> 8"
    using assms(3) by (cases "call_Phase g") (simp_all add: left_def)
  ultimately show ?thesis using getStep_left(1) cacheStep_left by blast
qed

section \<open>One call alone\<close>

lemma entriesOf_goto [simp]: "entriesOf i (goto s t g p) = entriesOf i s"
  by (simp add: entriesOf_def shared_simps)

lemma bind_other:
  "m \<noteq> Some e \<Longrightarrow> Option.bind m (\<lambda>a. map_option f (if a = e then x else k a)) = Option.bind m (\<lambda>a. map_option f (k a))"
  by (cases m) auto

lemma entriesOf_setCell:
  assumes "cacheInv E s" and "sh_Map s h = Some e"
  shows "entriesOf i (setCell s e c) = putEntry h (entryOf c) (entriesOf i s)"
proof -
  have other: "sh_Map s h' \<noteq> Some e" if "h' \<noteq> h" for h'
    using mapD [OF assms(1), of h' e] mapD [OF assms] that by (auto simp: cellOf_def)
  have "Option.bind (sh_Map s h') (\<lambda>a. map_option entryOf (if a = e then Some c else sh_Cells s a))
      = (if h' = h then Some (entryOf c) else Option.bind (sh_Map s h') (\<lambda>a. map_option entryOf (sh_Cells s a)))" for h'
    using assms(2) by (simp add: bind_other other)
  then show ?thesis by (simp add: entriesOf_def putEntry_def shared_simps fun_eq_iff)
qed

lemma entriesOf_new:
  assumes "cacheInv E s" and "sh_Map s h = None" and "sh_Cells s e = None"
  shows "entriesOf i (setCell (s\<lparr>sh_Map := (sh_Map s)(h \<mapsto> e)\<rparr>) e c) = putEntry h (entryOf c) (entriesOf i s)"
proof -
  have "sh_Map s h' \<noteq> Some e" for h'
    using mapD [OF assms(1), of h' e] assms(3) by (auto simp: cellOf_def)
  then show ?thesis by (simp add: entriesOf_def putEntry_def shared_simps fun_eq_iff bind_other)
qed

lemma putEntry_putEntry [simp]: "putEntry h e' (putEntry h e c) = putEntry h e' c"
  by (simp add: putEntry_def)

text \<open>The call's state after \<open>n\<close> of its steps: only its entry and its own phase have changed.\<close>

definition alone :: "int \<Rightarrow> nat \<Rightarrow> Shared \<Rightarrow> nat \<Rightarrow> Cell \<Rightarrow> getPhase \<Rightarrow> Shared \<Rightarrow> bool" where
  "alone i t s e c p s' \<longleftrightarrow>
    (\<exists>g. sh_Calls s t = Some g \<and> sh_Calls s' = (sh_Calls s)(t \<mapsto> g\<lparr>call_Phase := p\<rparr>)
      \<and> sh_Map s' (call_Host g) = Some e \<and> sh_Cells s' e = Some c
      \<and> entriesOf i s' = putEntry (call_Host g) (entryOf c) (entriesOf i s))
    \<and> (\<forall>e'. e' \<noteq> e \<longrightarrow> lockOf s' e' = lockOf s e') \<and> sh_Now s' = sh_Now s"

lemma alone_enter:
  assumes inv: "cacheInv E s" and t: "sh_Calls s t = Some g" "call_Phase g = Enters"
    and room: "\<exists>e. sh_Cells s e = None"
    and free: "\<And>e. sh_Map s (call_Host g) = Some e \<Longrightarrow> lockOf s e = None"
  shows "\<exists>s' e c. (getStep E t)\<^sup>*\<^sup>* s s' \<and> alone i t s e c (Checks e) s' \<and> cell_Lock c = None \<and> lockOf s e = None
    \<and> entryOf c = useEntry (sh_Now s) (call_Host g) (entriesOf i s)"
proof (cases "sh_Map s (call_Host g)")
  case None
  from room obtain e where e: "sh_Cells s e = None" by blast
  let ?new = "setCell (s\<lparr>sh_Map := (sh_Map s)(call_Host g \<mapsto> e)\<rparr>) e (newCell (call_Host g))"
  let ?c = "newCell (call_Host g)\<lparr>cell_Used := sh_Now s\<rparr>"
  let ?s' = "goto (setCell (goto ?new t g (Marks e)) e ?c) t (g\<lparr>call_Phase := Marks e\<rparr>) (Checks e)"
  have "getStep E t s (goto ?new t g (Marks e))" by (rule getStep.makes [OF t None e])
  moreover have "getStep E t (goto ?new t g (Marks e)) ?s'"
    using getStep.marks [of "goto ?new t g (Marks e)" t "g\<lparr>call_Phase := Marks e\<rparr>" e "newCell (call_Host g)" E]
    by (simp add: shared_simps)
  moreover have "entriesOf i (setCell (goto ?new t g (Marks e)) e ?c)
      = entriesOf i (setCell (s\<lparr>sh_Map := (sh_Map s)(call_Host g \<mapsto> e)\<rparr>) e ?c)"
    by (simp add: entriesOf_def shared_simps)
  moreover have "entryOf ?c = useEntry (sh_Now s) (call_Host g) (entriesOf i s)"
    using None by (simp add: entryOf_def newCell_def useEntry_def entriesOf_def)
  ultimately show ?thesis
    using t e entriesOf_new [OF inv None e, of i ?c]
    by (intro exI [of _ ?s'] exI [of _ e] exI [of _ ?c]) (auto simp: alone_def shared_simps newCell_def lockOf_def)
next
  case (Some e)
  from mapD [OF inv Some] obtain c where c: "sh_Cells s e = Some c" by (auto simp: cellOf_def)
  let ?c = "c\<lparr>cell_Used := sh_Now s\<rparr>"
  let ?s' = "goto (setCell (goto s t g (Marks e)) e ?c) t (g\<lparr>call_Phase := Marks e\<rparr>) (Checks e)"
  have "getStep E t s (goto s t g (Marks e))" by (rule getStep.finds [OF t Some])
  moreover have "getStep E t (goto s t g (Marks e)) ?s'"
    using getStep.marks [of "goto s t g (Marks e)" t "g\<lparr>call_Phase := Marks e\<rparr>" e c E] c by (simp add: shared_simps)
  moreover have "entriesOf i (setCell (goto s t g (Marks e)) e ?c) = entriesOf i (setCell s e ?c)"
    by (simp add: entriesOf_def shared_simps)
  moreover have "entryOf ?c = useEntry (sh_Now s) (call_Host g) (entriesOf i s)"
    using Some c by (simp add: entryOf_def useEntry_def entriesOf_def)
  moreover have "cell_Lock c = None" using free [OF Some] cell_views(3) [OF c] by simp
  ultimately show ?thesis
    using t Some c free [OF Some] entriesOf_setCell [OF inv Some, of i ?c]
    by (intro exI [of _ ?s'] exI [of _ e] exI [of _ ?c]) (auto simp: alone_def shared_simps)
qed

lemma runs:
  "R a b \<Longrightarrow> R b c \<Longrightarrow> R\<^sup>*\<^sup>* a c" "R a b \<Longrightarrow> R b c \<Longrightarrow> R c d \<Longrightarrow> R\<^sup>*\<^sup>* a d"
  by (blast intro: rtranclp.rtrancl_into_rtrancl)+

lemma alone_goto:
  assumes "alone i t s e c p s1" and "sh_Calls s t = Some g"
  shows "alone i t s e c q (goto s1 t (g\<lparr>call_Phase := p\<rparr>) q)"
  using assms by (auto simp: alone_def shared_simps)

lemma alone_set:
  assumes "alone i t s e c p s1" and "sh_Calls s t = Some g" and "cacheInv E s1"
  shows "alone i t s e c' q (goto (setCell s1 e c') t (g\<lparr>call_Phase := p\<rparr>) q)"
proof -
  from assms(1,2) have "sh_Map s1 (call_Host g) = Some e" by (auto simp: alone_def)
  from entriesOf_setCell [OF assms(3) this, of i c'] assms(1,2) show ?thesis by (auto simp: alone_def shared_simps)
qed

text \<open>From the check on: a snapshot is returned at once, else the lock is taken and the device loaded.\<close>

lemma aloneD:
  assumes "alone i t s e c p s1" and "sh_Calls s t = Some g"
  shows "sh_Calls s1 t = Some (g\<lparr>call_Phase := p\<rparr>)" "sh_Cells s1 e = Some c"
  using assms by (auto simp: alone_def)

lemma alone_hit:
  assumes "alone i t s e c (Checks e) s1" and "sh_Calls s t = Some g" and "cell_Data c = Some dv"
  shows "\<exists>s2. getStep E t s1 s2 \<and> alone i t s e c (Returned (Ok dv)) s2"
  using getStep.hit [OF aloneD(1) [OF assms(1,2)] _ aloneD(2) [OF assms(1,2)] assms(3)] alone_goto [OF assms(1,2)]
  by fastforce

lemma alone_lock:
  assumes a: "alone i t s e c (Checks e) s1" and t: "sh_Calls s t = Some g" and c: "cell_Data c = None" "cell_Lock c = None"
    and inv: "cacheInv E s1"
  shows "\<exists>s2. (getStep E t)\<^sup>*\<^sup>* s1 s2 \<and> alone i t s e (c\<lparr>cell_Lock := Some t\<rparr>) (Loads e) s2"
proof -
  let ?g = "\<lambda>p. g\<lparr>call_Phase := p\<rparr>" and ?c = "c\<lparr>cell_Lock := Some t\<rparr>"
  let ?s2 = "goto s1 t (?g (Checks e)) (Waits e)"
  have step1: "getStep E t s1 ?s2"
    using getStep.miss [OF aloneD(1) [OF a t] _ aloneD(2) [OF a t] c(1)] by simp
  have a2: "alone i t s e c (Waits e) ?s2" by (rule alone_goto [OF a t])
  let ?s3 = "goto (setCell ?s2 e ?c) t (?g (Waits e)) (Rechecks e)"
  have step2: "getStep E t ?s2 ?s3"
    using getStep.locks [OF aloneD(1) [OF a2 t] _ aloneD(2) [OF a2 t] c(2)] by simp
  have a3: "alone i t s e ?c (Rechecks e) ?s3" by (rule alone_set [OF a2 t getStep_inv [OF step1 inv]])
  let ?s4 = "goto ?s3 t (?g (Rechecks e)) (Loads e)"
  have step3: "getStep E t ?s3 ?s4"
    using getStep.absent [OF aloneD(1) [OF a3 t] _ aloneD(2) [OF a3 t]] c(1) by simp
  have "alone i t s e ?c (Loads e) ?s4" by (rule alone_goto [OF a3 t])
  with runs(2) [of "getStep E t", OF step1 step2 step3] show ?thesis by blast
qed

lemma alone_load:
  assumes a: "alone i t s e c (Loads e) s1" and t: "sh_Calls s t = Some g" and loads: "loads E (call_Host g) r"
    and inv: "cacheInv E s1"
  shows "\<exists>s2. (getStep E t)\<^sup>*\<^sup>* s1 s2
    \<and> alone i t s e (c\<lparr>cell_Data := (case r of Ok dv \<Rightarrow> Some dv | _ \<Rightarrow> cell_Data c), cell_Lock := None\<rparr>) (Returned r) s2"
proof -
  let ?g = "\<lambda>p. g\<lparr>call_Phase := p\<rparr>"
  have unlock: "\<exists>s3. getStep E t s2 s3 \<and> alone i t s e (d\<lparr>cell_Lock := None\<rparr>) (Returned r) s3"
    if "alone i t s e d (Unlocks e r) s2" and "cacheInv E s2" for s2 d
    using getStep.unlocks [OF aloneD(1) [OF that(1) t] _ aloneD(2) [OF that(1) t]] alone_set [OF that(1) t that(2)] by fastforce
  show ?thesis
  proof (cases "\<exists>dv. r = Ok dv")
    case True
    then obtain dv where r: "r = Ok dv" by blast
    let ?s2 = "goto s1 t (?g (Loads e)) (Stores e dv)" and ?c = "c\<lparr>cell_Data := Some dv\<rparr>"
    have step1: "getStep E t s1 ?s2"
      using getStep.loaded [OF aloneD(1) [OF a t]] loads r by simp
    note inv2 = getStep_inv [OF step1 inv]
    have a2: "alone i t s e c (Stores e dv) ?s2" by (rule alone_goto [OF a t])
    let ?s3 = "goto (setCell ?s2 e ?c) t (?g (Stores e dv)) (Unlocks e (Ok dv))"
    have step2: "getStep E t ?s2 ?s3"
      using getStep.stores [OF aloneD(1) [OF a2 t] _ aloneD(2) [OF a2 t]] by simp
    have "alone i t s e ?c (Unlocks e r) ?s3" unfolding r by (rule alone_set [OF a2 t inv2])
    from unlock [OF this getStep_inv [OF step2 inv2]] obtain s4 where "getStep E t ?s3 s4"
      "alone i t s e (?c\<lparr>cell_Lock := None\<rparr>) (Returned r) s4" by blast
    with runs(2) [of "getStep E t", OF step1 step2] r show ?thesis by auto
  next
    case False
    let ?s2 = "goto s1 t (?g (Loads e)) (Unlocks e r)"
    have step1: "getStep E t s1 ?s2"
      using getStep.failed [OF aloneD(1) [OF a t]] loads False by simp
    have "alone i t s e c (Unlocks e r) ?s2" by (rule alone_goto [OF a t])
    from unlock [OF this getStep_inv [OF step1 inv]] obtain s3 where "getStep E t ?s2 s3"
      "alone i t s e (c\<lparr>cell_Lock := None\<rparr>) (Returned r) s3" by blast
    with runs(1) [of "getStep E t", OF step1] False show ?thesis by (cases r) auto
  qed
qed

text \<open>
  C25. A call that runs alone, while nobody holds the lock of its entry, does what the function \<open>get\<close>
  of the sequential model does: it returns the same result and leaves the same entries, the same
  locks, and every other call as it was.
\<close>

theorem get_refines:
  assumes "(cacheStep E interval)\<^sup>*\<^sup>* initShared s" and t: "sh_Calls s t = Some g" "call_Phase g = Enters"
    and free: "\<And>e. sh_Map s (call_Host g) = Some e \<Longrightarrow> lockOf s e = None"
    and get: "get E (sh_Now s) (call_Host g) k (entriesOf i s) = Some (r, k', c')"
  shows "\<exists>s'. (getStep E t)\<^sup>*\<^sup>* s s' \<and> sh_Calls s' = (sh_Calls s)(t \<mapsto> g\<lparr>call_Phase := Returned r\<rparr>)
    \<and> entriesOf i s' = c' \<and> lockOf s' = lockOf s \<and> sh_Now s' = sh_Now s"
proof -
  note inv = reachable_cacheInv [OF assms(1)]
  have final: "sh_Calls s' = (sh_Calls s)(t \<mapsto> g\<lparr>call_Phase := Returned r\<rparr>) \<and> lockOf s' = lockOf s \<and> sh_Now s' = sh_Now s
      \<and> entriesOf i s' = putEntry (call_Host g) (entryOf c) (entriesOf i s)"
    if "alone i t s e c (Returned r) s'" "lockOf s e = None" "cell_Lock c = None" for s' e c
  proof -
    have "lockOf s' e' = lockOf s e'" for e'
      using that t(1) cell_views(3) [of s' e c] by (cases "e' = e") (auto simp: alone_def)
    with that(1) t(1) show ?thesis by (auto simp: alone_def)
  qed
  obtain s1 e c where s1: "(getStep E t)\<^sup>*\<^sup>* s s1" and a: "alone i t s e c (Checks e) s1" "cell_Lock c = None" "lockOf s e = None"
    and c: "entryOf c = useEntry (sh_Now s) (call_Host g) (entriesOf i s)"
    using alone_enter [OF inv t room [OF assms(1)] free] by metis
  have inv1: "cacheInv E s1" using s1 inv by (induction rule: rtranclp_induct) (auto intro: getStep_inv)
  have data: "ce_data (entryOf c) = cell_Data c" by (simp add: entryOf_def)
  note get = get [unfolded get_def Let_def c [symmetric] data]
  show ?thesis
  proof (cases "cell_Data c")
    case (Some dv)
    with get have r: "r = Ok dv" "c' = putEntry (call_Host g) (entryOf c) (entriesOf i s)" by simp_all
    from alone_hit [OF a(1) t(1) Some] obtain s2 where "getStep E t s1 s2" "alone i t s e c (Returned r) s2" unfolding r by blast
    with final [of e c s2] a(2,3) s1 r(2) show ?thesis by (blast intro: rtranclp.rtrancl_into_rtrancl)
  next
    case None
    with get obtain l where l: "load E (call_Host g) k = Some (r, l)"
      and c': "c' = putEntry (call_Host g) (entryOf c\<lparr>ce_data := (case r of Ok dv \<Rightarrow> Some dv | _ \<Rightarrow> None)\<rparr>) (entriesOf i s)"
      by (auto simp: entryOf_def split: option.splits res.splits prod.splits)
    let ?c = "c\<lparr>cell_Lock := Some t\<rparr>" 
    let ?d = "?c\<lparr>cell_Data := (case r of Ok dv \<Rightarrow> Some dv | _ \<Rightarrow> cell_Data ?c), cell_Lock := None\<rparr>"
    from alone_lock [OF a(1) t(1) None a(2) inv1] obtain s2 where s2: "(getStep E t)\<^sup>*\<^sup>* s1 s2" "alone i t s e ?c (Loads e) s2" by blast
    have inv2: "cacheInv E s2" using s2(1) inv1 by (induction rule: rtranclp_induct) (auto intro: getStep_inv)
    from l have "loads E (call_Host g) r" by (auto simp: loads_def)
    from alone_load [OF s2(2) t(1) this inv2] obtain s3 where s3: "(getStep E t)\<^sup>*\<^sup>* s2 s3" "alone i t s e ?d (Returned r) s3" by blast
    have "entryOf ?d = entryOf c\<lparr>ce_data := (case r of Ok dv \<Rightarrow> Some dv | _ \<Rightarrow> None)\<rparr>"
      using None by (cases r) (simp_all add: entryOf_def)
    moreover have "(getStep E t)\<^sup>*\<^sup>* s s3" using s1 s2(1) s3(1) by (meson rtranclp_trans)
    moreover have "cell_Lock ?d = None" by simp
    note final [OF s3(2) a(3) this]
    ultimately show ?thesis using c' by (intro exI [of _ s3]) simp
  qed
qed

section \<open>Losing a snapshot\<close>

text \<open>The states of a run in which call 0 enumerates the device at \<open>h\<close>.\<close>

definition during :: "string \<Rightarrow> bool \<Rightarrow> deviceVars option \<Rightarrow> nat option \<Rightarrow> getPhase \<Rightarrow> int \<Rightarrow> refreshPhase \<Rightarrow> Shared" where
  "during h mapped data lock p now rf =
    \<lparr>sh_Map = (if mapped then [h \<mapsto> 0] else Map.empty),
     sh_Cells = [0 \<mapsto> \<lparr>cell_Host = h, cell_Data = data, cell_Used = 0, cell_Lock = lock\<rparr>],
     sh_Calls = [0 \<mapsto> \<lparr>call_Host = h, call_Phase = p\<rparr>], sh_Refresh = rf, sh_Now = now, sh_Closed = False\<rparr>"

lemma during_fields [simp]:
  "sh_Map (during h m d l p n rf) = (if m then [h \<mapsto> 0] else Map.empty)"
  "sh_Cells (during h m d l p n rf) = [0 \<mapsto> \<lparr>cell_Host = h, cell_Data = d, cell_Used = 0, cell_Lock = l\<rparr>]"
  "sh_Calls (during h m d l p n rf) = [0 \<mapsto> \<lparr>call_Host = h, call_Phase = p\<rparr>]"
  "sh_Refresh (during h m d l p n rf) = rf" "sh_Now (during h m d l p n rf) = n" "sh_Closed (during h m d l p n rf) = False"
  by (simp_all add: during_def)

lemma during_steps:
  shows "getStep E 0 (initShared\<lparr>sh_Calls := [0 \<mapsto> \<lparr>call_Host = h, call_Phase = Enters\<rparr>]\<rparr>)
      (during h True None None (Marks 0) 0 Sleeps)"
    and "getStep E 0 (during h True None None (Marks 0) 0 rf) (during h True None None (Checks 0) 0 rf)"
    and "getStep E 0 (during h True None None (Checks 0) 0 rf) (during h True None None (Waits 0) 0 rf)"
    and "getStep E 0 (during h True None None (Waits 0) 0 rf) (during h True None (Some 0) (Rechecks 0) 0 rf)"
    and "getStep E 0 (during h True None (Some 0) (Rechecks 0) 0 rf) (during h True None (Some 0) (Loads 0) 0 rf)"
    and "loads E h (Ok dv) \<Longrightarrow> getStep E 0 (during h m None (Some 0) (Loads 0) n rf) (during h m None (Some 0) (Stores 0 dv) n rf)"
    and "getStep E 0 (during h m None (Some 0) (Stores 0 dv) n rf) (during h m (Some dv) (Some 0) (Unlocks 0 (Ok dv)) n rf)"
    and "getStep E 0 (during h m (Some dv) (Some 0) (Unlocks 0 r) n rf) (during h m (Some dv) None (Returned r) n rf)"
proof -
  let ?g = "\<lambda>p. \<lparr>call_Host = h, call_Phase = p\<rparr>"
  let ?c = "\<lambda>d l. \<lparr>cell_Host = h, cell_Data = d, cell_Used = 0, cell_Lock = l\<rparr>"
  note states = during_def goto_def setCell_def newCell_def initShared_def
  show "getStep E 0 (initShared\<lparr>sh_Calls := [0 \<mapsto> \<lparr>call_Host = h, call_Phase = Enters\<rparr>]\<rparr>)
      (during h True None None (Marks 0) 0 Sleeps)"
    using getStep.makes [of "initShared\<lparr>sh_Calls := [0 \<mapsto> ?g Enters]\<rparr>" 0 "?g Enters" 0 E] by (simp add: states)
  show "getStep E 0 (during h True None None (Marks 0) 0 rf) (during h True None None (Checks 0) 0 rf)"
    using getStep.marks [of "during h True None None (Marks 0) 0 rf" 0 "?g (Marks 0)" 0 "?c None None" E] by (simp add: states)
  show "getStep E 0 (during h True None None (Checks 0) 0 rf) (during h True None None (Waits 0) 0 rf)"
    using getStep.miss [of "during h True None None (Checks 0) 0 rf" 0 "?g (Checks 0)" 0 "?c None None" E] by (simp add: states)
  show "getStep E 0 (during h True None None (Waits 0) 0 rf) (during h True None (Some 0) (Rechecks 0) 0 rf)"
    using getStep.locks [of "during h True None None (Waits 0) 0 rf" 0 "?g (Waits 0)" 0 "?c None None" E] by (simp add: states)
  show "getStep E 0 (during h True None (Some 0) (Rechecks 0) 0 rf) (during h True None (Some 0) (Loads 0) 0 rf)"
    using getStep.absent [of "during h True None (Some 0) (Rechecks 0) 0 rf" 0 "?g (Rechecks 0)" 0 "?c None (Some 0)" E] by (simp add: states)
  show "getStep E 0 (during h m None (Some 0) (Loads 0) n rf) (during h m None (Some 0) (Stores 0 dv) n rf)" if "loads E h (Ok dv)"
    using getStep.loaded [of "during h m None (Some 0) (Loads 0) n rf" 0 "?g (Loads 0)" 0 E dv] that by (simp add: states)
  show "getStep E 0 (during h m None (Some 0) (Stores 0 dv) n rf) (during h m (Some dv) (Some 0) (Unlocks 0 (Ok dv)) n rf)"
    using getStep.stores [of "during h m None (Some 0) (Stores 0 dv) n rf" 0 "?g (Stores 0 dv)" 0 dv "?c None (Some 0)" E] by (simp add: states)
  show "getStep E 0 (during h m (Some dv) (Some 0) (Unlocks 0 r) n rf) (during h m (Some dv) None (Returned r) n rf)"
    using getStep.unlocks [of "during h m (Some dv) (Some 0) (Unlocks 0 r) n rf" 0 "?g (Unlocks 0 r)" 0 r "?c (Some dv) (Some 0)" E]
    by (simp add: states)
qed

lemma during_refresh:
  assumes "idleRefreshes * interval < n"
  shows "refreshStep E interval (during h m d l p n Sleeps) (during h False d l p n (Walks []))"
    and "refreshStep E interval (during h m d l p n (Walks [])) (during h m d l p n Sleeps)"
proof -
  have "kept interval (during h m d l p n Sleeps) = Map.empty"
    using assms by (auto simp: kept_def fun_eq_iff split: option.split)
  then show "refreshStep E interval (during h m d l p n Sleeps) (during h False d l p n (Walks []))"
    using refreshStep.ticks [of "during h m d l p n Sleeps" "[]" interval E] by (simp add: during_def)
  show "refreshStep E interval (during h m d l p n (Walks [])) (during h m d l p n Sleeps)"
    using refreshStep.rests [of "during h m d l p n (Walks [])" E interval] by (simp add: during_def)
qed

lemma getSteps_cacheSteps: "(getStep E t)\<^sup>*\<^sup>* s s' \<Longrightarrow> (cacheStep E interval)\<^sup>*\<^sup>* s s'"
  by (induction rule: rtranclp_induct) (auto intro: cacheStep.request rtranclp.rtrancl_into_rtrancl)

lemma cacheSteps_step: "(cacheStep E interval)\<^sup>*\<^sup>* s s' \<Longrightarrow> cacheStep E interval s' s'' \<Longrightarrow> (cacheStep E interval)\<^sup>*\<^sup>* s s''"
  by (rule rtranclp.rtrancl_into_rtrancl)

lemma slow_loading:
  assumes "0 \<le> T"
  shows "(cacheStep E interval)\<^sup>*\<^sup>* initShared (during h True None (Some 0) (Loads 0) T Sleeps)"
proof -
  note get = during_steps(1-5) [THEN cacheStep.request [where interval = interval]]
  have "cacheStep E interval initShared (initShared\<lparr>sh_Calls := [0 \<mapsto> \<lparr>call_Host = h, call_Phase = Enters\<rparr>]\<rparr>)"
    using cacheStep.calls [of initShared 0 E interval h] by (simp add: initShared_def)
  then have called: "(cacheStep E interval)\<^sup>*\<^sup>* initShared (initShared\<lparr>sh_Calls := [0 \<mapsto> \<lparr>call_Host = h, call_Phase = Enters\<rparr>]\<rparr>)"
    by blast
  have slow: "cacheStep E interval (during h True None (Some 0) (Loads 0) 0 Sleeps) (during h True None (Some 0) (Loads 0) T Sleeps)"
    using cacheStep.time [OF assms, of E interval "during h True None (Some 0) (Loads 0) 0 Sleeps"] by (simp add: during_def)
  note go = cacheSteps_step
  show ?thesis by (rule go [OF go [OF go [OF go [OF go [OF go [OF called get(1)] get(2)] get(3)] get(4)] get(5)] slow])
qed

lemma slow_run:
  assumes "loads E h (Ok dv)" and "idleRefreshes * interval < T" and "0 \<le> T"
  shows "(cacheStep E interval)\<^sup>*\<^sup>* initShared (during h False (Some dv) None (Returned (Ok dv)) T Sleeps)"
proof -
  note get = during_steps(6-8) [THEN cacheStep.request [where interval = interval]]
  note idle = during_refresh [OF assms(2), THEN cacheStep.refresh]
  note go = cacheSteps_step
  show ?thesis
    by (rule go [OF go [OF go [OF go [OF go [OF slow_loading [OF assms(3)] idle(1)] idle(2)] get(1) [OF assms(1)]] get(2)] get(3)])
qed

lemma loads_again:
  assumes "(cacheStep E interval)\<^sup>*\<^sup>* initShared s" and "sh_Map s h = None" and "sh_Calls s t = None"
  shows "\<exists>s' e. (cacheStep E interval)\<^sup>*\<^sup>* s s' \<and> sh_Calls s' t = Some \<lparr>call_Host = h, call_Phase = Loads e\<rparr>"
proof -
  let ?g = "\<lparr>call_Host = h, call_Phase = Enters\<rparr>"
  let ?s = "s\<lparr>sh_Calls := (sh_Calls s)(t \<mapsto> ?g)\<rparr>"
  have new: "cacheStep E interval s ?s" by (rule cacheStep.calls [OF assms(3)])
  with assms(1) have reach: "(cacheStep E interval)\<^sup>*\<^sup>* initShared ?s" by (rule rtranclp.rtrancl_into_rtrancl)
  have t: "sh_Calls ?s t = Some ?g" "sh_Map ?s h = None" using assms(2) by simp_all
  note inv = reachable_cacheInv [OF reach]
  obtain s1 e c where s1: "(getStep E t)\<^sup>*\<^sup>* ?s s1" "alone interval t ?s e c (Checks e) s1" "cell_Lock c = None"
    "entryOf c = useEntry (sh_Now ?s) h (entriesOf interval ?s)"
    using alone_enter [OF inv t(1) _ room [OF reach]] t(2) by fastforce
  have "cell_Data c = ce_data (entryOf c)" by (simp add: entryOf_def)
  also have "\<dots> = None" using t(2) by (simp add: s1(4) useEntry_def entriesOf_def)
  finally have "cell_Data c = None" .
  moreover have "cacheInv E s1" using s1(1) inv by (induction rule: rtranclp_induct) (auto intro: getStep_inv)
  ultimately obtain s2 where s2: "(getStep E t)\<^sup>*\<^sup>* s1 s2" "alone interval t ?s e (c\<lparr>cell_Lock := Some t\<rparr>) (Loads e) s2"
    using alone_lock [OF s1(2) t(1) _ s1(3)] by blast
  from new getSteps_cacheSteps [OF s1(1)] getSteps_cacheSteps [OF s2(1)] have "(cacheStep E interval)\<^sup>*\<^sup>* s s2"
    by (meson converse_rtranclp_into_rtranclp rtranclp_trans)
  with aloneD(1) [OF s2(2) t(1)] show ?thesis by auto
qed

lemma used_kept:
  assumes "cacheStep E interval s s'" and "sh_Map s h = Some e" and "sh_Cells s e = Some c"
    and "sh_Now s \<le> cell_Used c + idleRefreshes * interval"
  shows "sh_Map s' h = Some e"
  using assms(1)
proof cases
  case (request t)
  then show ?thesis using assms(2) by cases (auto simp: shared_simps)
next
  case refresh
  then show ?thesis using assms(2-4) by cases (auto simp: shared_simps kept_def)
qed (use assms(2) in simp_all)

text \<open>A network on which no device answers, and a call that has got as far as loading.\<close>

definition silentEnv :: Env where
  "silentEnv = \<lparr>env_resolve = (\<lambda>_. Err ErrTimeout), env_request = (\<lambda>_ _ _ _. Err ErrTimeout),
     env_whoIs = (\<lambda>_ _ _. RoundDeadline []), env_retries = 0, env_ctxErr = (\<lambda>_. False)\<rparr>"

lemma silentEnv_short: "shortLists silentEnv h"
  by (auto simp: shortLists_def silentEnv_def ReadProperty_def res_bind_Ok_iff)

lemma silentEnv_loads: "\<exists>r. loads silentEnv h r"
  using load_returns [OF silentEnv_short, of h 0] by (auto simp: loads_def)

definition firstCall :: Shared where
  "firstCall = initShared\<lparr>sh_Calls := [0 \<mapsto> \<lparr>call_Host = ''plant'', call_Phase = Enters\<rparr>]\<rparr>"

lemma firstCall_reachable: "(cacheStep E interval)\<^sup>*\<^sup>* initShared firstCall"
  using cacheStep.calls [of initShared 0 E interval "''plant''"] by (auto simp: firstCall_def initShared_def)

lemma firstCall_loading:
  obtains s e where "(cacheStep E interval)\<^sup>*\<^sup>* initShared s"
    and "sh_Calls s 0 = Some \<lparr>call_Host = ''plant'', call_Phase = Loads e\<rparr>"
proof -
  let ?g = "\<lparr>call_Host = ''plant'', call_Phase = Enters\<rparr>"
  have t: "sh_Calls firstCall 0 = Some ?g" "sh_Map firstCall ''plant'' = None" by (simp_all add: firstCall_def initShared_def)
  note inv = reachable_cacheInv [OF firstCall_reachable [of E interval]]
  obtain s1 e c where s1: "(getStep E 0)\<^sup>*\<^sup>* firstCall s1" "alone interval 0 firstCall e c (Checks e) s1" "cell_Lock c = None"
    "entryOf c = useEntry (sh_Now firstCall) ''plant'' (entriesOf interval firstCall)"
    using alone_enter [OF inv t(1) _ room [OF firstCall_reachable]] t(2) by fastforce
  have "cell_Data c = ce_data (entryOf c)" by (simp add: entryOf_def)
  also have "\<dots> = None" using t(2) by (simp add: s1(4) useEntry_def entriesOf_def)
  finally have "cell_Data c = None" .
  moreover have "cacheInv E s1" using s1(1) inv by (induction rule: rtranclp_induct) (auto intro: getStep_inv)
  ultimately obtain s2 where s2: "(getStep E 0)\<^sup>*\<^sup>* s1 s2" "alone interval 0 firstCall e (c\<lparr>cell_Lock := Some 0\<rparr>) (Loads e) s2"
    using alone_lock [OF s1(2) t(1) _ s1(3)] by blast
  from firstCall_reachable getSteps_cacheSteps [OF s1(1)] getSteps_cacheSteps [OF s2(1)]
  have "(cacheStep E interval)\<^sup>*\<^sup>* initShared s2" by (meson rtranclp_trans)
  with aloneD(1) [OF s2(2) t(1)] that show thesis by simp
qed

lemma cache_concurrent_witness:
  "\<exists>s e. (cacheStep silentEnv 1)\<^sup>*\<^sup>* initShared s
    \<and> sh_Calls s 0 = Some \<lparr>call_Host = ''plant'', call_Phase = Loads e\<rparr> \<and> \<not> hasData s e"
proof -
  obtain s e where s: "(cacheStep silentEnv 1)\<^sup>*\<^sup>* initShared s" "sh_Calls s 0 = Some \<lparr>call_Host = ''plant'', call_Phase = Loads e\<rparr>"
    by (rule firstCall_loading)
  have "\<not> hasData s e"
    using cache_concurrent [OF s(1), THEN conjunct2, THEN conjunct2, THEN conjunct1] s(2) by fastforce
  with s show ?thesis by blast
qed

lemma cache_progress_witness:
  "\<exists>s e s'. sh_Calls s 0 = Some \<lparr>call_Host = ''plant'', call_Phase = Loads e\<rparr> \<and> getStep silentEnv 0 s s' \<and> left s' 0 < left s 0"
proof -
  obtain s e where s: "(cacheStep silentEnv 1)\<^sup>*\<^sup>* initShared s" "sh_Calls s 0 = Some \<lparr>call_Host = ''plant'', call_Phase = Loads e\<rparr>"
    by (rule firstCall_loading)
  have all: "\<forall>h. \<exists>r. loads silentEnv h r" using silentEnv_loads by blast
  have "\<forall>r. call_Phase \<lparr>call_Host = ''plant'', call_Phase = Loads e\<rparr> \<noteq> Returned r" by simp
  from cache_progress [OF s(1) all s(2) this] s(2) show ?thesis by auto
qed

lemma get_refines_witness:
  "\<exists>s' r k c. get silentEnv 0 ''plant'' 0 (entriesOf 1 firstCall) = Some (r, k, c)
    \<and> (getStep silentEnv 0)\<^sup>*\<^sup>* firstCall s' \<and> entriesOf 1 s' = c"
proof -
  from get_returns [OF silentEnv_short, of 0 "''plant''" 0 "entriesOf 1 firstCall"] obtain r k c
    where g: "get silentEnv 0 ''plant'' 0 (entriesOf 1 firstCall) = Some (r, k, c)" by (metis prod_cases3)
  have t: "sh_Calls firstCall 0 = Some \<lparr>call_Host = ''plant'', call_Phase = Enters\<rparr>" "sh_Map firstCall h = None" "sh_Now firstCall = 0" for h
    by (simp_all add: firstCall_def initShared_def)
  from get_refines [OF firstCall_reachable t(1), where k = 0 and i = 1] g t(2,3) show ?thesis by fastforce
qed

end
