(* ===== verification/Timing_Theorems.thy ===== *)
theory Timing_Theorems
  imports Bacnet_Timing Proxy_Theorems Api_Cache_Theorems
begin

text \<open>
  What the time limits of the API do: the deadline of a request to its BACnet request, and the idle
  time of the cache to an enumeration.
\<close>

section \<open>The deadline of a request\<close>












definition offClock :: Clock where
  "offClock = \<lparr>ck_timeout = 3 * 10 ^ 9, ck_deadline = Some (3 * 10 ^ 9), ck_begin = (\<lambda>j. if j = 0 then 1 else 3 * 10 ^ 9 + 2),
     ck_reply = None, ck_latency = 10 ^ 6\<rparr>"


lemma offClock_fields [simp]:
  "ck_timeout offClock = 3 * 10 ^ 9" "ck_deadline offClock = Some (3 * 10 ^ 9)"
  "ck_begin offClock j = (if j = 0 then 1 else 3 * 10 ^ 9 + 2)" "ck_reply offClock = None" "ck_latency offClock = 10 ^ 6"
  by (simp_all add: offClock_def)




section \<open>The idle time of the cache\<close>

text \<open>
  An entry that has been dropped from the map: it does not come back, and only the calls \<open>ts\<close>, which
  held it already, work on it.
\<close>

definition forgotten :: "nat \<Rightarrow> nat set \<Rightarrow> Shared \<Rightarrow> bool" where
  "forgotten e ts s \<longleftrightarrow> sh_Cells s e \<noteq> None \<and> (\<forall>h. sh_Map s h \<noteq> Some e)
    \<and> (\<forall>t g. sh_Calls s t = Some g \<and> phaseCell (call_Phase g) = Some e \<longrightarrow> t \<in> ts)"

lemma kept_Some: "kept interval s h = Some e \<Longrightarrow> sh_Map s h = Some e"
  by (auto simp: kept_def split: option.splits if_splits)

lemma forgotten_step:
  assumes "cacheStep E interval s s'" and "forgotten e ts s"
  shows "forgotten e ts s'"
  using assms(1)
proof cases
  case (request t)
  then show ?thesis using assms(2) by cases (auto simp: forgotten_def shared_simps split: if_splits)
next
  case refresh
  then show ?thesis using assms(2) by cases (auto simp: forgotten_def shared_simps dest: kept_Some)
qed (use assms(2) in \<open>auto simp: forgotten_def split: if_splits\<close>)

lemma forgotten_ever:
  assumes "(cacheStep E interval)\<^sup>*\<^sup>* s s'" and "forgotten e ts s"
  shows "forgotten e ts s'"
  using assms by (induction rule: rtranclp_induct) (auto intro: forgotten_step)

lemma tick_forgets:
  assumes "cacheInv E s" and "sh_Map s h = Some e" and "sh_Cells s e = Some c"
    and "cell_Used c + idleRefreshes * interval < sh_Now s"
    and "refreshStep E interval s s'" and "sh_Refresh s = Sleeps" and "sh_Refresh s' \<noteq> Stopped"
  shows "sh_Map s' h = None" and "forgotten e {t. \<exists>g. sh_Calls s' t = Some g \<and> phaseCell (call_Phase g) = Some e} s'"
proof -
  from assms(5-7) have "sh_Map s' = kept interval s \<and> sh_Cells s' = sh_Cells s" by cases simp_all
  then have tick: "sh_Map s' = kept interval s" "sh_Cells s' = sh_Cells s" by simp_all
  show "sh_Map s' h = None" using assms(2-4) by (simp add: tick kept_def)
  have "sh_Map s' h' \<noteq> Some e" for h'
    using assms(3,4) by (auto simp: tick kept_def split: option.splits)
  with assms(3) show "forgotten e {t. \<exists>g. sh_Calls s' t = Some g \<and> phaseCell (call_Phase g) = Some e} s'"
    by (auto simp: forgotten_def tick)
qed

lemma dropped_for_good:
  assumes "(cacheStep E interval)\<^sup>*\<^sup>* initShared s" and "sh_Map s h = Some e" and "sh_Cells s e = Some c"
    and "cell_Used c + idleRefreshes * interval < sh_Now s"
    and "sh_Refresh s = Sleeps" and "refreshStep E interval s s'" and "sh_Refresh s' \<noteq> Stopped"
  shows "sh_Map s' h = None
    \<and> (\<forall>s''. (cacheStep E interval)\<^sup>*\<^sup>* s' s'' \<longrightarrow> sh_Map s'' h \<noteq> Some e
        \<and> (\<forall>t g. sh_Calls s'' t = Some g \<and> phaseCell (call_Phase g) = Some e \<longrightarrow>
            (\<exists>g'. sh_Calls s' t = Some g' \<and> phaseCell (call_Phase g') = Some e)))"
proof -
  note lost = tick_forgets [OF reachable_cacheInv [OF assms(1)] assms(2-4,6,5,7)]
  have "forgotten e {t. \<exists>g. sh_Calls s' t = Some g \<and> phaseCell (call_Phase g) = Some e} s''"
    if "(cacheStep E interval)\<^sup>*\<^sup>* s' s''" for s''
    using that lost(2) by (rule forgotten_ever)
  with lost(1) show ?thesis by (auto simp: forgotten_def)
qed

text \<open>A run in which a call enumerates for longer, and the next one enumerates again.\<close>

lemma slow_run_again:
  assumes "loads E h (Ok dv)" and "0 < interval" and "idleRefreshes * interval < T"
  shows "\<exists>s. (cacheStep E interval)\<^sup>*\<^sup>* initShared s \<and> sh_Now s = T \<and> \<not> sh_Closed s
    \<and> sh_Calls s 0 = Some \<lparr>call_Host = h, call_Phase = Returned (Ok dv)\<rparr> \<and> sh_Map s h = None
    \<and> (\<exists>s' e. (cacheStep E interval)\<^sup>*\<^sup>* s s' \<and> sh_Calls s' 1 = Some \<lparr>call_Host = h, call_Phase = Loads e\<rparr>)"
proof -
  have "0 \<le> T" using assms(2,3) by (simp add: idleRefreshes_def)
  let ?s = "during h False (Some dv) None (Returned (Ok dv)) T Sleeps"
  note run = slow_run [OF assms(1,3) \<open>0 \<le> T\<close>]
  from loads_again [OF run, of h 1]
  have "\<exists>s' e. (cacheStep E interval)\<^sup>*\<^sup>* ?s s' \<and> sh_Calls s' 1 = Some \<lparr>call_Host = h, call_Phase = Loads e\<rparr>"
    by (simp del: One_nat_def)
  with run show ?thesis by - (rule exI [of _ ?s], simp del: One_nat_def)
qed

lemma long_loads:
  assumes "0 < interval"
  shows "(\<exists>T. idleRefreshes * interval < T \<and> T \<le> loadTimeout (newVarCache interval)) \<longleftrightarrow> interval < 30 * 10 ^ 9"
  using assms by (auto simp: loadTimeout_def newVarCache_def idleRefreshes_def minLoadTimeout_def max_def intro: exI [of _ minLoadTimeout])

text \<open>
  C26. A refresh keeps an entry of the cache up to ten refresh intervals after a call last asked for
  it, and drops it after that, whatever the calls that still work on it do. The time counts from the
  start of a call, also while the entry is being loaded. A dropped entry is found by no later call:
  only the calls that held it then ever work on it. So an enumeration that takes longer than
  ten intervals can end with its snapshot in an entry that the cache has dropped (for every such
  length there is a run in which it does): its call returns the snapshot, and the next call
  enumerates the device again. Loads can be that long, for they have five minutes at least,
  exactly for the intervals below thirty seconds.
\<close>

theorem slow_load_lost:
  assumes "loads E h (Ok dv)" and "0 < interval"
  shows "(\<forall>s s' h e c. cacheStep E interval s s' \<and> sh_Map s h = Some e \<and> sh_Cells s e = Some c
        \<and> sh_Now s \<le> cell_Used c + idleRefreshes * interval \<longrightarrow> sh_Map s' h = Some e)
    \<and> (\<forall>s s' h e c. (cacheStep E interval)\<^sup>*\<^sup>* initShared s \<and> sh_Map s h = Some e \<and> sh_Cells s e = Some c
        \<and> cell_Used c + idleRefreshes * interval < sh_Now s
        \<and> sh_Refresh s = Sleeps \<and> refreshStep E interval s s' \<and> sh_Refresh s' \<noteq> Stopped \<longrightarrow>
          sh_Map s' h = None
          \<and> (\<forall>s''. (cacheStep E interval)\<^sup>*\<^sup>* s' s'' \<longrightarrow> sh_Map s'' h \<noteq> Some e
              \<and> (\<forall>t g. sh_Calls s'' t = Some g \<and> phaseCell (call_Phase g) = Some e \<longrightarrow>
                  (\<exists>g'. sh_Calls s' t = Some g' \<and> phaseCell (call_Phase g') = Some e))))
    \<and> ((\<exists>T. idleRefreshes * interval < T \<and> T \<le> loadTimeout (newVarCache interval)) \<longleftrightarrow> interval < 30 * 10 ^ 9)
    \<and> (\<forall>T > idleRefreshes * interval. \<exists>s. (cacheStep E interval)\<^sup>*\<^sup>* initShared s \<and> sh_Now s = T \<and> \<not> sh_Closed s
        \<and> sh_Calls s 0 = Some \<lparr>call_Host = h, call_Phase = Returned (Ok dv)\<rparr> \<and> sh_Map s h = None
        \<and> (\<exists>s' e. (cacheStep E interval)\<^sup>*\<^sup>* s s' \<and> sh_Calls s' 1 = Some \<lparr>call_Host = h, call_Phase = Loads e\<rparr>))"
proof (intro conjI)
  show "\<forall>s s' h e c. cacheStep E interval s s' \<and> sh_Map s h = Some e \<and> sh_Cells s e = Some c
        \<and> sh_Now s \<le> cell_Used c + idleRefreshes * interval \<longrightarrow> sh_Map s' h = Some e"
    using used_kept by blast
qed ((intro allI impI, elim conjE, rule dropped_for_good; assumption),
    rule long_loads [OF assms(2)], (intro allI impI, rule slow_run_again [OF assms]))

lemma slow_load_lost_witness:
  "(\<exists>s s'. (cacheStep (plantEnv True) (10 * 10 ^ 9))\<^sup>*\<^sup>* initShared s
      \<and> sh_Calls s 0 = Some \<lparr>call_Host = ''plant'', call_Phase = Loads 0\<rparr> \<and> sh_Map s ''plant'' = Some 0
      \<and> refreshStep (plantEnv True) (10 * 10 ^ 9) s s' \<and> sh_Map s' ''plant'' = None
      \<and> (\<forall>s''. (cacheStep (plantEnv True) (10 * 10 ^ 9))\<^sup>*\<^sup>* s' s'' \<longrightarrow> sh_Map s'' ''plant'' \<noteq> Some 0))
   \<and> (\<exists>dv s. (cacheStep (plantEnv True) (10 * 10 ^ 9))\<^sup>*\<^sup>* initShared s \<and> sh_Now s = 101 * 10 ^ 9
      \<and> sh_Calls s 0 = Some \<lparr>call_Host = ''plant'', call_Phase = Returned (Ok dv)\<rparr> \<and> sh_Map s ''plant'' = None)"
proof
  have "\<exists>dv. loads (plantEnv True) ''plant'' (Ok dv)"
    using load_device [OF plant_reaches plant_namesFit plant_ok(1), of True "''plant''" 0] by (auto simp: plant_ok loads_def)
  then obtain dv where dv: "loads (plantEnv True) ''plant'' (Ok dv)" by blast
  note lost = slow_load_lost [OF dv, of "10 * 10 ^ 9"]
  from lost [THEN conjunct2, THEN conjunct2, THEN conjunct2, rule_format, of "101 * 10 ^ 9"]
  show "\<exists>dv s. (cacheStep (plantEnv True) (10 * 10 ^ 9))\<^sup>*\<^sup>* initShared s \<and> sh_Now s = 101 * 10 ^ 9
      \<and> sh_Calls s 0 = Some \<lparr>call_Host = ''plant'', call_Phase = Returned (Ok dv)\<rparr> \<and> sh_Map s ''plant'' = None"
    by (auto simp: idleRefreshes_def)
  let ?s = "during ''plant'' True None (Some 0) (Loads 0) (101 * 10 ^ 9) Sleeps"
  let ?s' = "during ''plant'' False None (Some 0) (Loads 0) (101 * 10 ^ 9) (Walks [])"
  have reach: "(cacheStep (plantEnv True) (10 * 10 ^ 9))\<^sup>*\<^sup>* initShared ?s" by (rule slow_loading) simp
  have tick: "refreshStep (plantEnv True) (10 * 10 ^ 9) ?s ?s'" by (rule during_refresh(1)) (simp add: idleRefreshes_def)
  have "sh_Map s'' ''plant'' \<noteq> Some 0" if "(cacheStep (plantEnv True) (10 * 10 ^ 9))\<^sup>*\<^sup>* ?s' s''" for s''
    by (rule lost [THEN conjunct2, THEN conjunct1, rule_format, where s = ?s and e = 0
          and c = "\<lparr>cell_Host = ''plant'', cell_Data = None, cell_Used = 0, cell_Lock = Some 0\<rparr>",
        THEN conjunct2, rule_format, OF _ _ that, THEN conjunct1])
      (use reach tick in \<open>simp_all add: idleRefreshes_def\<close>)
  with reach tick show "\<exists>s s'. (cacheStep (plantEnv True) (10 * 10 ^ 9))\<^sup>*\<^sup>* initShared s
      \<and> sh_Calls s 0 = Some \<lparr>call_Host = ''plant'', call_Phase = Loads 0\<rparr> \<and> sh_Map s ''plant'' = Some 0
      \<and> refreshStep (plantEnv True) (10 * 10 ^ 9) s s' \<and> sh_Map s' ''plant'' = None
      \<and> (\<forall>s''. (cacheStep (plantEnv True) (10 * 10 ^ 9))\<^sup>*\<^sup>* s' s'' \<longrightarrow> sh_Map s'' ''plant'' \<noteq> Some 0)"
    by (intro exI [of _ ?s] exI [of _ ?s']) auto
qed

end
