(* ===== verification/Auth_OIDC.thy ===== *)
theory Auth_OIDC
  imports Auth
begin

text \<open>
  \<^verbatim>\<open>internal/auth/oidc.go\<close>: an issuer's signing keys, how they are parsed, fetched, cached and
  refreshed. Fetching is concurrent with the callers that wait for it, so the verifier is a state
  machine with a clock. The lemmas show that fetches are rate limited and never overlap, that a
  key handed out comes from the last successful fetch, and which keys are accepted.
\<close>

section \<open>Keys of a JWKS\<close>

definition base64Digit :: "char \<Rightarrow> nat option" where
  "base64Digit c =
    (let n = of_char c :: nat in
     if 65 \<le> n \<and> n \<le> 90 then Some (n - 65)
     else if 97 \<le> n \<and> n \<le> 122 then Some (n - 71)
     else if 48 \<le> n \<and> n \<le> 57 then Some (n + 4)
     else if c = CHR ''-'' then Some 62
     else if c = CHR ''_'' then Some 63
     else None)"

text \<open>Digits in fours, the last group of two or three; the unused low bits are not checked.\<close>

fun base64Groups :: "nat list \<Rightarrow> byte list option" where
  "base64Groups [] = Some []"
| "base64Groups [a] = None"
| "base64Groups [a, b] = Some [word_of_nat (a * 4 + b div 16)]"
| "base64Groups [a, b, c] = Some [word_of_nat (a * 4 + b div 16), word_of_nat (b mod 16 * 16 + c div 4)]"
| "base64Groups (a # b # c # d # ds) =
    map_option (\<lambda>bs. word_of_nat (a * 4 + b div 16) # word_of_nat (b mod 16 * 16 + c div 4)
      # word_of_nat (c mod 4 * 64 + d) # bs) (base64Groups ds)"

text \<open>\<^verbatim>\<open>base64.RawURLEncoding.DecodeString\<close>, which skips line ends.\<close>

definition b64 :: "string \<Rightarrow> byte list option" where
  "b64 s =
    (let ds = map base64Digit (filter (\<lambda>c. c \<noteq> char_of (10 :: nat) \<and> c \<noteq> char_of (13 :: nat)) s)
     in if None \<in> set ds then None else base64Groups (map the ds))"

definition bigInt :: "byte list \<Rightarrow> nat" where
  "bigInt bs = foldl (\<lambda>n b. n * 256 + unat b) 0 bs"

record JWK =
  jwk_Kty :: string
  jwk_Kid :: string
  jwk_Use :: string
  jwk_Crv :: string
  jwk_N :: string
  jwk_E :: string
  jwk_X :: string
  jwk_Y :: string

definition curveSize :: "string \<Rightarrow> nat option" where
  "curveSize crv =
    (if crv = ''P-256'' then Some ((256 + 7) div 8)
     else if crv = ''P-384'' then Some ((384 + 7) div 8)
     else if crv = ''P-521'' then Some ((521 + 7) div 8)
     else None)"

text \<open>
  \<open>None\<close> is an error; the code skips such a key. \<open>onCurve\<close> is the check of
  \<^verbatim>\<open>ecdsa.ParseUncompressedPublicKey\<close> that the point is on the curve.
\<close>

definition parseRSA :: "JWK \<Rightarrow> Key option" where
  "parseRSA jwk =
    (case (b64 (jwk_N jwk), b64 (jwk_E jwk)) of
       (Some n, Some e) \<Rightarrow>
         if length n * 8 < 2048 then None
         else let ex = bigInt e in
           if ex \<ge> 2 ^ 63 \<or> ex < 3 \<or> ex > 2 ^ 31 - 1 then None
           else Some (RSAKey (bigInt n) ex)
     | _ \<Rightarrow> None)"

definition parseEC :: "(string \<Rightarrow> byte list \<Rightarrow> byte list \<Rightarrow> bool) \<Rightarrow> JWK \<Rightarrow> Key option" where
  "parseEC onCurve jwk =
    (case curveSize (jwk_Crv jwk) of
       None \<Rightarrow> None
     | Some sz \<Rightarrow>
         (case (b64 (jwk_X jwk), b64 (jwk_Y jwk)) of
            (Some x, Some y) \<Rightarrow>
              if length x \<noteq> sz \<or> length y \<noteq> sz then None
              else if onCurve (jwk_Crv jwk) x y then Some (ECKey (jwk_Crv jwk) x y) else None
          | _ \<Rightarrow> None))"

definition parseOKP :: "JWK \<Rightarrow> Key option" where
  "parseOKP jwk =
    (if jwk_Crv jwk \<noteq> ''Ed25519'' then None
     else case b64 (jwk_X jwk) of
       None \<Rightarrow> None
     | Some x \<Rightarrow> if length x \<noteq> 32 then None else Some (EdKey x))"

definition parseJWK :: "(string \<Rightarrow> byte list \<Rightarrow> byte list \<Rightarrow> bool) \<Rightarrow> JWK \<Rightarrow> Key option" where
  "parseJWK onCurve jwk =
    (if jwk_Use jwk \<noteq> [] \<and> jwk_Use jwk \<noteq> ''sig'' then None
     else if jwk_Kty jwk = ''RSA'' then parseRSA jwk
     else if jwk_Kty jwk = ''EC'' then parseEC onCurve jwk
     else if jwk_Kty jwk = ''OKP'' then parseOKP jwk
     else None)"

section \<open>Fetching\<close>

text \<open>
  The web is a parameter: \<open>get\<close> answers a request for a URL with a status and a body, or fails;
  \<open>parseURL\<close> is \<^verbatim>\<open>url.Parse\<close>; the decoders are \<^verbatim>\<open>encoding/json\<close>'s. In a JWKS each key may
  fail to decode on its own.
\<close>

record URL =
  url_Scheme :: string
  url_Host :: string
  url_Hostname :: string

record Discovery =
  disc_Issuer :: string
  disc_JWKSURI :: string

record Web =
  web_get :: "string \<Rightarrow> (nat \<times> string) option"
  web_parseURL :: "string \<Rightarrow> URL option"
  web_discovery :: "string \<Rightarrow> Discovery option"
  web_jwks :: "string \<Rightarrow> JWK option list option"
  web_onCurve :: "string \<Rightarrow> byte list \<Rightarrow> byte list \<Rightarrow> bool"

definition maxDocumentSize :: nat where "maxDocumentSize = 2 ^ 20"

definition getJSON :: "Web \<Rightarrow> (string \<Rightarrow> 'a option) \<Rightarrow> string \<Rightarrow> 'a option" where
  "getJSON W decode u =
    (case web_get W u of
       None \<Rightarrow> None
     | Some (status, body) \<Rightarrow> if status \<noteq> 200 then None else decode (take maxDocumentSize body))"

text \<open>\<^verbatim>\<open>CheckFetchURL\<close>: \<open>None\<close> is nil, the only other results are the two messages.\<close>

datatype URLProblem = NotAbsolute | MustUseHTTPS

definition CheckFetchURL :: "(string \<Rightarrow> URL option) \<Rightarrow> string \<Rightarrow> URLProblem option" where
  "CheckFetchURL parseURL u =
    (case parseURL u of
       None \<Rightarrow> Some NotAbsolute
     | Some parsed \<Rightarrow>
         if url_Scheme parsed = [] \<or> url_Host parsed = [] then Some NotAbsolute
         else if url_Scheme parsed = ''https'' then None
         else if url_Scheme parsed = ''http'' then
           if url_Hostname parsed = ''localhost'' \<or> url_Hostname parsed = ''127.0.0.1'' \<or> url_Hostname parsed = ''::1''
           then None else Some MustUseHTTPS
         else Some MustUseHTTPS)"

definition addKey :: "(string \<Rightarrow> byte list \<Rightarrow> byte list \<Rightarrow> bool) \<Rightarrow> (string \<rightharpoonup> Key) \<Rightarrow> JWK option \<Rightarrow> (string \<rightharpoonup> Key)" where
  "addKey onCurve keys raw =
    (case raw of
       None \<Rightarrow> keys
     | Some jwk \<Rightarrow> (case parseJWK onCurve jwk of None \<Rightarrow> keys | Some key \<Rightarrow> keys(jwk_Kid jwk \<mapsto> key)))"

text \<open>Whether no key of the set is usable: then the map of keys is empty.\<close>

definition noUsable :: "(string \<Rightarrow> byte list \<Rightarrow> byte list \<Rightarrow> bool) \<Rightarrow> JWK option list \<Rightarrow> bool" where
  "noUsable onCurve raws \<longleftrightarrow>
    list_all (\<lambda>raw. case raw of None \<Rightarrow> True | Some jwk \<Rightarrow> parseJWK onCurve jwk = None) raws"

definition TrimSuffix :: "string \<Rightarrow> string \<Rightarrow> string" where
  "TrimSuffix s suffix = (case CutSuffix s suffix of Some r \<Rightarrow> r | None \<Rightarrow> s)"

definition fetchKeys :: "Web \<Rightarrow> Issuer \<Rightarrow> (string \<rightharpoonup> Key) option" where
  "fetchKeys W issuer =
    (let discoveryURL = TrimSuffix (iss_URL issuer) ''/'' @ ''/.well-known/openid-configuration'' in
     case getJSON W (web_discovery W) discoveryURL of
       None \<Rightarrow> None
     | Some discovery \<Rightarrow>
         if disc_Issuer discovery \<noteq> iss_URL issuer then None
         else if CheckFetchURL (web_parseURL W) (disc_JWKSURI discovery) \<noteq> None then None
         else case getJSON W (web_jwks W) (disc_JWKSURI discovery) of
           None \<Rightarrow> None
         | Some raws \<Rightarrow>
             if noUsable (web_onCurve W) raws then None
             else Some (foldl (addKey (web_onCurve W)) Map.empty raws))"

section \<open>The verifier\<close>

text \<open>
  Times are in nanoseconds; \<open>None\<close> is the zero time, from which \<^verbatim>\<open>time.Since\<close> gives the largest
  duration. A running fetch is known by its number.
\<close>

record verifier =
  v_issuer :: Issuer
  v_maxAge :: int
  v_minRefresh :: int
  v_keys :: "string \<rightharpoonup> Key"
  v_fetched :: "int option"
  v_lastAttempt :: "int option"
  v_inflight :: "nat option"

definition keysMaxAge :: int where "keysMaxAge = 3600000000000"
definition minRefreshInterval :: int where "minRefreshInterval = 60000000000"

definition newOIDCVerifier :: "Issuer \<Rightarrow> verifier" where
  "newOIDCVerifier issuer = \<lparr>v_issuer = issuer, v_maxAge = keysMaxAge, v_minRefresh = minRefreshInterval,
     v_keys = Map.empty, v_fetched = None, v_lastAttempt = None, v_inflight = None\<rparr>"

definition since :: "int \<Rightarrow> int option \<Rightarrow> int" where
  "since now t = (case t of None \<Rightarrow> 2 ^ 63 - 1 | Some t \<Rightarrow> now - t)"

text \<open>\<^verbatim>\<open>startFetchLocked\<close>: the new state and the channel; \<open>f\<close> is the number of a fetch that it starts.\<close>

definition startFetchLocked :: "int \<Rightarrow> nat \<Rightarrow> verifier \<Rightarrow> verifier \<times> nat option" where
  "startFetchLocked now f v =
    (if v_inflight v \<noteq> None \<or> since now (v_lastAttempt v) < v_minRefresh v then (v, v_inflight v)
     else (v\<lparr>v_lastAttempt := Some now, v_inflight := Some f\<rparr>, Some f))"

text \<open>The first part of \<^verbatim>\<open>key\<close>, under the lock: the key, or the channel to wait for, if any.\<close>

definition keyStart :: "int \<Rightarrow> nat \<Rightarrow> string \<Rightarrow> verifier \<Rightarrow> verifier \<times> (Key + nat option)" where
  "keyStart now f kid v =
    (case v_keys v kid of
       Some k \<Rightarrow>
         (if since now (v_fetched v) > v_maxAge v then fst (startFetchLocked now f v) else v, Inl k)
     | None \<Rightarrow>
         (case v_inflight v of
            Some ch \<Rightarrow> (v, Inr (Some ch))
          | None \<Rightarrow> (case startFetchLocked now f v of (v, ch) \<Rightarrow> (v, Inr ch))))"

text \<open>The second part, after the wait.\<close>

definition keyEnd :: "string \<Rightarrow> verifier \<Rightarrow> Key option" where
  "keyEnd kid v = v_keys v kid"

text \<open>The end of a fetch's goroutine, under the lock.\<close>

definition fetchDone :: "int \<Rightarrow> (string \<rightharpoonup> Key) option \<Rightarrow> verifier \<Rightarrow> verifier" where
  "fetchDone now result v =
    (case result of
       None \<Rightarrow> v\<lparr>v_inflight := None\<rparr>
     | Some keys \<Rightarrow> v\<lparr>v_keys := keys, v_fetched := Some now, v_inflight := None\<rparr>)"

definition prefetch :: "int \<Rightarrow> nat \<Rightarrow> verifier \<Rightarrow> verifier" where
  "prefetch now f v = fst (startFetchLocked now f v)"

section \<open>The verifier over time\<close>

text \<open>
  The verifier with its clock, and the history of the run: when fetches were started (last one
  first), and the keys of each one that ended (\<open>None\<close> for a failure).
\<close>

record Run =
  run_verifier :: verifier
  run_now :: int
  run_starts :: "int list"
  run_results :: "(string \<rightharpoonup> Key) option list"

definition noteStart :: "verifier \<Rightarrow> Run \<Rightarrow> Run" where
  "noteStart v r =
    r\<lparr>run_verifier := v,
      run_starts := (if v_inflight v \<noteq> v_inflight (run_verifier r) then run_now r # run_starts r else run_starts r)\<rparr>"

inductive oidcStep :: "Run \<Rightarrow> Run \<Rightarrow> bool" where
  elapse: "0 \<le> d \<Longrightarrow> oidcStep r (r\<lparr>run_now := run_now r + d\<rparr>)"
| prefetched: "oidcStep r (noteStart (prefetch (run_now r) (length (run_starts r)) (run_verifier r)) r)"
| keyAsked: "keyStart (run_now r) (length (run_starts r)) kid (run_verifier r) = (v, answer) \<Longrightarrow>
    oidcStep r (noteStart v r)"
| fetched: "v_inflight (run_verifier r) = Some f \<Longrightarrow>
    oidcStep r (r\<lparr>run_verifier := fetchDone (run_now r) result (run_verifier r), run_results := result # run_results r\<rparr>)"

definition initialRun :: "Issuer \<Rightarrow> int \<Rightarrow> Run" where
  "initialRun issuer now =
    \<lparr>run_verifier = newOIDCVerifier issuer, run_now = now, run_starts = [], run_results = []\<rparr>"

text \<open>The keys of the last fetch that succeeded.\<close>

fun lastKeys :: "(string \<rightharpoonup> Key) option list \<Rightarrow> (string \<rightharpoonup> Key)" where
  "lastKeys [] = Map.empty"
| "lastKeys (None # rs) = lastKeys rs"
| "lastKeys (Some keys # rs) = keys"

text \<open>Each start comes at least the interval after the one before.\<close>

fun spaced :: "int \<Rightarrow> int list \<Rightarrow> bool" where
  "spaced m (t # u # ts) \<longleftrightarrow> u + m \<le> t \<and> spaced m (u # ts)"
| "spaced m _ \<longleftrightarrow> True"

definition runOk :: "Run \<Rightarrow> bool" where
  "runOk r \<longleftrightarrow>
    (let v = run_verifier r in
      v_minRefresh v = minRefreshInterval \<and> v_maxAge v = keysMaxAge
      \<and> v_keys v = lastKeys (run_results r)
      \<and> spaced (v_minRefresh v) (run_starts r)
      \<and> v_lastAttempt v = (case run_starts r of [] \<Rightarrow> None | t # _ \<Rightarrow> Some t)
      \<and> (case run_starts r of [] \<Rightarrow> True | t # _ \<Rightarrow> t \<le> run_now r)
      \<and> length (run_starts r) = length (run_results r) + (if v_inflight v = None then 0 else 1)
      \<and> (\<forall>f. v_inflight v = Some f \<longrightarrow> f < length (run_starts r)))"

lemma startFetchLocked_cases:
  obtains (kept) "startFetchLocked now f v = (v, v_inflight v)" and "v_inflight v \<noteq> None \<or> since now (v_lastAttempt v) < v_minRefresh v"
  | (started) "startFetchLocked now f v = (v\<lparr>v_lastAttempt := Some now, v_inflight := Some f\<rparr>, Some f)"
      and "v_inflight v = None" and "v_minRefresh v \<le> since now (v_lastAttempt v)"
  unfolding startFetchLocked_def by (cases "v_inflight v \<noteq> None \<or> since now (v_lastAttempt v) < v_minRefresh v") auto

lemma keyStart_state:
  assumes "keyStart now f kid v = (v', answer)"
  shows "v' = v \<or> v' = fst (startFetchLocked now f v)"
  using assms by (auto simp: keyStart_def split: option.splits prod.splits if_splits)

lemma runOk_init: "runOk (initialRun issuer now)"
  by (simp add: runOk_def initialRun_def newOIDCVerifier_def)

lemma runOk_keep: "runOk r \<Longrightarrow> runOk (noteStart (run_verifier r) r)"
  by (simp add: noteStart_def)

lemma runOk_started:
  assumes "runOk r" and "v_inflight (run_verifier r) = None"
    and "v_minRefresh (run_verifier r) \<le> since (run_now r) (v_lastAttempt (run_verifier r))"
  shows "runOk (noteStart ((run_verifier r)\<lparr>v_lastAttempt := Some (run_now r), v_inflight := Some (length (run_starts r))\<rparr>) r)"
  using assms by (cases "run_starts r") (auto simp: runOk_def noteStart_def since_def Let_def)

lemma runOk_start: "runOk r \<Longrightarrow> runOk (noteStart (fst (startFetchLocked (run_now r) (length (run_starts r)) (run_verifier r))) r)"
  using runOk_started runOk_keep
  by (cases rule: startFetchLocked_cases [of "run_now r" "length (run_starts r)" "run_verifier r"]) auto

lemma runOk_step: "oidcStep r r' \<Longrightarrow> runOk r \<Longrightarrow> runOk r'"
proof (induction rule: oidcStep.induct)
  case (elapse d r)
  then show ?case by (cases "run_starts r") (auto simp: runOk_def Let_def)
next
  case (prefetched r)
  with runOk_start show ?case by (simp add: prefetch_def)
next
  case (keyAsked r kid v answer)
  from keyStart_state [OF keyAsked(1)] keyAsked(2) runOk_start runOk_keep show ?case by auto
next
  case (fetched r f result)
  then show ?case by (cases result; cases "run_starts r") (auto simp: runOk_def fetchDone_def Let_def)
qed

lemma reachable_runOk: "oidcStep\<^sup>*\<^sup>* (initialRun issuer now) r \<Longrightarrow> runOk r"
  by (induction rule: rtranclp_induct) (auto intro: runOk_init runOk_step)

lemma keyStart_found:
  assumes "keyStart now f kid v = (v', Inl k)" and "since now (v_fetched v) > v_maxAge v"
  shows "v_inflight v' \<noteq> None \<or> since now (v_lastAttempt v') < v_minRefresh v'"
  using assms
  by (cases rule: startFetchLocked_cases [of now f v]) (auto simp: keyStart_def split: option.splits prod.splits)

section \<open>Accepted keys\<close>

lemma addKey_foldl:
  "foldl (addKey oc) m raws kid = Some k \<Longrightarrow> m kid = Some k \<or> (\<exists>jwk. Some jwk \<in> set raws \<and> jwk_Kid jwk = kid \<and> parseJWK oc jwk = Some k)"
  by (induction raws rule: rev_induct) (auto simp: addKey_def split: option.splits if_splits)

lemma noUsable_empty: "noUsable oc raws \<longleftrightarrow> foldl (addKey oc) Map.empty raws = Map.empty"
proof -
  have "foldl (addKey oc) m raws = Map.empty \<longleftrightarrow> m = Map.empty \<and> noUsable oc raws" for m
    by (induction raws arbitrary: m) (auto simp: addKey_def noUsable_def split: option.splits)
  then show ?thesis by simp
qed

lemma fetchKeys_key:
  assumes "fetchKeys W issuer = Some keys" and "keys kid = Some k"
  obtains jwk where "parseJWK (web_onCurve W) jwk = Some k" and "jwk_Kid jwk = kid"
  using assms addKey_foldl [of "web_onCurve W" Map.empty _ kid k]
  by (auto simp: fetchKeys_def Let_def split: option.splits if_splits)

lemma parseJWK_cases:
  assumes "parseJWK oc jwk = Some k"
  obtains (RSA) n bs e where "k = RSAKey n e" and "b64 (jwk_N jwk) = Some bs" and "n = bigInt bs"
      and "256 \<le> length bs" and "3 \<le> e" and "e < 2 ^ 31"
  | (EC) crv sz x y where "k = ECKey crv x y" and "curveSize crv = Some sz" and "length x = sz" and "length y = sz"
      and "oc crv x y"
  | (Ed) x where "k = EdKey x" and "length x = 32"
proof -
  from assms consider "parseRSA jwk = Some k" | "parseEC oc jwk = Some k" | "parseOKP jwk = Some k"
    unfolding parseJWK_def by (metis option.distinct(1))
  then show thesis
    by cases (auto simp: parseRSA_def parseEC_def parseOKP_def Let_def RSA EC Ed split: if_splits option.splits)
qed

end
