(* ===== verification/Go_Time.thy ===== *)
theory Go_Time
  imports Go_Strings Go_Float
begin

text \<open>
  \<^verbatim>\<open>time.ParseDuration\<close> of Go's standard library, which reads the durations of the configuration.
  Fractions are computed in float64, so the products and quotients that it needs are here too.
  The lemmas show that every result fits int64, and what a whole number of a unit reads as.
\<close>

section \<open>Products and quotients of floats\<close>

text \<open>
  For the bit patterns of finite numbers that are not negative. The quotient is rounded from 128
  more bits and a last one that stands for the rest of the division.
\<close>

definition mulFloat :: "nat \<Rightarrow> nat \<Rightarrow> nat" where
  "mulFloat x y = roundFloat 52 (- 1074) inf64 (mantissa 52 x * mantissa 52 y)
     (exponent 52 (- 1074) x + exponent 52 (- 1074) y)"

definition divFloat :: "nat \<Rightarrow> nat \<Rightarrow> nat" where
  "divFloat x y =
    (let a = mantissa 52 x * 2 ^ 128; b = mantissa 52 y
     in roundFloat 52 (- 1074) inf64 (2 * (a div b) + (if a mod b = 0 then 0 else 1))
          (exponent 52 (- 1074) x - exponent 52 (- 1074) y - 129))"

definition floatOfNat :: "nat \<Rightarrow> nat" where
  "floatOfNat n = roundFloat 52 (- 1074) inf64 n 0"

section \<open>ParseDuration\<close>

text \<open>\<^verbatim>\<open>leadingInt\<close>: the number before the first other character, which must not exceed \<open>2 ^ 63\<close>.\<close>

fun leadingInt :: "nat \<Rightarrow> string \<Rightarrow> (nat \<times> string) option" where
  "leadingInt x [] = Some (x, [])"
| "leadingInt x (c # s) =
    (if \<not> isDigit c then Some (x, c # s)
     else if x > 2 ^ 63 div 10 then None
     else if x * 10 + digitVal c > 2 ^ 63 then None
     else leadingInt (x * 10 + digitVal c) s)"

text \<open>\<^verbatim>\<open>leadingFraction\<close>: digits beyond what fits are skipped. The scale is a float64.\<close>

fun leadingFraction :: "nat \<Rightarrow> nat \<Rightarrow> bool \<Rightarrow> string \<Rightarrow> nat \<times> nat \<times> string" where
  "leadingFraction x scale overflow [] = (x, scale, [])"
| "leadingFraction x scale overflow (c # s) =
    (if \<not> isDigit c then (x, scale, c # s)
     else if overflow \<or> x > (2 ^ 63 - 1) div 10 \<or> x * 10 + digitVal c > 2 ^ 63
       then leadingFraction x scale True s
     else leadingFraction (x * 10 + digitVal c) (mulFloat scale (floatOfNat 10)) False s)"

definition unitMap :: "(string \<times> nat) list" where
  "unitMap = [(''ns'', 1), (''us'', 1000), (map char_of [0xC2, 0xB5 :: nat] @ ''s'', 1000),
     (map char_of [0xCE, 0xBC :: nat] @ ''s'', 1000), (''ms'', 1000000), (''s'', 1000000000),
     (''m'', 60000000000), (''h'', 3600000000000)]"

definition unitEnd :: "char \<Rightarrow> bool" where
  "unitEnd c \<longleftrightarrow> c = CHR ''.'' \<or> isDigit c"

text \<open>One round of the loop: a number with a unit, and what is left.\<close>

definition durationPart :: "string \<Rightarrow> (nat \<times> string) option" where
  "durationPart s =
    (case leadingInt 0 s of
       None \<Rightarrow> None
     | Some (v, s1) \<Rightarrow>
         let dot = (s1 \<noteq> [] \<and> hd s1 = CHR ''.'');
             (f, scale, s2) = (if dot then leadingFraction 0 (floatOfNat 1) False (tl s1) else (0, floatOfNat 1, s1));
             pre = (length s1 \<noteq> length s);
             post = (dot \<and> length s2 \<noteq> length (tl s1));
             u = takeWhile (\<lambda>c. \<not> unitEnd c) s2
         in if \<not> pre \<and> \<not> post then None
            else case map_of unitMap u of
              None \<Rightarrow> None
            | Some unit \<Rightarrow>
                if v > 2 ^ 63 div unit then None
                else let w = v * unit + (if f > 0 then truncated (mulFloat (floatOfNat f) (divFloat (floatOfNat unit) scale)) else 0)
                  in if f > 0 \<and> w > 2 ^ 63 then None else Some (w, drop (length u) s2))"

lemma leadingInt_shorter: "leadingInt x s = Some (v, r) \<Longrightarrow> length r \<le> length s"
  by (induction x s rule: leadingInt.induct) (auto split: if_splits)

lemma leadingFraction_shorter: "leadingFraction x sc ov s = (f, sc', r) \<Longrightarrow> length r \<le> length s"
  by (induction x sc ov s rule: leadingFraction.induct) (auto split: if_splits dest: le_SucI)

lemma unit_not_empty: "map_of unitMap u = Some unit \<Longrightarrow> u \<noteq> []"
  by (auto simp: unitMap_def split: if_splits)

lemma unitEnd_code: "unitEnd c \<longleftrightarrow> of_char c = (46 :: nat) \<or> isDigit c"
proof -
  have "c = CHR ''.'' \<longleftrightarrow> of_char c = (of_char (CHR ''.'') :: nat)" by (simp only: of_char_eq_iff)
  then show ?thesis by (simp add: unitEnd_def)
qed

lemma durationPart_shorter:
  assumes "durationPart s = Some (w, r)"
  shows "length r < length s"
proof -
  from assms obtain v s1 where int: "leadingInt 0 s = Some (v, s1)"
    by (auto simp: durationPart_def split: option.splits)
  define dot where "dot = (s1 \<noteq> [] \<and> hd s1 = CHR ''.'')"
  obtain f scale s2 where frac: "(if dot then leadingFraction 0 (floatOfNat 1) False (tl s1) else (0, floatOfNat 1, s1)) = (f, scale, s2)"
    by (metis prod_cases3)
  let ?u = "takeWhile (\<lambda>c. \<not> unitEnd c) s2"
  from assms int frac have u: "?u \<noteq> []" and r: "r = drop (length ?u) s2"
    by (auto simp: durationPart_def dot_def [symmetric] Let_def dest: unit_not_empty split: option.splits if_splits)
  have "length s2 \<le> length s1"
    using frac leadingFraction_shorter [of 0 "floatOfNat 1" False "tl s1" f scale s2] by (auto split: if_splits)
  also have "length s1 \<le> length s" by (rule leadingInt_shorter [OF int])
  finally have "length s2 \<le> length s" .
  moreover have "length r < length s2"
    unfolding r length_drop using u by (intro diff_less) auto
  ultimately show ?thesis by simp
qed

function durationLoop :: "nat \<Rightarrow> string \<Rightarrow> nat option" where
  "durationLoop d s =
    (if s = [] then Some d
     else if \<not> unitEnd (hd s) then None
     else case durationPart s of
       None \<Rightarrow> None
     | Some (v, r) \<Rightarrow> let d' = (d + v) mod 2 ^ 64 in if d' > 2 ^ 63 then None else durationLoop d' r)"
  by pat_completeness auto

termination
  by (relation "measure (\<lambda>(_, s). length s)") (auto dest: durationPart_shorter)

declare durationLoop.simps [simp del]

text \<open>The duration in nanoseconds; \<open>None\<close> is an error.\<close>

definition ParseDuration :: "string \<Rightarrow> int option" where
  "ParseDuration s =
    (let sign = (s \<noteq> [] \<and> (hd s = CHR ''-'' \<or> hd s = CHR ''+''));
         neg = (sign \<and> hd s = CHR ''-'');
         s' = (if sign then tl s else s)
     in if s' = ''0'' then Some 0
        else if s' = [] then None
        else case durationLoop 0 s' of
          None \<Rightarrow> None
        | Some d \<Rightarrow>
            if neg then Some (- int d)
            else if d > 2 ^ 63 - 1 then None else Some (int d))"

section \<open>What it reads\<close>

lemma durationLoop_bound: "durationLoop d s = Some d' \<Longrightarrow> d \<le> 2 ^ 63 \<Longrightarrow> d' \<le> 2 ^ 63"
proof (induction d s rule: durationLoop.induct)
  case (1 d s)
  from 1(2,3) show ?case
    by (subst (asm) durationLoop.simps) (auto simp: Let_def split: if_splits option.splits dest!: 1(1))
qed

lemma ParseDuration_bound: "ParseDuration s = Some d \<Longrightarrow> - (2 ^ 63) \<le> d \<and> d < 2 ^ 63"
  using durationLoop_bound [of 0 "if s \<noteq> [] \<and> (hd s = CHR ''-'' \<or> hd s = CHR ''+'') then tl s else s"]
  by (auto simp: ParseDuration_def Let_def split: if_splits option.splits)

lemma leadingInt_digits:
  assumes "list_all isDigit ds" and "foldl (\<lambda>n c. 10 * n + digitVal c) x ds \<le> 2 ^ 63"
    and "r = [] \<or> \<not> isDigit (hd r)"
  shows "leadingInt x (ds @ r) = Some (foldl (\<lambda>n c. 10 * n + digitVal c) x ds, r)"
  using assms
proof (induction ds arbitrary: x)
  case Nil
  then show ?case by (cases r) auto
next
  case (Cons c ds)
  have grows: "y \<le> foldl (\<lambda>n c. 10 * n + digitVal c) y ds" for y
  proof (induction ds arbitrary: y)
    case (Cons c ds)
    have "y \<le> 10 * y + digitVal c" by simp
    also have "\<dots> \<le> foldl (\<lambda>n c. 10 * n + digitVal c) (10 * y + digitVal c) ds" by (rule Cons)
    finally show ?case by simp
  qed simp
  have "10 * x + digitVal c \<le> 2 ^ 63"
    using grows [of "10 * x + digitVal c"] Cons.prems(2) by simp
  with Cons show ?case by (auto simp: mult.commute)
qed

text \<open>A whole number of a unit, as in the documentation: \<^verbatim>\<open>3s\<close>, \<^verbatim>\<open>500ms\<close>, \<^verbatim>\<open>1m\<close>.\<close>

lemma durationPart_whole:
  assumes "(u, unit) \<in> set unitMap" and "n * unit < 2 ^ 63"
  shows "durationPart (showNat n @ u) = Some (n * unit, [])"
proof -
  have u: "map_of unitMap u = Some unit" "u \<noteq> []" "\<not> unitEnd (hd u)" "list_all (\<lambda>c. \<not> unitEnd c) u" "0 < unit"
    using assms(1) by (auto simp: unitMap_def unitEnd_code isDigit_def)
  then have "\<not> isDigit (hd u)" "hd u \<noteq> CHR ''.''" by (simp_all add: unitEnd_def)
  moreover have "n \<le> 2 ^ 63 div unit"
    using assms(2) u(5) by (simp add: less_eq_div_iff_mult_less_eq)
  moreover from this have "n \<le> 2 ^ 63" using order_trans [OF _ div_le_dividend] by blast
  ultimately have int: "leadingInt 0 (showNat n @ u) = Some (n, u)"
    using leadingInt_digits [OF showNat_digits, where x = 0 and r = u] decimalValue_showNat [of n] by (simp add: decimalValue_def)
  have all: "takeWhile (\<lambda>c. \<not> unitEnd c) u = u"
    using u(4) by (simp add: takeWhile_eq_all_conv list_all_iff)
  from int u \<open>hd u \<noteq> _\<close> \<open>n \<le> 2 ^ 63 div unit\<close> show ?thesis
    by (simp add: durationPart_def Let_def all)
qed

lemma ParseDuration_whole:
  assumes "(u, unit) \<in> set unitMap" and "n * unit < 2 ^ 63"
  shows "ParseDuration (showNat n @ u) = Some (int (n * unit))"
proof -
  let ?s = "showNat n @ u"
  have digit: "isDigit (hd ?s)" using showNat_digits [of n] by (cases "showNat n") simp_all
  then have first: "hd ?s \<noteq> CHR ''-''" "hd ?s \<noteq> CHR ''+''" "unitEnd (hd ?s)"
    by (auto simp: isDigit_def unitEnd_def)
  have "u \<noteq> []" using assms(1) by (auto simp: unitMap_def)
  have "?s \<noteq> ''0''"
  proof
    assume eq: "?s = ''0''"
    from \<open>u \<noteq> []\<close> have "length ?s \<ge> 2" by (cases "showNat n"; cases u) simp_all
    with eq show False by simp
  qed
  moreover have "durationLoop 0 ?s = Some (n * unit)"
    using assms(2) first durationPart_whole [OF assms]
    by (subst durationLoop.simps) (simp add: Let_def, simp add: durationLoop.simps)
  ultimately show ?thesis
    using first assms(2) by (simp add: ParseDuration_def Let_def)
qed

end
