(* ===== verification/Config.thy ===== *)
theory Config
  imports Auth_OIDC Go_Time
begin

text \<open>
  \<^verbatim>\<open>internal/config/config.go\<close>: the configuration as the YAML file gives it, its defaults and
  validation, and its translation into what the other packages expect. The YAML library is a
  parameter. The lemmas show that validation finds no problem exactly when a configuration meets
  the declarative conditions for it, and what the translation of a valid configuration gives.
\<close>

section \<open>The configuration\<close>

text \<open>A duration is in nanoseconds. The aliases of devices are a map; their order does not matter.\<close>

type_synonym Duration = int

record TLSConfig =
  tls_Enabled :: bool
  tls_CertFile :: string
  tls_KeyFile :: string

record ListenConfig =
  listen_Address :: string
  listen_TLS :: TLSConfig
  listen_TrustedProxies :: "string list"

record BacnetConfig =
  bn_LocalPort :: int
  bn_Timeout :: Duration
  bn_Retries :: int
  bn_CacheRefresh :: Duration

record OIDCConfig =
  oidc_Issuer :: string
  oidc_Audience :: string

record TokenConfig =
  tok_Name :: string
  tok_Token :: string

record AuthenticationConfig =
  authn_Tokens :: "TokenConfig list"
  authn_JWTSecret :: string
  authn_OIDC :: "OIDCConfig list"

record ConditionConfig =
  cc_Type :: string
  cc_Field :: string
  cc_Value :: string

record RuleConfig =
  rc_Name :: string
  rc_Conditions :: "ConditionConfig list"
  rc_Match :: string
  rc_Permission :: string
  rc_Action :: string

record Config =
  Listen :: ListenConfig
  Bacnet :: BacnetConfig
  Authentication :: AuthenticationConfig
  Authorization :: "RuleConfig list"
  Devices :: "(string \<times> string) list"

text \<open>
  \<^verbatim>\<open>Duration.UnmarshalYAML\<close> on a node that the library decodes as a text, or fails to; the error
  is the list of messages of a \<^verbatim>\<open>yaml.TypeError\<close>. \<open>Q\<close> is the verb \<^verbatim>\<open>%q\<close>.
\<close>

definition UnmarshalYAML :: "(string \<Rightarrow> string) \<Rightarrow> string list + string \<Rightarrow> nat \<Rightarrow> string list + Duration" where
  "UnmarshalYAML Q decoded line =
    (case decoded of
       Inl err \<Rightarrow> Inl err
     | Inr s \<Rightarrow>
         (case ParseDuration s of
            None \<Rightarrow> Inl [''line '' @ showNat line @ '': invalid duration '' @ Q s @ '' (use e.g. 3s, 500ms, 1m)'']
          | Some d \<Rightarrow> Inr d))"

definition applyDefaults :: "Config \<Rightarrow> Config" where
  "applyDefaults c =
    (let l = Listen c; b = Bacnet c
     in c\<lparr>Listen := l\<lparr>listen_Address := (if listen_Address l = [] then '':8443'' else listen_Address l)\<rparr>,
          Bacnet := b\<lparr>bn_Timeout := (if bn_Timeout b = 0 then 3 * 10 ^ 9 else bn_Timeout b),
                      bn_Retries := (if bn_Retries b = 0 then 3 else bn_Retries b),
                      bn_CacheRefresh := (if bn_CacheRefresh b = 0 then 60 * 10 ^ 9 else bn_CacheRefresh b)\<rparr>\<rparr>)"

section \<open>Trusted proxies\<close>

text \<open>\<open>Inl\<close> is the message of the error; \<^verbatim>\<open>net.ParseCIDR\<close> reports the text it was given.\<close>

definition parseIPOrCIDR :: "(string \<Rightarrow> string) \<Rightarrow> string \<Rightarrow> string + IPNet" where
  "parseIPOrCIDR Q s =
    (if CHR ''/'' \<in> set s then
       case ParseCIDR s of
         None \<Rightarrow> Inl (''invalid CIDR '' @ Q s @ '': invalid CIDR address: '' @ s)
       | Some ipnet \<Rightarrow> Inr ipnet
     else let ip = ParseIP s in
       if ip = [] then Inl (''invalid IP '' @ Q s)
       else if To4 ip \<noteq> [] then Inr \<lparr>NetIP = To4 ip, NetMask = CIDRMask 32 32\<rparr>
       else Inr \<lparr>NetIP = ip, NetMask = CIDRMask 128 128\<rparr>)"

definition TrustedProxyNets :: "(string \<Rightarrow> string) \<Rightarrow> Config \<Rightarrow> IPNet list" where
  "TrustedProxyNets Q c =
    concat (map (\<lambda>p. case parseIPOrCIDR Q p of Inl _ \<Rightarrow> [] | Inr ipnet \<Rightarrow> [ipnet]) (listen_TrustedProxies (Listen c)))"

section \<open>Validation\<close>

record FieldError =
  fe_Path :: string
  fe_Msg :: string

definition fieldErrorf :: "string \<Rightarrow> string \<Rightarrow> FieldError" where
  "fieldErrorf path msg = \<lparr>fe_Path = path, fe_Msg = msg\<rparr>"

text \<open>\<^verbatim>\<open>fmt.Sprintf("%s[%d]", path, i)\<close>, and the errors of a list of settings in order.\<close>

definition element :: "string \<Rightarrow> nat \<Rightarrow> string" where
  "element path i = path @ ''['' @ showNat i @ '']''"

definition eachElement :: "string \<Rightarrow> (string \<Rightarrow> 'a \<Rightarrow> FieldError list) \<Rightarrow> 'a list \<Rightarrow> FieldError list" where
  "eachElement path f xs = concat (map (\<lambda>(i, x). f (element path i) x) (enumerate 0 xs))"

definition errorIf :: "bool \<Rightarrow> FieldError \<Rightarrow> FieldError list" where
  "errorIf b e = (if b then [e] else [])"

definition tlsErrors :: "TLSConfig \<Rightarrow> FieldError list" where
  "tlsErrors t =
    (if tls_Enabled t then
       errorIf (tls_CertFile t = []) (fieldErrorf ''listen.tls.certFile'' ''required when listen.tls.enabled is true'')
       @ errorIf (tls_KeyFile t = []) (fieldErrorf ''listen.tls.keyFile'' ''required when listen.tls.enabled is true'')
     else [])"

definition proxyErrors :: "(string \<Rightarrow> string) \<Rightarrow> string \<Rightarrow> string \<Rightarrow> FieldError list" where
  "proxyErrors Q path p = (case parseIPOrCIDR Q p of Inl err \<Rightarrow> [fieldErrorf path err] | Inr _ \<Rightarrow> [])"

text \<open>The loops that remember what they have seen; the map is the list of its keys.\<close>

fun tokenErrors :: "(string \<Rightarrow> string) \<Rightarrow> nat \<Rightarrow> string list \<Rightarrow> TokenConfig list \<Rightarrow> FieldError list" where
  "tokenErrors Q i seen [] = []"
| "tokenErrors Q i seen (tok # toks) =
    (let path = element ''authentication.tokens'' i in
       errorIf (tok_Name tok = []) (fieldErrorf (path @ ''.name'') ''required'')
       @ errorIf (tok_Token tok = []) (fieldErrorf (path @ ''.token'') ''required'')
       @ errorIf (tok_Name tok \<noteq> [] \<and> tok_Name tok \<in> set seen)
           (fieldErrorf (path @ ''.name'') (''duplicate token name '' @ Q (tok_Name tok)))
       @ tokenErrors Q (i + 1) (tok_Name tok # seen) toks)"

definition urlMessage :: "(string \<Rightarrow> string) \<Rightarrow> string \<Rightarrow> URLProblem \<Rightarrow> string" where
  "urlMessage Q u p = (case p of NotAbsolute \<Rightarrow> Q u @ '' is not an absolute URL'' | MustUseHTTPS \<Rightarrow> Q u @ '' must use https'')"

definition issuerErrors :: "(string \<Rightarrow> string) \<Rightarrow> (string \<Rightarrow> URL option) \<Rightarrow> string \<Rightarrow> string list \<Rightarrow> string \<Rightarrow> FieldError list" where
  "issuerErrors Q parseURL path seen issuer =
    (if issuer = [] then [fieldErrorf path ''required'']
     else case CheckFetchURL parseURL issuer of
       Some p \<Rightarrow> [fieldErrorf path (urlMessage Q issuer p)]
     | None \<Rightarrow> errorIf (issuer \<in> set seen) (fieldErrorf path (''duplicate issuer '' @ Q issuer)))"

fun oidcErrors :: "(string \<Rightarrow> string) \<Rightarrow> (string \<Rightarrow> URL option) \<Rightarrow> nat \<Rightarrow> string list \<Rightarrow> OIDCConfig list \<Rightarrow> FieldError list" where
  "oidcErrors Q parseURL i seen [] = []"
| "oidcErrors Q parseURL i seen (o' # os) =
    (let path = element ''authentication.oidc'' i in
       issuerErrors Q parseURL (path @ ''.issuer'') seen (oidc_Issuer o')
       @ errorIf (oidc_Audience o' = []) (fieldErrorf (path @ ''.audience'')
           ''required: without it, access tokens the issuer made for any other application would be accepted'')
       @ oidcErrors Q parseURL (i + 1) (oidc_Issuer o' # seen) os)"

definition conditionErrors :: "(string \<Rightarrow> string) \<Rightarrow> string \<Rightarrow> ConditionConfig \<Rightarrow> FieldError list" where
  "conditionErrors Q cpath c =
    (if cc_Type c \<in> {ConditionDevice, ConditionIP, ConditionOperation, ConditionToken, ConditionVariable} then []
     else if cc_Type c = ConditionJWT then
       errorIf (cc_Field c = []) (fieldErrorf (cpath @ ''.field'') ''required for a jwt condition'')
     else [fieldErrorf (cpath @ ''.type'')
       (''invalid condition type '' @ Q (cc_Type c) @ '' (expected one of: device, ip, jwt, operation, token, variable)'')])"

definition permissionErrors :: "(string \<Rightarrow> string) \<Rightarrow> string \<Rightarrow> RuleConfig \<Rightarrow> FieldError list" where
  "permissionErrors Q path r =
    (if rc_Action r = ActionAllow \<or> rc_Action r = ActionAllowNow then
       if rc_Permission r = PermissionReadOnly \<or> rc_Permission r = PermissionReadWrite then []
       else if rc_Permission r = [] then
         [fieldErrorf (path @ ''.permission'') ''required for an allow rule (readonly or readwrite)'']
       else [fieldErrorf (path @ ''.permission'')
         (''invalid permission '' @ Q (rc_Permission r) @ '' (expected readonly or readwrite)'')]
     else [])"

definition ruleErrors :: "(string \<Rightarrow> string) \<Rightarrow> string \<Rightarrow> RuleConfig \<Rightarrow> FieldError list" where
  "ruleErrors Q path r =
    errorIf (rc_Match r \<notin> {MatchNone, MatchNotAll, MatchAny, MatchAll}) (fieldErrorf (path @ ''.match'')
      (''invalid match '' @ Q (rc_Match r) @ '' (expected one of: all, any, none, not-all)''))
    @ errorIf (rc_Action r \<notin> {ActionAllowNow, ActionDenyNow, ActionAllow, ActionDeny}) (fieldErrorf (path @ ''.action'')
      (''invalid action '' @ Q (rc_Action r) @ '' (expected one of: allow, allow-now, deny, deny-now)''))
    @ permissionErrors Q path r
    @ eachElement (path @ ''.conditions'') (conditionErrors Q) (rc_Conditions r)"

definition Validate :: "(string \<Rightarrow> string) \<Rightarrow> (string \<Rightarrow> URL option) \<Rightarrow> Config \<Rightarrow> FieldError list" where
  "Validate Q parseURL c =
    tlsErrors (listen_TLS (Listen c))
    @ errorIf (bn_CacheRefresh (Bacnet c) < 0) (fieldErrorf ''bacnet.cacheRefresh'' ''must be positive'')
    @ eachElement ''listen.trustedProxies'' (proxyErrors Q) (listen_TrustedProxies (Listen c))
    @ tokenErrors Q 0 [] (authn_Tokens (Authentication c))
    @ oidcErrors Q parseURL 0 [] (authn_OIDC (Authentication c))
    @ eachElement ''authorization.rules'' (ruleErrors Q) (Authorization c)"

section \<open>Translation\<close>

definition AuthTokens :: "Config \<Rightarrow> Token list" where
  "AuthTokens c = map (\<lambda>t. \<lparr>token_Name = tok_Name t, token_Value = tok_Token t\<rparr>) (authn_Tokens (Authentication c))"

definition AuthIssuers :: "Config \<Rightarrow> Issuer list" where
  "AuthIssuers c = map (\<lambda>o'. \<lparr>iss_URL = oidc_Issuer o', iss_Audience = oidc_Audience o'\<rparr>) (authn_OIDC (Authentication c))"

definition authzCondition :: "ConditionConfig \<Rightarrow> Condition" where
  "authzCondition c = \<lparr>cond_Type = cc_Type c, cond_Field = cc_Field c, cond_Value = cc_Value c\<rparr>"

definition authzRule :: "RuleConfig \<Rightarrow> Rule" where
  "authzRule r = \<lparr>rule_Name = rc_Name r, rule_Conditions = map authzCondition (rc_Conditions r), rule_Match = rc_Match r,
     rule_Permission = rc_Permission r, rule_Action = rc_Action r\<rparr>"

definition AuthzRules :: "Config \<Rightarrow> Rule list" where
  "AuthzRules c = map authzRule (Authorization c)"

definition ResolveDevice :: "Config \<Rightarrow> string \<Rightarrow> string" where
  "ResolveDevice c dev = (case map_of (Devices c) dev of Some addr \<Rightarrow> addr | None \<Rightarrow> dev)"

section \<open>What validation accepts\<close>

definition validRule :: "RuleConfig \<Rightarrow> bool" where
  "validRule r \<longleftrightarrow>
    rc_Match r \<in> {MatchNone, MatchNotAll, MatchAny, MatchAll}
    \<and> rc_Action r \<in> {ActionAllowNow, ActionDenyNow, ActionAllow, ActionDeny}
    \<and> (isAllow (rc_Action r) \<longrightarrow> rc_Permission r \<in> {PermissionReadOnly, PermissionReadWrite})
    \<and> (\<forall>c \<in> set (rc_Conditions r).
         cc_Type c \<in> {ConditionDevice, ConditionIP, ConditionJWT, ConditionOperation, ConditionToken, ConditionVariable}
         \<and> (cc_Type c = ConditionJWT \<longrightarrow> cc_Field c \<noteq> []))"

definition validConfig :: "(string \<Rightarrow> URL option) \<Rightarrow> Config \<Rightarrow> bool" where
  "validConfig parseURL c \<longleftrightarrow>
    (tls_Enabled (listen_TLS (Listen c)) \<longrightarrow> tls_CertFile (listen_TLS (Listen c)) \<noteq> [] \<and> tls_KeyFile (listen_TLS (Listen c)) \<noteq> [])
    \<and> 0 \<le> bn_CacheRefresh (Bacnet c)
    \<and> (\<forall>p \<in> set (listen_TrustedProxies (Listen c)). \<exists>ipnet. parseIPOrCIDR id p = Inr ipnet)
    \<and> (\<forall>t \<in> set (authn_Tokens (Authentication c)). tok_Name t \<noteq> [] \<and> tok_Token t \<noteq> [])
    \<and> distinct (map tok_Name (authn_Tokens (Authentication c)))
    \<and> (\<forall>o' \<in> set (authn_OIDC (Authentication c)). oidc_Issuer o' \<noteq> [] \<and> oidc_Audience o' \<noteq> []
         \<and> CheckFetchURL parseURL (oidc_Issuer o') = None)
    \<and> distinct (map oidc_Issuer (authn_OIDC (Authentication c)))
    \<and> (\<forall>r \<in> set (Authorization c). validRule r)"

lemma errorIf_Nil [simp]: "errorIf b e = [] \<longleftrightarrow> \<not> b"
  by (simp add: errorIf_def)

lemma eachElement_Nil: "eachElement path f xs = [] \<longleftrightarrow> (\<forall>i < length xs. f (element path i) (xs ! i) = [])"
  by (auto simp: eachElement_def in_set_enumerate_eq all_set_conv_all_nth nth_enumerate_eq)

text \<open>The message of a bad proxy is printed with \<open>Q\<close>; whether it is bad does not depend on it.\<close>

lemma parseIPOrCIDR_Inr: "(\<exists>n. parseIPOrCIDR Q p = Inr n) \<longleftrightarrow> (\<exists>n. parseIPOrCIDR Q' p = Inr n)"
  "parseIPOrCIDR Q p = Inr n \<longleftrightarrow> parseIPOrCIDR Q' p = Inr n"
  by (auto simp: parseIPOrCIDR_def Let_def split: option.splits if_splits)

lemma tokenErrors_Nil:
  "tokenErrors Q i seen toks = [] \<longleftrightarrow>
    (\<forall>t \<in> set toks. tok_Name t \<noteq> [] \<and> tok_Token t \<noteq> []) \<and> distinct (map tok_Name toks)
    \<and> set (map tok_Name toks) \<inter> set seen = {}"
  by (induction toks arbitrary: i seen) (auto simp: Let_def)

lemma issuerErrors_Nil:
  "issuerErrors Q parseURL path seen u = [] \<longleftrightarrow> u \<noteq> [] \<and> CheckFetchURL parseURL u = None \<and> u \<notin> set seen"
  by (simp add: issuerErrors_def split: option.split)

lemma oidcErrors_Nil:
  "oidcErrors Q parseURL i seen os = [] \<longleftrightarrow>
    (\<forall>o' \<in> set os. oidc_Issuer o' \<noteq> [] \<and> oidc_Audience o' \<noteq> [] \<and> CheckFetchURL parseURL (oidc_Issuer o') = None)
    \<and> distinct (map oidc_Issuer os) \<and> set (map oidc_Issuer os) \<inter> set seen = {}"
  by (induction os arbitrary: i seen) (auto simp: Let_def issuerErrors_Nil)

lemma ruleErrors_Nil: "ruleErrors Q path r = [] \<longleftrightarrow> validRule r"
proof -
  have "conditionErrors Q p c = [] \<longleftrightarrow>
      cc_Type c \<in> {ConditionDevice, ConditionIP, ConditionJWT, ConditionOperation, ConditionToken, ConditionVariable}
      \<and> (cc_Type c = ConditionJWT \<longrightarrow> cc_Field c \<noteq> [])" for p c
    by (auto simp: conditionErrors_def Condition_defs)
  moreover have "permissionErrors Q path r = [] \<longleftrightarrow>
      (isAllow (rc_Action r) \<longrightarrow> rc_Permission r \<in> {PermissionReadOnly, PermissionReadWrite})"
    by (auto simp: permissionErrors_def isAllow_def)
  ultimately show ?thesis
    by (simp add: ruleErrors_def validRule_def eachElement_Nil all_set_conv_all_nth)
qed

lemma Validate_Nil: "Validate Q parseURL c = [] \<longleftrightarrow> validConfig parseURL c"
proof -
  have proxies: "eachElement path (proxyErrors Q) ps = [] \<longleftrightarrow> (\<forall>p \<in> set ps. \<exists>n. parseIPOrCIDR id p = Inr n)" for path ps
  proof -
    have "proxyErrors Q q p = [] \<longleftrightarrow> (\<exists>n. parseIPOrCIDR Q p = Inr n)" for q p
      by (simp add: proxyErrors_def split: sum.split)
    then show ?thesis
      unfolding parseIPOrCIDR_Inr(1) [of id _ Q] by (simp add: eachElement_Nil all_set_conv_all_nth)
  qed
  show ?thesis
    by (auto simp: Validate_def validConfig_def tlsErrors_def proxies tokenErrors_Nil oidcErrors_Nil eachElement_Nil [of _ "ruleErrors Q"]
        ruleErrors_Nil all_set_conv_all_nth not_less)
qed

section \<open>What a valid configuration gives\<close>

text \<open>No trusted proxy is dropped.\<close>

lemma TrustedProxyNets_valid:
  assumes "validConfig parseURL c"
  shows "map Inr (TrustedProxyNets Q c) = map (parseIPOrCIDR Q) (listen_TrustedProxies (Listen c))"
proof -
  have "\<forall>p \<in> set (listen_TrustedProxies (Listen c)). \<exists>n. parseIPOrCIDR Q p = Inr n"
    using assms parseIPOrCIDR_Inr(1) [of Q _ id] by (auto simp: validConfig_def)
  moreover have "\<forall>p \<in> set ps. \<exists>n. parseIPOrCIDR Q p = Inr n \<Longrightarrow>
      map Inr (concat (map (\<lambda>p. case parseIPOrCIDR Q p of Inl _ \<Rightarrow> [] | Inr ipnet \<Rightarrow> [ipnet]) ps)) = map (parseIPOrCIDR Q) ps" for ps
    by (induction ps) auto
  ultimately show ?thesis unfolding TrustedProxyNets_def by blast
qed

text \<open>Whatever the request, an allowing decision carries one of the two permissions.\<close>

lemma Evaluate_permission:
  assumes "\<forall>r \<in> set rs. validRule r" and "result_Allowed (Evaluate F req (map authzRule rs))"
  shows "result_Permission (Evaluate F req (map authzRule rs)) \<in> {PermissionReadOnly, PermissionReadWrite}"
proof -
  let ?rules = "map authzRule rs"
  have sub: "set (considered F req rules) \<subseteq> set rules" for rules
    by (induction rules) auto
  obtain r' where r': "lastApplying F req (considered F req ?rules) = Some r'"
    using assms(2) by (auto simp: Evaluate_eq resultOr_def implicitDefault_def split: option.splits)
  then have "r' \<in> set (considered F req ?rules)"
    using last_in_set [of "filter (ruleApplies F req) (considered F req ?rules)"]
    by (auto simp: lastApplying_def split: list.splits)
  with sub obtain r where "r \<in> set rs" "r' = authzRule r" by fastforce
  moreover from r' have "Evaluate F req ?rules = ruleResult r'" by (simp add: Evaluate_eq resultOr_def)
  ultimately have "r \<in> set rs" "Evaluate F req ?rules = ruleResult (authzRule r)" by simp_all
  with assms show ?thesis by (auto simp: validRule_def ruleResult_def authzRule_def)
qed

text \<open>Every issuer has its verifier, for its own audience.\<close>

lemma issuers_valid:
  assumes "validConfig parseURL c"
  shows "issuers (NewAuthenticator \<lparr>opt_Tokens = ts, opt_JWTSecret = sec, opt_Issuers = AuthIssuers c\<rparr>) u = Some v
    \<longleftrightarrow> v \<in> set (AuthIssuers c) \<and> iss_URL v = u"
proof -
  have "distinct (map iss_URL is') \<Longrightarrow>
      foldl (\<lambda>m i. m(iss_URL i \<mapsto> i)) Map.empty is' u = Some v \<longleftrightarrow> v \<in> set is' \<and> iss_URL v = u" for is'
    by (induction is' arbitrary: v rule: rev_induct) (auto simp: rev_image_eqI)
  moreover have "distinct (map iss_URL (AuthIssuers c))"
    using assms by (simp add: validConfig_def AuthIssuers_def o_def)
  ultimately show ?thesis by (simp add: NewAuthenticator_def)
qed

end
