(* ===== verification/Config_Errors.thy ===== *)
theory Config_Errors
  imports Config "HOL-Library.List_Lexorder" "HOL-Library.Char_ord"
begin

text \<open>
  \<^verbatim>\<open>internal/config/errors.go\<close> and \<^verbatim>\<open>Load\<close>: how problems of the configuration file are
  reported, with the line of the setting concerned. The lemmas show that looking up a setting's
  path never panics and gives the line of the closest enclosing setting that is present.
\<close>

section \<open>Errors of the YAML library\<close>

text \<open>\<^verbatim>\<open>strings.Split\<close> at a character, \<^verbatim>\<open>strings.TrimPrefix\<close> and \<^verbatim>\<open>strconv.Atoi\<close>.\<close>

fun Split :: "char \<Rightarrow> string \<Rightarrow> string list" where
  "Split sep [] = [[]]"
| "Split sep (c # s) = (if c = sep then [] # Split sep s else (c # hd (Split sep s)) # tl (Split sep s))"

definition TrimPrefix :: "string \<Rightarrow> string \<Rightarrow> string" where
  "TrimPrefix s prefix = (case CutPrefix s prefix of Some r \<Rightarrow> r | None \<Rightarrow> s)"

definition Atoi :: "string \<Rightarrow> int option" where
  "Atoi s =
    (let neg = (s \<noteq> [] \<and> hd s = CHR ''-''); ds = (if neg \<or> (s \<noteq> [] \<and> hd s = CHR ''+'') then tl s else s)
     in if ds = [] \<or> \<not> list_all isDigit ds then None
        else let n = (if neg then - int (decimalValue ds) else int (decimalValue ds))
          in if - (2 ^ 63) \<le> n \<and> n < 2 ^ 63 then Some n else None)"

text \<open>The regular expression \<open>yamlLinePrefix\<close>: the number of the line and what follows the match.\<close>

definition yamlLinePrefix :: "string \<Rightarrow> (string \<times> string) option" where
  "yamlLinePrefix msg =
    (case CutPrefix (TrimPrefix msg ''yaml: '') ''line '' of
       None \<Rightarrow> None
     | Some r \<Rightarrow>
         let ds = takeWhile isDigit r in
         if ds = [] then None
         else map_option (Pair ds) (CutPrefix (drop (length ds) r) '': ''))"

text \<open>\<open>yamlUnknownField\<close>: the name of the field and of the type. \<open>notSpace\<close> is the class of what is not ASCII white space.\<close>

definition notSpace :: "char \<Rightarrow> bool" where
  "notSpace c \<longleftrightarrow> (of_char c :: nat) \<notin> {9, 10, 12, 13, 32}"

definition yamlUnknownField :: "string \<Rightarrow> (string \<times> string) option" where
  "yamlUnknownField msg =
    (case CutPrefix msg ''field '' of
       None \<Rightarrow> None
     | Some r \<Rightarrow>
         let f = takeWhile notSpace r in
         if f = [] then None
         else case CutPrefix (drop (length f) r) '' not found in type '' of
           None \<Rightarrow> None
         | Some t \<Rightarrow> if t \<noteq> [] \<and> list_all notSpace t then Some (f, t) else None)"

text \<open>
  What reflection sees of the type \<open>Config\<close>: a struct has a name and its fields' tags and types; a pointer,
  slice or map has the type of its elements. No struct occurs twice, so \<open>seen\<close> has no effect.
\<close>

datatype goType = Basic | Elem goType | Struct string "(string \<times> goType) list"

definition configType :: goType where
  "configType = Struct ''config.Config''
    [(''listen'', Struct ''config.ListenConfig''
        [(''address'', Basic),
         (''tls'', Struct ''config.TLSConfig'' [(''enabled'', Basic), (''certFile'', Basic), (''keyFile'', Basic)]),
         (''trustedProxies'', Elem Basic)]),
     (''bacnet'', Struct ''config.BacnetConfig''
        [(''localPort'', Basic), (''timeout'', Basic), (''retries'', Basic), (''cacheRefresh'', Basic)]),
     (''authentication'', Struct ''config.AuthenticationConfig''
        [(''tokens'', Elem (Struct ''config.TokenConfig'' [(''name'', Basic), (''token'', Basic)])),
         (''jwtSecret'', Basic),
         (''oidc'', Elem (Struct ''config.OIDCConfig'' [(''issuer'', Basic), (''audience'', Basic)]))]),
     (''authorization'', Struct ''config.AuthorizationConfig''
        [(''rules'', Elem (Struct ''config.RuleConfig''
            [(''name'', Basic),
             (''conditions'', Elem (Struct ''config.ConditionConfig'' [(''type'', Basic), (''field'', Basic), (''value'', Basic)])),
             (''match'', Basic), (''permission'', Basic), (''action'', Basic)]))]),
     (''devices'', Elem Basic)]"

fun walk :: "goType \<Rightarrow> (string \<times> string list) list" and walkFields :: "(string \<times> goType) list \<Rightarrow> (string \<times> string list) list" where
  "walk Basic = []"
| "walk (Elem t) = walk t"
| "walk (Struct name fs) = (name, map fst fs) # walkFields fs"
| "walkFields [] = []"
| "walkFields ((tag, t) # fs) = walk t @ walkFields fs"

definition knownFields :: "string \<Rightarrow> string" where
  "knownFields typeName =
    (case map_of (rev (walk configType)) typeName of
       None \<Rightarrow> []
     | Some tags \<Rightarrow>
         Join '', '' (sort (filter (\<lambda>name. name \<noteq> [] \<and> name \<noteq> ''-'') (map (\<lambda>tag. cutBefore tag (CHR '','')) tags))))"

datatype yamlError = TypeError "string list" | OtherError string

definition yamlMessage :: "(string \<Rightarrow> string) \<Rightarrow> string \<Rightarrow> string \<Rightarrow> string" where
  "yamlMessage Q file msg =
    (let (pos, rest) = (case yamlLinePrefix msg of
           Some (line, rest) \<Rightarrow> (file @ '':'' @ line, rest)
         | None \<Rightarrow> (file, TrimPrefix msg ''yaml: ''));
         text' = (case yamlUnknownField rest of
           None \<Rightarrow> rest
         | Some (f, t) \<Rightarrow>
             ''unknown field '' @ Q f
             @ (if knownFields t \<noteq> [] then '' (expected one of: '' @ knownFields t @ '')'' else []))
     in pos @ '': '' @ text')"

definition yamlErrors :: "(string \<Rightarrow> string) \<Rightarrow> string \<Rightarrow> yamlError \<Rightarrow> string list" where
  "yamlErrors Q file err =
    map (yamlMessage Q file) (case err of TypeError msgs \<Rightarrow> msgs | OtherError msg \<Rightarrow> [msg])"

section \<open>Lines of settings\<close>

text \<open>A node as \<^verbatim>\<open>yaml.v3\<close> gives it; \<open>ZeroNode\<close> is the kind of the node of an empty file.\<close>

datatype Kind = ZeroNode | DocumentNode | SequenceNode | MappingNode | ScalarNode | AliasNode

datatype Node = Node (n_Kind: Kind) (n_Value: string) (n_Line: nat) (n_Content: "Node list")

text \<open>The loop over a mapping's pairs: the node of the key and the one of its value.\<close>

fun findKey :: "string \<Rightarrow> Node list \<Rightarrow> (Node \<times> Node) option" where
  "findKey key (k # v # rest) = (if n_Value k = key then Some (k, v) else findKey key rest)"
| "findKey key _ = None"

lemma TrimPrefix_length: "length (TrimPrefix s p) \<le> length s"
  by (auto simp: TrimPrefix_def CutPrefix_def split: option.split)

text \<open>The loop over the indexes of one segment: \<open>Inr\<close> is a line that is returned at once.\<close>

function indexLoop :: "Node \<Rightarrow> nat \<Rightarrow> string \<Rightarrow> ('e, Node \<times> nat + nat) res" where
  "indexLoop n line rest =
    (if rest = [] then Ok (Inl (n, line))
     else let idxStr = cutBefore rest (CHR '']''); after = drop (length idxStr + 1) rest
       in case Atoi idxStr of
         None \<Rightarrow> Ok (Inr line)
       | Some idx \<Rightarrow>
           if n_Kind n \<noteq> SequenceNode \<or> idx \<ge> int (length (n_Content n)) then Ok (Inr line)
           else if idx < 0 then Panic
           else let n' = n_Content n ! nat idx in indexLoop n' (n_Line n') (TrimPrefix after ''[''))"
  by pat_completeness auto

termination
proof (relation "measure (\<lambda>(_, _, rest). length rest)", goal_cases)
  case (2 n line rest idxStr after idx n')
  then have "length after < length rest" by (cases rest) simp_all
  with TrimPrefix_length [of after "''[''"] show ?case by simp
qed simp

declare indexLoop.simps [simp del]

fun segmentLoop :: "Node \<Rightarrow> nat \<Rightarrow> string list \<Rightarrow> ('e, nat) res" where
  "segmentLoop n line [] = Ok line"
| "segmentLoop n line (seg # segs) =
    (let key = cutBefore seg (CHR ''[''); rest = drop (length key + 1) seg in
     if n_Kind n \<noteq> MappingNode then Ok line
     else case findKey key (n_Content n) of
       None \<Rightarrow> Ok line
     | Some (k, v) \<Rightarrow>
         res_bind (indexLoop v (n_Line k) rest) (\<lambda>r. case r of
           Inl (n', line') \<Rightarrow> segmentLoop n' line' segs
         | Inr line' \<Rightarrow> Ok line'))"

definition documentRoot :: "Node \<Rightarrow> Node" where
  "documentRoot root = (if n_Kind root = DocumentNode \<and> n_Content root \<noteq> [] then hd (n_Content root) else root)"

definition lineOf :: "Node option \<Rightarrow> string \<Rightarrow> ('e, nat) res" where
  "lineOf root path =
    (case root of
       None \<Rightarrow> Ok 0
     | Some root \<Rightarrow> segmentLoop (documentRoot root) 0 (Split (CHR ''.'') path))"

definition errorText :: "FieldError \<Rightarrow> string" where
  "errorText e = fe_Path e @ '': '' @ fe_Msg e"

text \<open>Every error of the validation is a \<open>FieldError\<close>; one without a line is reported for the file.\<close>

definition located :: "string \<Rightarrow> nat \<Rightarrow> FieldError \<Rightarrow> string" where
  "located file line e =
    (if line > 0 then file @ '':'' @ showNat line @ '': '' @ errorText e else file @ '': '' @ errorText e)"

definition withLines :: "string \<Rightarrow> Node option \<Rightarrow> FieldError list \<Rightarrow> ('e, string list) res" where
  "withLines file root errs = mapR (\<lambda>e. res_bind (lineOf root (fe_Path e)) (\<lambda>line. Ok (located file line e))) errs"

section \<open>Loading\<close>

text \<open>
  The YAML library: strict decoding into a \<open>Config\<close> (\<open>Empty\<close> is \<^verbatim>\<open>io.EOF\<close>, which leaves the zero
  value), and decoding into a node.
\<close>

datatype decoded = Decoded Config | Empty | Failed yamlError

record Yaml =
  yaml_Decode :: "string \<Rightarrow> decoded"
  yaml_Unmarshal :: "string \<Rightarrow> Node"

definition zeroConfig :: Config where
  "zeroConfig = \<lparr>Listen = \<lparr>listen_Address = [], listen_TLS = \<lparr>tls_Enabled = False, tls_CertFile = [], tls_KeyFile = []\<rparr>,
       listen_TrustedProxies = []\<rparr>,
     Bacnet = \<lparr>bn_LocalPort = 0, bn_Timeout = 0, bn_Retries = 0, bn_CacheRefresh = 0\<rparr>,
     Authentication = \<lparr>authn_Tokens = [], authn_JWTSecret = [], authn_OIDC = []\<rparr>, Authorization = [], Devices = []\<rparr>"

text \<open>\<open>ReadFailed\<close> has the error of reading the file, \<open>ConfigErrors\<close> the lines below \<^verbatim>\<open>config errors:\<close>.\<close>

datatype LoadError = ReadFailed string | ConfigErrors "string list"

definition Load ::
  "(string \<Rightarrow> string) \<Rightarrow> (string \<Rightarrow> URL option) \<Rightarrow> Yaml \<Rightarrow> (string \<Rightarrow> string + string) \<Rightarrow> string \<Rightarrow> (LoadError, Config) res" where
  "Load Q parseURL Y readFile path =
    (case readFile path of
       Inl err \<Rightarrow> Err (ReadFailed (''config: read '' @ path @ '': '' @ err))
     | Inr data \<Rightarrow>
         let checked = (\<lambda>cfg. let cfg = applyDefaults cfg; errs = Validate Q parseURL cfg
               in if errs \<noteq> [] then
                    res_bind (withLines path (Some (yaml_Unmarshal Y data)) errs) (\<lambda>ls. Err (ConfigErrors ls))
                  else Ok cfg)
         in case yaml_Decode Y data of
           Failed err \<Rightarrow> Err (ConfigErrors (yamlErrors Q path err))
         | Empty \<Rightarrow> checked zeroConfig
         | Decoded cfg \<Rightarrow> checked cfg)"

section \<open>Paths of settings\<close>

text \<open>
  A path is a list of keys, each with the indexes that follow it. \<open>closestLine\<close> walks down a document and
  keeps the line of the last step that it could make.
\<close>

datatype step = Key string | Idx nat

type_synonym path = "(string \<times> nat list) list"

definition steps :: "path \<Rightarrow> step list" where
  "steps p = concat (map (\<lambda>(k, is'). Key k # map Idx is') p)"

definition showIndexes :: "nat list \<Rightarrow> string" where
  "showIndexes is' = concat (map (\<lambda>i. ''['' @ showNat i @ '']'') is')"

definition showPath :: "path \<Rightarrow> string" where
  "showPath p = Join ''.'' (map (\<lambda>(k, is'). k @ showIndexes is') p)"

definition goodKey :: "string \<Rightarrow> bool" where
  "goodKey k \<longleftrightarrow> CHR ''.'' \<notin> set k \<and> CHR ''['' \<notin> set k"

definition goodPath :: "path \<Rightarrow> bool" where
  "goodPath p \<longleftrightarrow> p \<noteq> [] \<and> (\<forall>(k, is') \<in> set p. goodKey k \<and> (\<forall>i \<in> set is'. i < 2 ^ 63))"

text \<open>One step down: the node and the line reported for it.\<close>

definition child :: "Node \<Rightarrow> step \<Rightarrow> (Node \<times> nat) option" where
  "child n s =
    (case s of
       Key k \<Rightarrow> if n_Kind n = MappingNode then map_option (\<lambda>(kn, v). (v, n_Line kn)) (findKey k (n_Content n)) else None
     | Idx i \<Rightarrow> if n_Kind n = SequenceNode \<and> i < length (n_Content n)
         then Some (n_Content n ! i, n_Line (n_Content n ! i)) else None)"

fun settingAt :: "Node \<times> nat \<Rightarrow> step list \<Rightarrow> (Node \<times> nat) option" where
  "settingAt at [] = Some at"
| "settingAt at (s # ss) = (case child (fst at) s of None \<Rightarrow> None | Some at' \<Rightarrow> settingAt at' ss)"

fun closest :: "Node \<times> nat \<Rightarrow> step list \<Rightarrow> Node \<times> nat" where
  "closest at [] = at"
| "closest at (s # ss) = (case child (fst at) s of None \<Rightarrow> at | Some at' \<Rightarrow> closest at' ss)"

text \<open>It is the deepest setting on the path that is present.\<close>

lemma closest_deepest:
  "\<exists>k \<le> length ss. settingAt at (take k ss) = Some (closest at ss)
    \<and> (\<forall>j. k < j \<and> j \<le> length ss \<longrightarrow> settingAt at (take j ss) = None)"
proof (induction ss arbitrary: at)
  case (Cons s ss)
  show ?case
  proof (cases "child (fst at) s")
    case None
    have "settingAt at (take j (s # ss)) = None" if "0 < j" for j
      using that None by (cases j) simp_all
    with None show ?thesis by (intro exI [of _ 0]) simp
  next
    case (Some at')
    from Cons [of at'] obtain k where k: "k \<le> length ss" "settingAt at' (take k ss) = Some (closest at' ss)"
      and deeper: "\<forall>j. k < j \<and> j \<le> length ss \<longrightarrow> settingAt at' (take j ss) = None" by blast
    have "settingAt at (take j (s # ss)) = None" if "Suc k < j" "j \<le> Suc (length ss)" for j
      using that deeper Some by (cases j) simp_all
    with k Some show ?thesis by (intro exI [of _ "Suc k"]) simp
  qed
qed simp

section \<open>Looking up a path\<close>

lemma Split_not_Nil [simp]: "Split sep s \<noteq> []"
  by (cases s) simp_all

lemma Split_plain: "sep \<notin> set s \<Longrightarrow> Split sep s = [s]"
  by (induction s) auto

lemma Split_append: "sep \<notin> set s \<Longrightarrow> Split sep (s @ sep # t) = s # Split sep t"
  by (induction s) auto

lemma Split_Join: "ss \<noteq> [] \<Longrightarrow> \<forall>s \<in> set ss. sep \<notin> set s \<Longrightarrow> Split sep (Join [sep] ss) = ss"
  by (induction "[sep]" ss rule: Join.induct) (simp_all add: Split_plain Split_append)

lemma Atoi_showNat: "i < 2 ^ 63 \<Longrightarrow> Atoi (showNat i) = Some (int i)"
proof -
  assume "i < 2 ^ 63"
  have "isDigit (hd (showNat i))"
    using showNat_digits [of i] by (cases "showNat i") simp_all
  then have "hd (showNat i) \<noteq> CHR ''-''" "hd (showNat i) \<noteq> CHR ''+''" by (auto simp: isDigit_def)
  with \<open>i < 2 ^ 63\<close> show ?thesis
    by (simp add: Atoi_def Let_def showNat_digits decimalValue_showNat)
qed

lemma digit_free: "\<not> isDigit c \<Longrightarrow> c \<notin> set (showNat i)"
  using showNat_digits [of i] by (auto simp: list_all_iff)

lemma cutBefore_append: "c \<notin> set s \<Longrightarrow> cutBefore (s @ c # t) c = s"
  by (simp add: cutBefore_def takeWhile_append)

lemma cutBefore_plain: "c \<notin> set s \<Longrightarrow> cutBefore s c = s"
  by (auto simp: cutBefore_def takeWhile_eq_all_conv)

text \<open>The text of indexes after its first bracket, as the loop sees it.\<close>

lemma indexLoop_indexes:
  assumes "\<forall>i \<in> set is'. i < 2 ^ 63"
  shows "indexLoop n line (drop 1 (showIndexes is')) =
    (if settingAt (n, line) (map Idx is') = None then Ok (Inr (snd (closest (n, line) (map Idx is'))))
     else Ok (Inl (closest (n, line) (map Idx is'))))"
  using assms
proof (induction is' arbitrary: n line)
  case Nil
  then show ?case by (simp add: showIndexes_def indexLoop.simps)
next
  case (Cons i is')
  have br: "\<not> isDigit (CHR '']'')" by (simp add: isDigit_def)
  have shown: "drop 1 (showIndexes (i # is')) = showNat i @ CHR '']'' # showIndexes is'"
    by (simp add: showIndexes_def)
  have rest: "TrimPrefix (showIndexes is') ''['' = drop 1 (showIndexes is')"
    by (cases is') (simp_all add: showIndexes_def TrimPrefix_def CutPrefix_def HasPrefix_def)
  show ?case
    unfolding shown using Cons
    by (subst indexLoop.simps)
      (auto simp: Let_def cutBefore_append [OF digit_free [OF br]] Atoi_showNat rest child_def split: option.split)
qed

lemma indexLoop_of_key:
  assumes "goodKey k" and "\<forall>i \<in> set is'. i < 2 ^ 63"
  shows "cutBefore (k @ showIndexes is') (CHR ''['') = k"
    and "drop (length k + 1) (k @ showIndexes is') = drop 1 (showIndexes is')"
proof -
  show "cutBefore (k @ showIndexes is') (CHR ''['') = k"
    using assms(1) cutBefore_plain [of "CHR ''[''" k]
    by (cases is') (simp_all add: showIndexes_def goodKey_def cutBefore_append)
qed simp

lemma closest_append:
  "closest at (ss @ ts) = (case settingAt at ss of None \<Rightarrow> closest at ss | Some at' \<Rightarrow> closest at' ts)"
  by (induction ss arbitrary: at) (auto split: option.split)

lemma settingAt_closest: "settingAt at ss = Some at' \<Longrightarrow> closest at ss = at'"
  by (induction ss arbitrary: at) (auto split: option.splits)

lemma segmentLoop_closest:
  assumes "\<forall>(k, is') \<in> set p. goodKey k \<and> (\<forall>i \<in> set is'. i < 2 ^ 63)"
  shows "(segmentLoop n line (map (\<lambda>(k, is'). k @ showIndexes is') p) :: ('e, nat) res) = Ok (snd (closest (n, line) (steps p)))"
  using assms
proof (induction p arbitrary: n line)
  case Nil
  then show ?case by (simp add: steps_def)
next
  case (Cons g p)
  obtain k is' where g: "g = (k, is')" by (cases g)
  with Cons.prems have good: "goodKey k" "\<forall>i \<in> set is'. i < 2 ^ 63" by simp_all
  have steps: "steps ((k, is') # p) = Key k # map Idx is' @ steps p" by (simp add: steps_def)
  have IH: "(segmentLoop n line (map (\<lambda>(k, is'). k @ showIndexes is') p) :: ('e, nat) res) = Ok (snd (closest (n, line) (steps p)))" for n line
    using Cons by simp
  show ?case
  proof (cases "if n_Kind n = MappingNode then findKey k (n_Content n) else None")
    case None
    then show ?thesis
      by (auto simp: g steps child_def Let_def indexLoop_of_key [OF good] split: if_splits)
  next
    case (Some kv)
    then obtain kn v where kv: "findKey k (n_Content n) = Some (kn, v)" "n_Kind n = MappingNode"
      by (cases kv) (auto split: if_splits)
    then show ?thesis
      using IH
      by (auto simp: g steps child_def Let_def indexLoop_of_key [OF good] indexLoop_indexes [OF good(2), unfolded One_nat_def] closest_append
          split: option.split dest!: settingAt_closest)
  qed
qed

lemma lineOf_closest:
  assumes "goodPath p"
  shows "lineOf (Some root) (showPath p) = Ok (snd (closest (documentRoot root, 0) (steps p)))"
proof -
  have dots: "CHR ''.'' \<notin> set (showIndexes is')" for is'
  proof -
    have "\<not> isDigit (CHR ''.'')" by (simp add: isDigit_def)
    with digit_free show ?thesis by (auto simp: showIndexes_def)
  qed
  have "Split (CHR ''.'') (showPath p) = map (\<lambda>(k, is'). k @ showIndexes is') p"
    unfolding showPath_def using assms dots by (intro Split_Join) (auto simp: goodPath_def goodKey_def)
  with assms segmentLoop_closest [of p] show ?thesis
    by (simp add: lineOf_def goodPath_def)
qed

section \<open>The paths that validation reports\<close>

definition settingPath :: "string \<Rightarrow> bool" where
  "settingPath s \<longleftrightarrow> (\<exists>p. goodPath p \<and> showPath p = s)"

named_theorems setting_paths \<open>texts that are paths of settings\<close>

lemma Join_append: "ss \<noteq> [] \<Longrightarrow> Join sep (ss @ [s]) = Join sep ss @ sep @ s"
  by (induction sep ss rule: Join.induct) simp_all

lemma Join_last: "Join sep (ss @ [s @ t]) = Join sep (ss @ [s]) @ t"
  by (cases "ss = []") (simp_all add: Join_append)

lemma settingPath_key: "goodKey k \<Longrightarrow> settingPath k"
  unfolding settingPath_def by (intro exI [of _ "[(k, [])]"]) (simp add: goodPath_def showPath_def showIndexes_def)

lemma settingPath_dot:
  assumes "settingPath s" and "goodKey k"
  shows "settingPath (s @ ''.'' @ k)"
proof -
  from assms(1) obtain p where "goodPath p" "showPath p = s" by (auto simp: settingPath_def)
  with assms(2) have "goodPath (p @ [(k, [])])" "showPath (p @ [(k, [])]) = s @ ''.'' @ k"
    by (auto simp: goodPath_def showPath_def Join_append showIndexes_def)
  then show ?thesis unfolding settingPath_def by blast
qed

lemma settingPath_element [setting_paths]:
  assumes "settingPath s" and "i < 2 ^ 63"
  shows "settingPath (element s i)"
proof -
  from assms(1) obtain p where "goodPath p" "showPath p = s" by (auto simp: settingPath_def)
  moreover from \<open>goodPath p\<close> obtain q k is' where "p = q @ [(k, is')]"
    by (cases p rule: rev_cases) (auto simp: goodPath_def)
  ultimately have "goodPath (q @ [(k, is' @ [i])])" "showPath (q @ [(k, is' @ [i])]) = element s i"
    using assms(2) Join_last [of "''.''" _ "k @ showIndexes is'"]
    by (auto simp: goodPath_def showPath_def showIndexes_def element_def)
  then show ?thesis unfolding settingPath_def by blast
qed

lemma goodKey_letters: "list_all (\<lambda>c. c \<noteq> CHR ''.'' \<and> c \<noteq> CHR ''['') k \<Longrightarrow> goodKey k"
  by (auto simp: goodKey_def list_all_iff)

lemma eachElement_all:
  assumes "\<And>i e. i < length xs \<Longrightarrow> e \<in> set (f (element path i) (xs ! i)) \<Longrightarrow> P e"
  shows "\<forall>e \<in> set (eachElement path f xs). P e"
  using assms by (auto simp: eachElement_def in_set_enumerate_eq)

text \<open>The lists of a configuration are shorter than the largest int.\<close>

definition inMemory :: "Config \<Rightarrow> bool" where
  "inMemory c \<longleftrightarrow>
    length (listen_TrustedProxies (Listen c)) < 2 ^ 63 \<and> length (authn_Tokens (Authentication c)) < 2 ^ 63
    \<and> length (authn_OIDC (Authentication c)) < 2 ^ 63 \<and> length (Authorization c) < 2 ^ 63
    \<and> (\<forall>r \<in> set (Authorization c). length (rc_Conditions r) < 2 ^ 63)"

abbreviation "atSettings es \<equiv> \<forall>e \<in> set es. settingPath (fe_Path e)"

lemma errorIf_setting: "(b \<Longrightarrow> settingPath path) \<Longrightarrow> atSettings (errorIf b (fieldErrorf path msg))"
  by (simp add: errorIf_def fieldErrorf_def)

lemma literal_paths [setting_paths]:
  "settingPath ''listen.tls.certFile''" "settingPath ''listen.tls.keyFile''" "settingPath ''bacnet.cacheRefresh''"
  "settingPath ''listen.trustedProxies''" "settingPath ''authentication.tokens''" "settingPath ''authentication.oidc''"
  "settingPath ''authorization.rules''"
proof -
  have two: "list_all (\<lambda>c. c \<noteq> CHR ''.'' \<and> c \<noteq> CHR ''['') a \<Longrightarrow> list_all (\<lambda>c. c \<noteq> CHR ''.'' \<and> c \<noteq> CHR ''['') b \<Longrightarrow>
      settingPath (a @ ''.'' @ b)" for a b
    by (intro settingPath_dot settingPath_key goodKey_letters)
  have three: "list_all (\<lambda>c. c \<noteq> CHR ''.'' \<and> c \<noteq> CHR ''['') c \<Longrightarrow> settingPath (a @ ''.'' @ b) \<Longrightarrow> settingPath ((a @ ''.'' @ b) @ ''.'' @ c)" for a b c
    by (intro settingPath_dot [where k = c] goodKey_letters)
  show "settingPath ''listen.tls.certFile''" "settingPath ''listen.tls.keyFile''"
    using three [of "''certFile''" "''listen''" "''tls''"] three [of "''keyFile''" "''listen''" "''tls''"] two [of "''listen''" "''tls''"]
    by simp_all
  show "settingPath ''bacnet.cacheRefresh''" "settingPath ''listen.trustedProxies''" "settingPath ''authentication.tokens''"
    "settingPath ''authentication.oidc''" "settingPath ''authorization.rules''"
    using two [of "''bacnet''" "''cacheRefresh''"] two [of "''listen''" "''trustedProxies''"]
      two [of "''authentication''" "''tokens''"] two [of "''authentication''" "''oidc''"] two [of "''authorization''" "''rules''"]
    by simp_all
qed

lemma member_path [setting_paths]:
  assumes "settingPath s"
  shows "settingPath (s @ ''.name'')" "settingPath (s @ ''.token'')" "settingPath (s @ ''.issuer'')" "settingPath (s @ ''.audience'')"
    "settingPath (s @ ''.match'')" "settingPath (s @ ''.action'')" "settingPath (s @ ''.permission'')" "settingPath (s @ ''.conditions'')"
    "settingPath (s @ ''.field'')" "settingPath (s @ ''.type'')"
  using settingPath_dot [OF assms goodKey_letters, of "''name''"] settingPath_dot [OF assms goodKey_letters, of "''token''"]
    settingPath_dot [OF assms goodKey_letters, of "''issuer''"] settingPath_dot [OF assms goodKey_letters, of "''audience''"]
    settingPath_dot [OF assms goodKey_letters, of "''match''"] settingPath_dot [OF assms goodKey_letters, of "''action''"]
    settingPath_dot [OF assms goodKey_letters, of "''permission''"] settingPath_dot [OF assms goodKey_letters, of "''conditions''"]
    settingPath_dot [OF assms goodKey_letters, of "''field''"] settingPath_dot [OF assms goodKey_letters, of "''type''"]
  by simp_all

lemma tokenErrors_paths: "i + length toks < 2 ^ 63 \<Longrightarrow> atSettings (tokenErrors Q i seen toks)"
proof (induction toks arbitrary: i seen)
  case (Cons tok toks)
  have "atSettings (tokenErrors Q (i + 1) (tok_Name tok # seen) toks)"
    using Cons.IH [of "Suc i"] Cons.prems by simp
  moreover have "settingPath (element ''authentication.tokens'' i)"
    using Cons.prems by (intro setting_paths) simp
  ultimately show ?case
    by (auto simp: Let_def errorIf_def fieldErrorf_def intro!: member_path)
qed simp

lemma oidcErrors_paths: "i + length os < 2 ^ 63 \<Longrightarrow> atSettings (oidcErrors Q parseURL i seen os)"
proof (induction os arbitrary: i seen)
  case (Cons o' os)
  have "atSettings (oidcErrors Q parseURL (i + 1) (oidc_Issuer o' # seen) os)"
    using Cons.IH [of "Suc i"] Cons.prems by simp
  moreover have "settingPath (element ''authentication.oidc'' i)"
    using Cons.prems by (intro setting_paths) simp
  ultimately show ?case
    by (auto simp: Let_def errorIf_def fieldErrorf_def issuerErrors_def intro!: member_path split: option.splits if_splits)
qed simp

lemma ruleErrors_paths:
  assumes "settingPath path" and "length (rc_Conditions r) < 2 ^ 63"
  shows "atSettings (ruleErrors Q path r)"
proof -
  have "atSettings (eachElement (path @ ''.conditions'') (conditionErrors Q) (rc_Conditions r))"
    using assms by (intro eachElement_all) (auto simp: conditionErrors_def errorIf_def fieldErrorf_def intro!: setting_paths split: if_splits)
  moreover have "atSettings (permissionErrors Q path r)"
    using assms by (auto simp: permissionErrors_def fieldErrorf_def intro!: setting_paths)
  ultimately show ?thesis
    using assms by (auto simp: ruleErrors_def errorIf_def fieldErrorf_def intro!: setting_paths)
qed

lemma Validate_paths:
  assumes "inMemory c"
  shows "atSettings (Validate Q parseURL c)"
proof -
  have "atSettings (eachElement ''listen.trustedProxies'' (proxyErrors Q) (listen_TrustedProxies (Listen c)))"
    using assms
    by (intro eachElement_all) (auto simp: inMemory_def proxyErrors_def fieldErrorf_def intro!: setting_paths split: sum.splits)
  moreover have "atSettings (eachElement ''authorization.rules'' (ruleErrors Q) (Authorization c))"
  proof (rule eachElement_all)
    fix i e
    assume i: "i < length (Authorization c)" and e: "e \<in> set (ruleErrors Q (element ''authorization.rules'' i) (Authorization c ! i))"
    with assms have "settingPath (element ''authorization.rules'' i)" by (intro setting_paths) (simp add: inMemory_def)
    moreover have "length (rc_Conditions (Authorization c ! i)) < 2 ^ 63" using assms i by (simp add: inMemory_def)
    ultimately show "settingPath (fe_Path e)" using ruleErrors_paths e by blast
  qed
  moreover have "atSettings (tlsErrors t)" for t
    by (auto simp: tlsErrors_def errorIf_def fieldErrorf_def intro!: setting_paths)
  ultimately show ?thesis
    using assms tokenErrors_paths [of 0 _ Q "[]"] oidcErrors_paths [of 0 _ Q parseURL "[]"]
    by (auto simp: Validate_def inMemory_def errorIf_def fieldErrorf_def intro!: setting_paths)
qed

text \<open>So every problem is located at the deepest setting of its path that is present.\<close>

definition locatedAt :: "string \<Rightarrow> Node \<Rightarrow> FieldError \<Rightarrow> string \<Rightarrow> bool" where
  "locatedAt file root e l \<longleftrightarrow>
    (\<exists>p k n line. goodPath p \<and> showPath p = fe_Path e \<and> k \<le> length (steps p)
      \<and> settingAt (documentRoot root, 0) (take k (steps p)) = Some (n, line)
      \<and> (\<forall>j. k < j \<and> j \<le> length (steps p) \<longrightarrow> settingAt (documentRoot root, 0) (take j (steps p)) = None)
      \<and> l = located file line e)"

lemma withLines_located:
  assumes "atSettings errs"
  shows "\<exists>ls. (withLines file (Some root) errs :: ('e, string list) res) = Ok ls \<and> list_all2 (locatedAt file root) errs ls"
  using assms
proof (induction errs)
  case (Cons e errs)
  then obtain ls where ls: "(withLines file (Some root) errs :: ('e, string list) res) = Ok ls" "list_all2 (locatedAt file root) errs ls" by auto
  from Cons.prems obtain p where p: "goodPath p" "showPath p = fe_Path e" by (auto simp: settingPath_def)
  let ?at = "closest (documentRoot root, 0) (steps p)"
  have "locatedAt file root e (located file (snd ?at) e)"
    using p closest_deepest [of "steps p" "(documentRoot root, 0)"] unfolding locatedAt_def by (metis prod.collapse)
  moreover have "(withLines file (Some root) (e # errs) :: ('e, string list) res) = Ok (located file (snd ?at) e # ls)"
    using ls(1) by (simp add: withLines_def lineOf_closest [OF p(1), unfolded p(2)])
  ultimately show ?case using ls(2) by blast
qed (simp add: withLines_def)

end
