(* ===== verification/Startup.thy ===== *)
theory Startup
  imports Config_Errors Api_Server
begin

text \<open>
  \<^verbatim>\<open>cmd/bacnet-ip-rest-proxy/main.go\<close> up to the point where it listens: what each combination of
  flags and configuration leads to, the server that a configuration gives, and the settings of the
  BACnet client (\<^verbatim>\<open>NewClient\<close>). The lemmas show what the server of a valid configuration trusts
  and permits. Listening for HTTP, signals and shutting down are not modelled.
\<close>

section \<open>The parts that a configuration starts\<close>

record ClientOptions =
  co_LocalAddr :: string
  co_Timeout :: Duration
  co_Retries :: int

text \<open>
  \<^verbatim>\<open>NewClient\<close>: the address to bind, the time for an attempt and the number of retries; or the error
  that resolving and binding the address gives.
\<close>

definition clientSettings :: "ClientOptions \<Rightarrow> string \<times> Duration \<times> int" where
  "clientSettings opts =
    (if co_LocalAddr opts = [] then ''0.0.0.0:0'' else co_LocalAddr opts,
     if co_Timeout opts \<le> 0 then 3 * 10 ^ 9 else co_Timeout opts,
     if co_Retries opts < 0 then 0 else co_Retries opts)"

definition NewClient :: "(string \<Rightarrow> string option) \<Rightarrow> ClientOptions \<Rightarrow> string + string \<times> Duration \<times> int" where
  "NewClient bind opts =
    (let settings = clientSettings opts in case bind (fst settings) of Some e \<Rightarrow> Inl e | None \<Rightarrow> Inr settings)"

definition authOptions :: "Config \<Rightarrow> Options" where
  "authOptions c = \<lparr>opt_Tokens = AuthTokens c, opt_JWTSecret = authn_JWTSecret (Authentication c), opt_Issuers = AuthIssuers c\<rparr>"

text \<open>\<^verbatim>\<open>api.NewServer\<close>: the server, and its state with the variable cache.\<close>

definition serverOf :: "(string \<Rightarrow> string) \<Rightarrow> Config \<Rightarrow> Server \<times> St" where
  "serverOf Q c =
    (NewServer (Devices c) (authOptions c) (AuthzRules c) (bn_Timeout (Bacnet c)) (TrustedProxyNets Q c), initialState (bn_CacheRefresh (Bacnet c)))"

section \<open>Running\<close>

record flags =
  fl_config :: string
  fl_version :: bool
  fl_configcheck :: bool

definition showInt :: "int \<Rightarrow> string" where
  "showInt i = (if i < 0 then ''-'' @ showNat (nat (- i)) else showNat (nat i))"

text \<open>
  \<open>Starts\<close> has the client's options, the server with its initial state, the address to listen on
  and, with TLS, the files of the certificate and the key.
\<close>

datatype startup =
    PrintsVersion
  | Refuses LoadError
  | CheckPassed
  | ClientFails string
  | Starts ClientOptions "Server \<times> St" string "(string \<times> string) option"
  | RunPanics

definition clientOptions :: "Config \<Rightarrow> ClientOptions" where
  "clientOptions c = \<lparr>co_LocalAddr = ''0.0.0.0:'' @ showInt (bn_LocalPort (Bacnet c)), co_Timeout = bn_Timeout (Bacnet c),
     co_Retries = bn_Retries (Bacnet c)\<rparr>"

definition tlsFiles :: "Config \<Rightarrow> (string \<times> string) option" where
  "tlsFiles c = (let t = listen_TLS (Listen c) in if tls_Enabled t then Some (tls_CertFile t, tls_KeyFile t) else None)"

definition run ::
  "(string \<Rightarrow> string) \<Rightarrow> (string \<Rightarrow> URL option) \<Rightarrow> Yaml \<Rightarrow> (string \<Rightarrow> string + string) \<Rightarrow> (string \<Rightarrow> string option) \<Rightarrow>
    flags \<Rightarrow> startup" where
  "run Q parseURL Y readFile bind fl =
    (if fl_version fl then PrintsVersion
     else case Load Q parseURL Y readFile (fl_config fl) of
       Err e \<Rightarrow> Refuses e
     | Panic \<Rightarrow> RunPanics
     | Ok cfg \<Rightarrow>
         if fl_configcheck fl then CheckPassed
         else case NewClient bind (clientOptions cfg) of
           Inl e \<Rightarrow> ClientFails (''starting bacnet client: '' @ e)
         | Inr _ \<Rightarrow> Starts (clientOptions cfg) (serverOf Q cfg) (listen_Address (Listen cfg)) (tlsFiles cfg))"

section \<open>Trusted proxies of a server\<close>

lemma CIDRMask_full: "CIDRMask (8 * n) (8 * n) = replicate n 0xFF"
  by (rule nth_equalityI) (simp_all add: CIDRMask_def)

lemma andOctets_full: "length a = n \<Longrightarrow> andOctets a (replicate n 0xFF) = a"
proof (rule nth_equalityI)
  have ones: "(0xFF :: byte) = - 1" by simp
  show "i < length (andOctets a (replicate n 0xFF)) \<Longrightarrow> length a = n \<Longrightarrow> andOctets a (replicate n 0xFF) ! i = a ! i" for i
    unfolding ones by (simp add: andOctets_def)
qed simp

lemma To4_To16: "To4 x \<noteq> [] \<Longrightarrow> To16 x = v4InV6Prefix @ To4 x"
proof -
  have "take 12 x = v4InV6Prefix \<Longrightarrow> x = v4InV6Prefix @ drop 12 x" by (metis append_take_drop_id)
  then show "To4 x \<noteq> [] \<Longrightarrow> To16 x = v4InV6Prefix @ To4 x" by (simp add: To4_def To16_def split: if_splits)
qed

lemma To4_short: "length (To4 x) = (if To4 x = [] then 0 else 4)"
  by (auto simp: To4_def)

text \<open>A network that is a whole address contains the one host only.\<close>

lemma host_network:
  assumes "length a \<in> {4, 16}" and "length ip \<in> {4, 16}" and "length a = 16 \<longrightarrow> To4 a = []"
  shows "Contains \<lparr>NetIP = a, NetMask = CIDRMask (8 * length a) (8 * length a)\<rparr> ip \<longleftrightarrow> To16 a = To16 ip"
proof -
  have nn: "networkNumberAndMask \<lparr>NetIP = a, NetMask = CIDRMask (8 * length a) (8 * length a)\<rparr> = (a, replicate (length a) 0xFF)"
    using assms(1,3) unfolding CIDRMask_full by (auto simp: networkNumberAndMask_def To4_def)
  let ?x = "if To4 ip \<noteq> [] then To4 ip else ip"
  have "Contains \<lparr>NetIP = a, NetMask = CIDRMask (8 * length a) (8 * length a)\<rparr> ip \<longleftrightarrow> ?x = a"
    unfolding Contains_def nn by (auto simp: Let_def andOctets_full)
  also have "\<dots> \<longleftrightarrow> To16 a = To16 ip"
  proof (cases "length a = 4")
    case True
    have "v4InV6Prefix @ a = ip \<Longrightarrow> To4 ip = a" using True by (auto simp: To4_def)
    with True assms(2) show ?thesis
      using To4_To16 [of ip] To4_short [of ip] by (auto simp: To16_def split: if_splits)
  next
    case False
    with assms show ?thesis
      using To4_To16 [of ip] To4_short [of ip] by (auto simp: To16_def To4_def split: if_splits)
  qed
  finally show ?thesis .
qed

lemma single_address:
  assumes "parseIPOrCIDR Q p = Inr net" and "CHR ''/'' \<notin> set p" and "length ip \<in> {4, 16}"
  shows "Contains net ip \<longleftrightarrow> IPEqual (ParseIP p) ip"
proof -
  let ?a = "if To4 (ParseIP p) \<noteq> [] then To4 (ParseIP p) else ParseIP p"
  from assms(1,2) have some: "ParseIP p \<noteq> []" by (auto simp: parseIPOrCIDR_def Let_def split: if_splits)
  then have len: "length (ParseIP p) = 16" using ParseIP_length [of p] by auto
  from assms(1,2) some To4_short [of "ParseIP p"] len
  have "net = \<lparr>NetIP = ?a, NetMask = CIDRMask (8 * length ?a) (8 * length ?a)\<rparr>"
    by (auto simp: parseIPOrCIDR_def Let_def split: if_splits)
  moreover have "To16 ?a = To16 (ParseIP p)"
    using To4_To16 [of "ParseIP p"] To4_short [of "ParseIP p"] by (auto simp: To16_def)
  moreover have "length ?a \<in> {4, 16}" "length ?a = 16 \<longrightarrow> To4 ?a = []"
    using len To4_short [of "ParseIP p"] by auto
  ultimately show ?thesis
    using host_network [of ?a ip] IPEqual_To16 [of "ParseIP p" ip] len assms(3) by auto
qed

lemma peerIP_length: "length (peerIP r) \<in> {0, 16}"
  unfolding peerIP_def by (rule ParseIP_length)

section \<open>The server of a valid configuration\<close>

text \<open>The networks of the configuration are all there: an entry is an address or a network.\<close>

definition entryCovers :: "string \<Rightarrow> IP \<Rightarrow> bool" where
  "entryCovers p ip \<longleftrightarrow>
    (if CHR ''/'' \<in> set p then \<exists>net. ParseCIDR p = Some net \<and> Contains net ip else IPEqual (ParseIP p) ip)"

lemma trusted_as_configured:
  assumes "validConfig parseURL c" and "length ip \<in> {0, 16}"
  shows "isTrustedProxy (fst (serverOf Q c)) ip \<longleftrightarrow>
    ip \<noteq> [] \<and> (\<exists>p \<in> set (listen_TrustedProxies (Listen c)). entryCovers p ip)"
proof (cases "ip = []")
  case False
  with assms(2) have len: "length ip \<in> {4, 16}" by auto
  have covers: "Contains net ip \<longleftrightarrow> entryCovers p ip" if "parseIPOrCIDR Q p = Inr net" for p net
    using that single_address [OF that _ len] by (auto simp: entryCovers_def parseIPOrCIDR_def split: option.splits if_splits)
  have nets: "set (TrustedProxyNets Q c) = {net. \<exists>p \<in> set (listen_TrustedProxies (Listen c)). parseIPOrCIDR Q p = Inr net}"
    unfolding TrustedProxyNets_def by (force split: sum.splits)
  have parsed: "\<exists>net. parseIPOrCIDR Q p = Inr net" if "p \<in> set (listen_TrustedProxies (Listen c))" for p
    using assms(1) parseIPOrCIDR_Inr(1) [of Q p id] that by (simp add: validConfig_def)
  have "isTrustedProxy (fst (serverOf Q c)) ip \<longleftrightarrow> (\<exists>net \<in> set (TrustedProxyNets Q c). Contains net ip)"
    using False by (simp add: serverOf_def NewServer_def isTrustedProxy_def list_ex_iff)
  also have "\<dots> \<longleftrightarrow> (\<exists>p \<in> set (listen_TrustedProxies (Listen c)). entryCovers p ip)"
    unfolding nets using covers parsed by blast
  finally show ?thesis using False by simp
qed (simp add: isTrustedProxy_def)

end
