(* ===== verification/Config_Theorems.thy ===== *)
theory Config_Theorems
  imports Startup
begin

text \<open>
  The properties of the configuration: which files are accepted, how problems are located, and
  what a proxy that starts with a configuration trusts and permits.
\<close>

section \<open>A small file\<close>

text \<open>A configuration with a rule, a token and two trusted proxies, and one whose rule has a wrong match mode.\<close>

definition demoConfig :: "string \<Rightarrow> Config" where
  "demoConfig mode =
    \<lparr>Listen = \<lparr>listen_Address = [], listen_TLS = \<lparr>tls_Enabled = False, tls_CertFile = [], tls_KeyFile = []\<rparr>,
       listen_TrustedProxies = []\<rparr>,
     Bacnet = \<lparr>bn_LocalPort = 0, bn_Timeout = 0, bn_Retries = 0, bn_CacheRefresh = 0\<rparr>,
     Authentication = \<lparr>authn_Tokens = [\<lparr>tok_Name = ''ops'', tok_Token = ''s3cret''\<rparr>], authn_JWTSecret = [], authn_OIDC = []\<rparr>,
     Authorization = [\<lparr>rc_Name = ''operators'', rc_Conditions = [\<lparr>cc_Type = ''token'', cc_Field = [], cc_Value = ''ops''\<rparr>],
       rc_Match = mode, rc_Permission = ''readwrite'', rc_Action = ''allow''\<rparr>],
     Devices = [(''plant'', ''10.0.0.9'')]\<rparr>"

text \<open>The file's document: the key of the rules on line 7, the rule on line 8, its match mode on line 12.\<close>

definition demoNode :: Node where
  "demoNode = Node DocumentNode [] 1 [Node MappingNode [] 1
     [Node ScalarNode ''authorization'' 6 [], Node MappingNode [] 7
       [Node ScalarNode ''rules'' 7 [], Node SequenceNode [] 8
         [Node MappingNode [] 8 [Node ScalarNode ''match'' 12 [], Node ScalarNode ''every'' 12 []]]]]]"

definition demoYaml :: "string \<Rightarrow> Yaml" where
  "demoYaml mode = \<lparr>yaml_Decode = (\<lambda>_. Decoded (demoConfig mode)), yaml_Unmarshal = (\<lambda>_. demoNode)\<rparr>"

lemma demo_valid: "validConfig parseURL (applyDefaults (demoConfig mode)) \<longleftrightarrow> mode \<in> {''none'', ''not-all'', ''any'', ''all''}"
  by (simp add: validConfig_def demoConfig_def applyDefaults_def Let_def validRule_def isAllow_def Condition_defs Match_defs
      Action_defs PermissionReadOnly_def PermissionReadWrite_def)

lemma demo_inMemory: "inMemory (demoConfig mode)"
  by (simp add: inMemory_def demoConfig_def)

section \<open>Loading a file\<close>

lemma Load_checked:
  assumes "readFile path = Inr data" and "yaml_Decode Y data = Decoded cfg \<or> yaml_Decode Y data = Empty \<and> cfg = zeroConfig"
  shows "Load Q parseURL Y readFile path =
    (if validConfig parseURL (applyDefaults cfg) then Ok (applyDefaults cfg)
     else res_bind (withLines path (Some (yaml_Unmarshal Y data)) (Validate Q parseURL (applyDefaults cfg)))
       (\<lambda>ls. Err (ConfigErrors ls)))"
  using assms by (auto simp: Load_def Let_def Validate_Nil)

text \<open>
  C15. A configuration is loaded exactly when the file can be read and decoded (an empty file
  counts as one with no settings) and the settings with their defaults meet the declarative
  conditions: known match modes, actions and condition types, a permission for every allow rule, a
  claim for every jwt condition, proxies that parse, named tokens with distinct names, distinct
  issuers with an audience that may be fetched from, and files for TLS.
\<close>

theorem load_accepts:
  "Load Q parseURL Y readFile path = Ok c \<longleftrightarrow>
    (\<exists>data cfg. readFile path = Inr data
      \<and> (yaml_Decode Y data = Decoded cfg \<or> yaml_Decode Y data = Empty \<and> cfg = zeroConfig)
      \<and> c = applyDefaults cfg \<and> validConfig parseURL c)"
proof
  assume l: "Load Q parseURL Y readFile path = Ok c"
  then obtain data where data: "readFile path = Inr data" by (auto simp: Load_def split: sum.splits)
  with l obtain cfg where cfg: "yaml_Decode Y data = Decoded cfg \<or> yaml_Decode Y data = Empty \<and> cfg = zeroConfig"
    by (cases "yaml_Decode Y data") (auto simp: Load_def)
  with l data show "\<exists>data cfg. readFile path = Inr data
      \<and> (yaml_Decode Y data = Decoded cfg \<or> yaml_Decode Y data = Empty \<and> cfg = zeroConfig)
      \<and> c = applyDefaults cfg \<and> validConfig parseURL c"
    unfolding Load_checked [of readFile path data Y cfg Q parseURL, OF data cfg] by (auto simp: res_bind_Ok_iff split: if_splits)
qed (auto simp: Load_checked)

text \<open>
  C40. A file that decodes but is not valid is refused, without panic, with one line for each problem
  that validation finds, in order: it names the setting, after the line of the deepest setting on
  the problem's path that is present in the document.
\<close>

theorem problems_located:
  assumes "readFile path = Inr data" and "yaml_Decode Y data = Decoded cfg"
    and "inMemory cfg" and "\<not> validConfig parseURL (applyDefaults cfg)"
  shows "\<exists>ls. Load Q parseURL Y readFile path = Err (ConfigErrors ls) \<and> ls \<noteq> []
    \<and> list_all2 (locatedAt path (yaml_Unmarshal Y data)) (Validate Q parseURL (applyDefaults cfg)) ls"
proof -
  let ?errs = "Validate Q parseURL (applyDefaults cfg)"
  have "inMemory (applyDefaults cfg)"
    using assms(3) by (simp add: inMemory_def applyDefaults_def Let_def)
  then obtain ls where ls: "(withLines path (Some (yaml_Unmarshal Y data)) ?errs :: (LoadError, string list) res) = Ok ls"
      "list_all2 (locatedAt path (yaml_Unmarshal Y data)) ?errs ls"
    using withLines_located [OF Validate_paths] by blast
  moreover have "?errs \<noteq> []" using assms(4) by (simp add: Validate_Nil)
  ultimately show ?thesis
    using assms by (auto simp: Load_checked)
qed

theorem problems_located_witness:
  "\<exists>ls. Load id (\<lambda>_. None) (demoYaml ''every'') (\<lambda>_. Inr ''match: every'') ''c.yaml'' = Err (ConfigErrors ls) \<and> ls \<noteq> []"
  using problems_located [of "\<lambda>_. Inr ''match: every''" "''c.yaml''" "''match: every''" "demoYaml ''every''"
      "demoConfig ''every''" "\<lambda>_. None" id]
  by (auto simp: demo_valid demo_inMemory demoYaml_def)

text \<open>The message of the wrong match mode, with its line.\<close>

lemma demo_numbers: "showNat 0 = ''0''" "showNat 12 = ''12''"
  by code_simp+

lemma demo_problem:
  "Validate id (\<lambda>_. None) (applyDefaults (demoConfig ''every'')) =
    [fieldErrorf ''authorization.rules[0].match'' ''invalid match every (expected one of: all, any, none, not-all)'']"
  by (simp add: Validate_def demoConfig_def applyDefaults_def Let_def tlsErrors_def eachElement_def errorIf_def ruleErrors_def
      permissionErrors_def conditionErrors_def element_def Condition_defs Match_defs Action_defs PermissionReadOnly_def
      PermissionReadWrite_def demo_numbers)

lemma demo_line: "lineOf (Some demoNode) ''authorization.rules[0].match'' = Ok 12"
  using lineOf_closest [of "[(''authorization'', []), (''rules'', [0]), (''match'', [])]" demoNode]
  by (simp add: goodPath_def goodKey_def showPath_def showIndexes_def demo_numbers steps_def documentRoot_def
      demoNode_def child_def)

lemma demo_located:
  "Load id (\<lambda>_. None) (demoYaml ''every'') (\<lambda>_. Inr ''match: every'') ''c.yaml'' =
    Err (ConfigErrors [''c.yaml:12: authorization.rules[0].match: invalid match every (expected one of: all, any, none, not-all)''])"
  by (simp add: Load_checked [where data = "''match: every''" and cfg = "demoConfig ''every''"] demo_valid demoYaml_def
      withLines_def demo_problem fieldErrorf_def demo_line located_def errorText_def demo_numbers)

section \<open>Starting\<close>

text \<open>A valid configuration gives the authenticator only tokens with a name and a value.\<close>

lemma tokens_valid:
  assumes "validConfig parseURL c" and "tokensByValue (NewAuthenticator (authOptions c)) bearer = Some name"
  shows "bearer \<noteq> [] \<and> name \<noteq> [] \<and> \<lparr>tok_Name = name, tok_Token = bearer\<rparr> \<in> set (authn_Tokens (Authentication c))"
proof -
  from assms(2) obtain t where "t \<in> set (AuthTokens c)" "token_Value t = bearer" "token_Name t = name"
    using tokens_configured [of "authOptions c" bearer name] by (auto simp: authOptions_def)
  then obtain u where "u \<in> set (authn_Tokens (Authentication c))" "tok_Token u = bearer" "tok_Name u = name"
    by (auto simp: AuthTokens_def)
  moreover have "\<forall>u \<in> set (authn_Tokens (Authentication c)). tok_Name u \<noteq> [] \<and> tok_Token u \<noteq> []"
    using assms(1) by (simp add: validConfig_def)
  moreover have "u = \<lparr>tok_Name = tok_Name u, tok_Token = tok_Token u\<rparr>" by simp
  ultimately show ?thesis by metis
qed

text \<open>
  C14. The proxy starts only with a valid configuration, and as that says: headers that name the
  client are taken from exactly the listed proxies, no rule allows without granting readonly or
  readwrite, the recognized tokens and issuers are those configured, the aliases resolve, TLS has
  its files, attempts, retries and cache refreshes have sensible settings, and the time that the
  server gives a request is the configured one, which an attempt of the client has too unless it is
  not positive, when an attempt has three seconds.
\<close>

theorem started_as_configured:
  assumes "run Q parseURL Y readFile bind fl = Starts opts (S, s) addr tls"
  shows "\<exists>c. Load Q parseURL Y readFile (fl_config fl) = Ok c \<and> validConfig parseURL c
    \<and> (\<forall>ip. length ip \<in> {0, 16} \<longrightarrow> isTrustedProxy S ip =
        (ip \<noteq> [] \<and> (\<exists>p \<in> set (listen_TrustedProxies (Listen c)). entryCovers p ip)))
    \<and> (\<forall>F req. result_Allowed (Evaluate F req (srv_rules S)) \<longrightarrow>
        result_Permission (Evaluate F req (srv_rules S)) \<in> {PermissionReadOnly, PermissionReadWrite})
    \<and> (\<forall>bearer name. tokensByValue (srv_authenticator S) bearer = Some name \<longrightarrow> bearer \<noteq> [] \<and> name \<noteq> []
        \<and> \<lparr>tok_Name = name, tok_Token = bearer\<rparr> \<in> set (authn_Tokens (Authentication c)))
    \<and> (\<forall>u v. issuers (srv_authenticator S) u = Some v \<longleftrightarrow> v \<in> set (AuthIssuers c) \<and> iss_URL v = u)
    \<and> (\<forall>d. resolveDevice S d = ResolveDevice c d)
    \<and> s = initialState (bn_CacheRefresh (Bacnet c)) \<and> 0 < vc_interval (st_cache s)
    \<and> addr \<noteq> [] \<and> (\<forall>cert key. tls = Some (cert, key) \<longrightarrow> cert \<noteq> [] \<and> key \<noteq> [])
    \<and> srv_requestTimeout S = bn_Timeout (Bacnet c)
    \<and> (case clientSettings opts of (_, timeout, retries) \<Rightarrow> 0 < timeout \<and> 0 \<le> retries
        \<and> timeout = (if srv_requestTimeout S \<le> 0 then 3 * 10 ^ 9 else srv_requestTimeout S))"
proof -
  from assms obtain c where c: "Load Q parseURL Y readFile (fl_config fl) = Ok c" and S: "(S, s) = serverOf Q c"
    and rest: "opts = clientOptions c" "addr = listen_Address (Listen c)" "tls = tlsFiles c"
    by (auto simp: run_def split: if_splits res.splits sum.splits)
  from c have valid: "validConfig parseURL c" by (auto simp: Load_def Let_def Validate_Nil split: sum.splits decoded.splits if_splits
      simp: res_bind_Ok_iff)
  from c obtain cfg where cfg: "c = applyDefaults cfg"
    by (auto simp: Load_def Let_def res_bind_Ok_iff split: sum.splits decoded.splits if_splits)
  note srv = S [unfolded serverOf_def NewServer_def authOptions_def, simplified]
  have proxies: "isTrustedProxy S ip = (ip \<noteq> [] \<and> (\<exists>p \<in> set (listen_TrustedProxies (Listen c)). entryCovers p ip))"
    if "length ip \<in> {0, 16}" for ip
    using trusted_as_configured [OF valid that, of Q] S [symmetric] by simp
  have perms: "result_Allowed (Evaluate F req (srv_rules S)) \<Longrightarrow>
      result_Permission (Evaluate F req (srv_rules S)) \<in> {PermissionReadOnly, PermissionReadWrite}" for F req
    using Evaluate_permission [of "Authorization c" F req] valid by (simp add: srv AuthzRules_def validConfig_def)
  have toks: "bearer \<noteq> [] \<and> name \<noteq> [] \<and> \<lparr>tok_Name = name, tok_Token = bearer\<rparr> \<in> set (authn_Tokens (Authentication c))"
    if "tokensByValue (srv_authenticator S) bearer = Some name" for bearer name
    using tokens_valid [OF valid, of bearer name] that by (simp add: srv authOptions_def)
  have iss: "issuers (srv_authenticator S) u = Some v \<longleftrightarrow> v \<in> set (AuthIssuers c) \<and> iss_URL v = u" for u v
    using issuers_valid [OF valid] by (simp add: srv)
  have aliases: "resolveDevice S d = ResolveDevice c d" for d
    by (simp add: srv resolveDevice_def ResolveDevice_def)
  have init: "s = initialState (bn_CacheRefresh (Bacnet c))" "0 < vc_interval (st_cache s)"
    by (simp_all add: srv initialState_def newVarCache_def)
  have addr: "addr \<noteq> []" by (simp add: rest cfg applyDefaults_def Let_def)
  have files: "\<forall>cert key. tls = Some (cert, key) \<longrightarrow> cert \<noteq> [] \<and> key \<noteq> []"
    using valid by (auto simp: rest tlsFiles_def Let_def validConfig_def split: if_splits)
  have client: "srv_requestTimeout S = bn_Timeout (Bacnet c)"
    "case clientSettings opts of (_, timeout, retries) \<Rightarrow> 0 < timeout \<and> 0 \<le> retries
        \<and> timeout = (if srv_requestTimeout S \<le> 0 then 3 * 10 ^ 9 else srv_requestTimeout S)"
    by (simp_all add: clientSettings_def srv rest clientOptions_def)
  show ?thesis
    by (intro exI [of _ c] conjI allI impI c valid proxies perms iss aliases init addr client)
      (use files in \<open>auto dest!: toks\<close>)
qed

lemma demo_starts:
  "\<exists>opts S s. run id (\<lambda>_. None) (demoYaml ''all'') (\<lambda>_. Inr []) (\<lambda>_. None) \<lparr>fl_config = ''c.yaml'', fl_version = False, fl_configcheck = False\<rparr>
    = Starts opts (S, s) '':8443'' None"
proof -
  have "Load id (\<lambda>_. None) (demoYaml ''all'') (\<lambda>_. Inr []) ''c.yaml'' = Ok (applyDefaults (demoConfig ''all''))"
    by (simp add: Load_checked [where data = "[]" and cfg = "demoConfig ''all''"] demoYaml_def demo_valid)
  then show ?thesis
    by (cases "serverOf id (applyDefaults (demoConfig ''all''))")
      (simp add: run_def NewClient_def tlsFiles_def applyDefaults_def demoConfig_def Let_def)
qed

theorem started_as_configured_witness:
  "\<exists>opts S s. run id (\<lambda>_. None) (demoYaml ''all'') (\<lambda>_. Inr []) (\<lambda>_. None) \<lparr>fl_config = ''c.yaml'', fl_version = False, fl_configcheck = False\<rparr>
      = Starts opts (S, s) '':8443'' None
    \<and> (\<exists>c. Load id (\<lambda>_. None) (demoYaml ''all'') (\<lambda>_. Inr []) ''c.yaml'' = Ok c \<and> validConfig (\<lambda>_. None) c)"
proof -
  obtain opts S s where run: "run id (\<lambda>_. None) (demoYaml ''all'') (\<lambda>_. Inr [])
      (\<lambda>_. None) \<lparr>fl_config = ''c.yaml'', fl_version = False, fl_configcheck = False\<rparr> = Starts opts (S, s) '':8443'' None"
    using demo_starts by blast
  from started_as_configured [OF run] run show ?thesis by auto
qed

end
