(* ===== verification/Auth_Theorems.thy ===== *)
theory Auth_Theorems
  imports Auth_OIDC
begin

text \<open>
  The properties of authentication: what a recognized credential proves, which keys verify an
  issuer's tokens, and how often those keys are fetched.
\<close>

section \<open>Recognized credentials\<close>

text \<open>
  What \<^verbatim>\<open>golang-jwt\<close> documents of \<^verbatim>\<open>ParseWithClaims\<close>: it returns claims only of a token that is
  signed with a key that the key function gave for a key ID, under one of the valid methods, and
  that has the issuer, the audience (a text or one of a list) and the expiry that are required.
  \<open>sigOk alg k token\<close> says that the signature of a token verifies.
\<close>

definition hasAudience :: "Claims \<Rightarrow> string \<Rightarrow> bool" where
  "hasAudience claims aud \<longleftrightarrow>
    (case claims ''aud'' of Some (StringAny a) \<Rightarrow> a = aud | Some (SliceAny as) \<Rightarrow> StringAny aud \<in> set as | _ \<Rightarrow> False)"

definition jwtVerifies :: "JWT \<Rightarrow> (string \<Rightarrow> Key \<Rightarrow> string \<Rightarrow> bool) \<Rightarrow> bool" where
  "jwtVerifies J sigOk \<longleftrightarrow>
    (\<forall>opts keys token claims. jwt_parse J opts keys token = Some claims \<longrightarrow>
      (\<exists>alg kid k. alg \<in> set (po_ValidMethods opts) \<and> keys kid = Some k \<and> sigOk alg k token)
      \<and> (\<forall>iss. po_Issuer opts = Some iss \<longrightarrow> claims ''iss'' = Some (StringAny iss))
      \<and> (\<forall>aud. po_Audience opts = Some aud \<longrightarrow> hasAudience claims aud)
      \<and> (po_ExpirationRequired opts \<longrightarrow> claims ''exp'' \<noteq> None))"

text \<open>What a token from an issuer proves.\<close>

definition issuedBy :: "(string \<Rightarrow> Key \<Rightarrow> string \<Rightarrow> bool) \<Rightarrow> (string \<Rightarrow> string \<Rightarrow> Key option) \<Rightarrow> Issuer \<Rightarrow> string \<Rightarrow> Claims \<Rightarrow> bool" where
  "issuedBy sigOk key v bearer claims \<longleftrightarrow>
    (\<exists>alg kid k. alg \<in> set asymmetricAlgs \<and> key (iss_URL v) kid = Some k \<and> sigOk alg k bearer)
    \<and> claims ''iss'' = Some (StringAny (iss_URL v)) \<and> hasAudience claims (iss_Audience v) \<and> claims ''exp'' \<noteq> None"

text \<open>
  C9. A credential yields a token name only if it is the value of a configured token of that name,
  and claims only if it is a token signed with the configured secret under an HMAC algorithm, or one
  signed with a key of a configured issuer under an asymmetric algorithm that names that issuer and
  its audience and expires; never both, and no issuer's key is ever used with an HMAC algorithm.
\<close>

theorem credentials_trusted:
  assumes "jwtVerifies J sigOk" and "R = Authenticate J key (NewAuthenticator opts) bearer"
  shows "(auth_TokenName R \<noteq> [] \<longrightarrow> auth_Claims R = None
      \<and> (\<exists>t \<in> set (opt_Tokens opts). token_Value t = bearer \<and> token_Name t = auth_TokenName R))
    \<and> (\<forall>claims. auth_Claims R = Some claims \<longrightarrow>
        opt_JWTSecret opts \<noteq> [] \<and> (\<exists>alg \<in> set hmacAlgs. sigOk alg (Secret (opt_JWTSecret opts)) bearer)
        \<or> (\<exists>v \<in> set (opt_Issuers opts). issuedBy sigOk key v bearer claims))"
proof (intro conjI impI allI)
  assume "auth_TokenName R \<noteq> []"
  with Authenticate_TokenName [of J key "NewAuthenticator opts" bearer] assms(2)
  show "auth_Claims R = None" and "\<exists>t \<in> set (opt_Tokens opts). token_Value t = bearer \<and> token_Name t = auth_TokenName R"
    using tokens_configured by auto
next
  fix claims
  assume "auth_Claims R = Some claims"
  then have claims: "auth_Claims (Authenticate J key (NewAuthenticator opts) bearer) = Some claims"
    using assms(2) by simp
  then show "opt_JWTSecret opts \<noteq> [] \<and> (\<exists>alg \<in> set hmacAlgs. sigOk alg (Secret (opt_JWTSecret opts)) bearer)
      \<or> (\<exists>v \<in> set (opt_Issuers opts). issuedBy sigOk key v bearer claims)"
  proof (cases rule: Authenticate_Claims)
    case (hmac secret)
    then have "opt_JWTSecret opts \<noteq> []" "secret = opt_JWTSecret opts"
      by (auto simp: NewAuthenticator_def split: if_splits)
    moreover from assms(1) hmac(2) have "\<exists>alg \<in> set hmacAlgs. sigOk alg (Secret secret) bearer"
      by (fastforce simp: jwtVerifies_def)
    ultimately show ?thesis by blast
  next
    case (issuer v url)
    from issuers_URL [OF issuer(1)] have "v \<in> set (opt_Issuers opts)" by simp
    moreover from assms(1) issuer(2) have "issuedBy sigOk key v bearer claims"
      unfolding jwtVerifies_def issuedBy_def by (fastforce simp: issuerOptions_def)
    ultimately show ?thesis by blast
  qed
qed

text \<open>A library that accepts one token, signed with the secret \<^verbatim>\<open>k\<close>.\<close>

definition demoJWT :: JWT where
  "demoJWT = \<lparr>jwt_unverified = (\<lambda>t. if t = ''a.b.c'' then Some (''HS256'', Map.empty) else None),
     jwt_parse = (\<lambda>opts keys t. if t = ''a.b.c'' \<and> ''HS256'' \<in> set (po_ValidMethods opts) \<and> po_Issuer opts = None
       \<and> po_Audience opts = None \<and> \<not> po_ExpirationRequired opts \<and> keys '''' = Some (Secret ''k'') then Some Map.empty else None)\<rparr>"

definition demoOptions :: Options where
  "demoOptions = \<lparr>opt_Tokens = [\<lparr>token_Name = ''ops'', token_Value = ''s3cret''\<rparr>], opt_JWTSecret = ''k'', opt_Issuers = []\<rparr>"

theorem credentials_trusted_witness:
  "auth_Claims (Authenticate demoJWT (\<lambda>_ _. None) (NewAuthenticator demoOptions) ''a.b.c'') = Some Map.empty
    \<and> (\<exists>alg \<in> set hmacAlgs. alg = ''HS256'' \<and> opt_JWTSecret demoOptions = ''k'')"
proof -
  let ?R = "Authenticate demoJWT (\<lambda>_ _. None) (NewAuthenticator demoOptions) ''a.b.c''"
  have J: "jwtVerifies demoJWT (\<lambda>alg k t. alg = ''HS256'' \<and> k = Secret ''k'')"
    by (auto simp: jwtVerifies_def demoJWT_def split: if_splits)
  have "auth_Claims ?R = Some Map.empty"
    by (simp add: Authenticate_def demoJWT_def demoOptions_def NewAuthenticator_def HasPrefix_def verifyHMAC_def hmacAlgs_def Let_def)
  moreover have "\<exists>alg \<in> set hmacAlgs. alg = ''HS256'' \<and> opt_JWTSecret demoOptions = ''k''"
    using credentials_trusted [OF J refl, of "\<lambda>_ _. None" demoOptions "''a.b.c''"] calculation by (auto simp: demoOptions_def)
  ultimately show ?thesis by blast
qed

section \<open>Signing keys\<close>

text \<open>
  Where a key may come from: a JWKS at an address that is https or on this host, named by the
  discovery document of the issuer itself, fetched with status 200.
\<close>

definition publishes :: "Web \<Rightarrow> Issuer \<Rightarrow> JWK \<Rightarrow> bool" where
  "publishes W issuer jwk \<longleftrightarrow>
    (\<exists>disc raws. getJSON W (web_discovery W) (TrimSuffix (iss_URL issuer) ''/'' @ ''/.well-known/openid-configuration'') = Some disc
      \<and> disc_Issuer disc = iss_URL issuer \<and> CheckFetchURL (web_parseURL W) (disc_JWKSURI disc) = None
      \<and> getJSON W (web_jwks W) (disc_JWKSURI disc) = Some raws \<and> Some jwk \<in> set raws)"

text \<open>The kinds of keys, and the least sizes of them; that of RSA is one of the octets in the document.\<close>

definition strongKey :: "(string \<Rightarrow> byte list \<Rightarrow> byte list \<Rightarrow> bool) \<Rightarrow> JWK \<Rightarrow> Key \<Rightarrow> bool" where
  "strongKey onCurve jwk k \<longleftrightarrow>
    (case k of
       RSAKey n e \<Rightarrow> 3 \<le> e \<and> e < 2 ^ 31 \<and> (\<exists>bs. b64 (jwk_N jwk) = Some bs \<and> bigInt bs = n \<and> 256 \<le> length bs)
     | ECKey crv x y \<Rightarrow> (\<exists>size. curveSize crv = Some size \<and> length x = size \<and> length y = size) \<and> onCurve crv x y
     | EdKey x \<Rightarrow> length x = 32
     | Secret _ \<Rightarrow> False)"

lemma fetchKeys_published:
  assumes "fetchKeys W issuer = Some keys" and "keys kid = Some k"
  shows "\<exists>jwk. publishes W issuer jwk \<and> jwk_Kid jwk = kid \<and> jwk_Use jwk \<in> {[], ''sig''} \<and> strongKey (web_onCurve W) jwk k"
proof -
  from assms(1) obtain disc raws where fetched:
      "getJSON W (web_discovery W) (TrimSuffix (iss_URL issuer) ''/'' @ ''/.well-known/openid-configuration'') = Some disc"
      "disc_Issuer disc = iss_URL issuer" "CheckFetchURL (web_parseURL W) (disc_JWKSURI disc) = None"
      "getJSON W (web_jwks W) (disc_JWKSURI disc) = Some raws" "keys = foldl (addKey (web_onCurve W)) Map.empty raws"
    by (auto simp: fetchKeys_def Let_def split: option.splits if_splits)
  with assms(2) addKey_foldl [of "web_onCurve W" Map.empty raws kid k]
  obtain jwk where jwk: "Some jwk \<in> set raws" "jwk_Kid jwk = kid" "parseJWK (web_onCurve W) jwk = Some k" by auto
  from jwk(3) have "jwk_Use jwk \<in> {[], ''sig''}" by (auto simp: parseJWK_def split: if_splits)
  moreover from jwk(3) have "strongKey (web_onCurve W) jwk k"
    by (cases rule: parseJWK_cases) (auto simp: strongKey_def)
  ultimately show ?thesis
    using fetched jwk unfolding publishes_def by blast
qed

lemma lastKeys_in: "lastKeys rs kid = Some k \<Longrightarrow> \<exists>keys. Some keys \<in> set rs \<and> keys kid = Some k"
  by (induction rs rule: lastKeys.induct) auto

text \<open>
  C10. Whatever has happened before, in any order of tokens, fetches, failures and waits: a key that the
  verifier of an issuer hands out for a key ID was published for signatures, under that ID, in
  the JWKS that the issuer's own discovery document names at a secure address; it is of an
  asymmetric kind, a point of its curve or of a least size, never a shared secret; and it is among
  the keys of the last fetch that succeeded.
\<close>

theorem signing_keys:
  assumes "oidcStep\<^sup>*\<^sup>* (initialRun issuer now) r"
    and "\<forall>keys. Some keys \<in> set (run_results r) \<longrightarrow> (\<exists>W. fetchKeys W issuer = Some keys)"
    and "keyStart t f kid (run_verifier r) = (v, Inl k) \<or> keyEnd kid (run_verifier r) = Some k"
  shows "lastKeys (run_results r) kid = Some k
    \<and> (\<exists>W jwk. publishes W issuer jwk \<and> jwk_Kid jwk = kid \<and> jwk_Use jwk \<in> {[], ''sig''} \<and> strongKey (web_onCurve W) jwk k)"
proof -
  from assms(3) have "v_keys (run_verifier r) kid = Some k"
    by (auto simp: keyStart_def keyEnd_def split: option.splits prod.splits)
  with reachable_runOk [OF assms(1)] have last: "lastKeys (run_results r) kid = Some k" by (simp add: runOk_def Let_def)
  with lastKeys_in assms(2) obtain keys W where "fetchKeys W issuer = Some keys" "keys kid = Some k" by blast
  with last fetchKeys_published show ?thesis by blast
qed

text \<open>An issuer with one Ed25519 key of 32 zero octets.\<close>

definition demoIssuer :: Issuer where
  "demoIssuer = \<lparr>iss_URL = ''https://id'', iss_Audience = ''proxy''\<rparr>"

definition demoJWK :: JWK where
  "demoJWK = \<lparr>jwk_Kty = ''OKP'', jwk_Kid = ''k1'', jwk_Use = ''sig'', jwk_Crv = ''Ed25519'', jwk_N = [], jwk_E = [],
     jwk_X = replicate 43 (CHR ''A''), jwk_Y = []\<rparr>"

definition demoWeb :: Web where
  "demoWeb = \<lparr>web_get = (\<lambda>u. Some (200, u)), web_parseURL = (\<lambda>_. Some \<lparr>url_Scheme = ''https'', url_Host = ''id'', url_Hostname = ''id''\<rparr>),
     web_discovery = (\<lambda>_. Some \<lparr>disc_Issuer = ''https://id'', disc_JWKSURI = ''https://id/keys''\<rparr>),
     web_jwks = (\<lambda>_. Some [Some demoJWK]), web_onCurve = (\<lambda>_ _ _. False)\<rparr>"

lemma demo_fetch: "fetchKeys demoWeb demoIssuer = Some [''k1'' \<mapsto> EdKey (replicate 32 0)]"
proof -
  have "b64 (replicate 43 (CHR ''A'')) = Some (replicate 32 0)" by code_simp
  then have key: "parseJWK (\<lambda>_ _ _. False) demoJWK = Some (EdKey (replicate 32 0))"
    by (simp add: parseJWK_def parseOKP_def demoJWK_def)
  then show ?thesis
    by (simp add: fetchKeys_def demoIssuer_def demoWeb_def getJSON_def CheckFetchURL_def noUsable_def addKey_def Let_def)
      (simp add: demoJWK_def)
qed

definition demoRun :: Run where
  "demoRun = \<lparr>run_verifier = \<lparr>v_issuer = demoIssuer, v_maxAge = keysMaxAge, v_minRefresh = minRefreshInterval,
       v_keys = [''k1'' \<mapsto> EdKey (replicate 32 0)], v_fetched = Some 0, v_lastAttempt = Some 0, v_inflight = None\<rparr>,
     run_now = 0, run_starts = [0], run_results = [Some [''k1'' \<mapsto> EdKey (replicate 32 0)]]\<rparr>"

lemma demoRun_reachable: "oidcStep\<^sup>*\<^sup>* (initialRun demoIssuer 0) demoRun"
proof -
  let ?r = "noteStart (prefetch 0 0 (newOIDCVerifier demoIssuer)) (initialRun demoIssuer 0)"
  have "oidcStep (initialRun demoIssuer 0) ?r"
    using oidcStep.prefetched [of "initialRun demoIssuer 0"] by (simp add: initialRun_def)
  moreover have "oidcStep ?r demoRun"
    using oidcStep.fetched [of ?r 0 "Some [''k1'' \<mapsto> EdKey (replicate 32 0)]"]
    by (simp add: noteStart_def prefetch_def startFetchLocked_def newOIDCVerifier_def since_def initialRun_def demoRun_def
        fetchDone_def minRefreshInterval_def)
  ultimately show ?thesis by (meson rtranclp.simps)
qed

theorem signing_keys_witness:
  "keyEnd ''k1'' (run_verifier demoRun) = Some (EdKey (replicate 32 0))
    \<and> (\<exists>W jwk. publishes W demoIssuer jwk \<and> jwk_Kid jwk = ''k1'')"
proof -
  have "keyEnd ''k1'' (run_verifier demoRun) = Some (EdKey (replicate 32 0))" by (simp add: keyEnd_def demoRun_def)
  moreover from this have "\<exists>W jwk. publishes W demoIssuer jwk \<and> jwk_Kid jwk = ''k1''"
    using signing_keys [OF demoRun_reachable, of 0 0 "''k1''" _ "EdKey (replicate 32 0)"] demo_fetch
    by (auto simp: demoRun_def)
  ultimately show ?thesis by blast
qed

text \<open>
  The least size of an RSA key counts the octets of its text, leading zeros included: a modulus of 3 is
  accepted when it is written with 256 octets.
\<close>

lemma short_modulus_accepted:
  "parseRSA \<lparr>jwk_Kty = ''RSA'', jwk_Kid = [], jwk_Use = [], jwk_Crv = [], jwk_N = replicate 341 (CHR ''A'') @ ''w'',
     jwk_E = ''AQAB'', jwk_X = [], jwk_Y = []\<rparr> = Some (RSAKey 3 65537)"
proof -
  have zeros: "replicate (4 + k) (0 :: nat) = 0 # 0 # 0 # 0 # replicate k 0" "replicate (3 + k) (0 :: byte) = 0 # 0 # 0 # replicate k 0" for k
    by (simp_all add: numeral_eq_Suc)
  have groups: "base64Groups (replicate (4 * n) 0 @ [0, 48]) = Some (replicate (3 * n) 0 @ [3])" for n
    by (induction n) (simp_all add: zeros)
  have "replicate 341 (CHR ''A'') @ ''w'' = replicate 340 (CHR ''A'') @ ''Aw''" by (simp add: numeral_eq_Suc)
  moreover have "base64Digit (CHR ''A'') = Some 0" "base64Digit (CHR ''w'') = Some 48" by (simp_all add: base64Digit_def Let_def)
  moreover have "CHR ''A'' \<noteq> char_of (10 :: nat)" "CHR ''A'' \<noteq> char_of (13 :: nat)" "CHR ''w'' \<noteq> char_of (10 :: nat)"
    "CHR ''w'' \<noteq> char_of (13 :: nat)" by code_simp+
  moreover have "b64 (replicate 340 (CHR ''A'') @ ''Aw'') = Some (replicate 255 0 @ [3])"
    using groups [of 85] calculation(2-) by (auto simp: b64_def Let_def)
  ultimately have n: "b64 (replicate 341 (CHR ''A'') @ ''w'') = Some (replicate 255 0 @ [3])" by simp
  have "b64 ''AQAB'' = Some [1, 0, 1]" by code_simp
  moreover have "bigInt (replicate k 0 @ [3]) = 3" for k by (induction k) (simp_all add: bigInt_def)
  ultimately show ?thesis using n by (simp add: parseRSA_def Let_def) (simp add: bigInt_def)
qed

section \<open>Fetches\<close>

lemma spaced_nth:
  "spaced m ts \<Longrightarrow> i \<le> j \<Longrightarrow> j < length ts \<Longrightarrow> ts ! j + int (j - i) * m \<le> ts ! i"
proof (induction j)
  case (Suc j)
  show ?case
  proof (cases "i = Suc j")
    case False
    have step: "spaced m us \<Longrightarrow> Suc n < length us \<Longrightarrow> us ! Suc n + m \<le> us ! n" for us n
      by (induction m us arbitrary: n rule: spaced.induct) (auto simp: nth_Cons split: nat.splits)
    have "ts ! Suc j + m \<le> ts ! j" using step Suc.prems by simp
    moreover have "ts ! j + int (j - i) * m \<le> ts ! i" using Suc False by simp
    moreover have "int (Suc j - i) = int (j - i) + 1" using Suc.prems False by (simp add: Suc_diff_le)
    ultimately show ?thesis by (simp add: algebra_simps)
  qed simp
qed simp

text \<open>
  C23. However many tokens with made-up key IDs arrive: the fetches that a verifier starts are at
  least a minute apart (any \<open>k\<close> successive ones span \<open>k\<close> minutes), at most one is running, and
  asking for a key that is known never waits for one.
\<close>

theorem fetches_spaced:
  assumes "oidcStep\<^sup>*\<^sup>* (initialRun issuer now) r"
  shows "(\<forall>i j. i \<le> j \<and> j < length (run_starts r) \<longrightarrow>
        run_starts r ! j + int (j - i) * 60000000000 \<le> run_starts r ! i)
    \<and> length (run_starts r) \<le> length (run_results r) + 1
    \<and> (v_inflight (run_verifier r) = None \<longleftrightarrow> length (run_starts r) = length (run_results r))
    \<and> (\<forall>kid k. v_keys (run_verifier r) kid = Some k \<longrightarrow> (\<exists>v. keyStart (run_now r) f kid (run_verifier r) = (v, Inl k)))"
proof -
  note ok = reachable_runOk [OF assms]
  then have "v_minRefresh (run_verifier r) = minRefreshInterval" "spaced (v_minRefresh (run_verifier r)) (run_starts r)"
    unfolding runOk_def Let_def by blast+
  then have "spaced minRefreshInterval (run_starts r)" by simp
  note spaced = spaced_nth [OF this]
  have "run_starts r ! j + int (j - i) * 60000000000 \<le> run_starts r ! i" if "i \<le> j \<and> j < length (run_starts r)" for i j
    using spaced [of i j] that by (simp add: minRefreshInterval_def)
  moreover have "length (run_starts r) \<le> length (run_results r) + 1"
    "v_inflight (run_verifier r) = None \<longleftrightarrow> length (run_starts r) = length (run_results r)"
    using ok by (auto simp: runOk_def Let_def split: if_splits)
  moreover have "\<exists>v. keyStart (run_now r) f kid (run_verifier r) = (v, Inl k)"
    if "v_keys (run_verifier r) kid = Some k" for kid k
    using that by (simp add: keyStart_def)
  ultimately show ?thesis by blast
qed

theorem fetches_spaced_witness:
  "length (run_starts demoRun) \<le> length (run_results demoRun) + 1
    \<and> (\<exists>v. keyStart 0 7 ''k1'' (run_verifier demoRun) = (v, Inl (EdKey (replicate 32 0))))"
  using fetches_spaced [OF demoRun_reachable, of 7] by (auto simp: demoRun_def)

end
