(* ===== verification/Api_Concurrency.thy ===== *)
theory Api_Concurrency
  imports Api_Cache_Theorems Proxy_Theorems
begin

text \<open>
  The server with requests that run at once. What they share is the variable cache, with all the
  interleaving of \<open>Api_Cache_Concurrency\<close>, and the network. A request finds in the cache what it holds at that
  moment, or the snapshot that its own call of \<^verbatim>\<open>get\<close> came back with, which the refresh may have
  replaced or dropped in the meantime.
\<close>

section \<open>What a request sees\<close>

definition withSnapshot :: "string \<Rightarrow> deviceVars \<Rightarrow> int \<Rightarrow> varCache \<Rightarrow> varCache" where
  "withSnapshot h dv used c = putEntry h \<lparr>ce_data = Some dv, ce_lastUsed = used\<rparr> c"

inductive sees :: "int \<Rightarrow> Shared \<Rightarrow> varCache \<Rightarrow> bool" for interval s where
  now: "sees interval s (entriesOf interval s)"
| got: "sees interval s c \<Longrightarrow> sh_Calls s t = Some g \<Longrightarrow> call_Phase g = Returned (Ok dv) \<Longrightarrow>
    sees interval s (withSnapshot (call_Host g) dv used c)"

text \<open>Any number of requests and of calls of the cache, in any order; the writes sent, in the order in which they are.\<close>

inductive concurrent :: "World \<Rightarrow> Server \<Rightarrow> int \<Rightarrow> (route \<times> HttpRequest) list \<Rightarrow> Shared \<Rightarrow>
    (string \<times> ObjectIdentifier \<times> PropertyIdentifier \<times> Value \<times> byte option) list \<Rightarrow> bool" for W S interval where
  start: "concurrent W S interval [] initShared []"
| cache: "concurrent W S interval rs s writes \<Longrightarrow> cacheStep (w_env W) interval s s' \<Longrightarrow> concurrent W S interval rs s' writes"
| request: "concurrent W S interval rs s writes \<Longrightarrow> sees interval s (st_cache st) \<Longrightarrow> st_writes st = writes \<Longrightarrow>
    serve W S rt r st = Some (resp, st') \<Longrightarrow> concurrent W S interval (rs @ [(rt, r)]) s (st_writes st')"

lemma concurrent_reachable: "concurrent W S interval rs s writes \<Longrightarrow> (cacheStep (w_env W) interval)\<^sup>*\<^sup>* initShared s"
  by (induction rule: concurrent.induct) (auto intro: cacheSteps_step)

lemma sees_ok:
  assumes "sees interval s c" and "cacheInv E s" and "0 < interval"
  shows "cacheOk E c"
  using assms(1)
proof induction
  case now
  show ?case by (rule entriesOf_ok [OF assms(2,3)])
next
  case (got c t g dv used)
  have "loads E (call_Host g) (Ok dv)" using resultD [OF assms(2) got(2), of "Ok dv"] got(3) by simp
  with got(4) show ?case by (auto simp: cacheOk_def withSnapshot_def loads_def)
qed

lemma concurrent_writes:
  assumes "concurrent W S interval rs s writes" and "0 < interval"
  shows "writesFrom W S rs writes"
  using assms(1)
proof induction
  case start
  show ?case unfolding writesFrom_def by (intro exI [of _ "[]"]) simp
next
  case (request rs s writes st rt r resp st')
  have "cacheOk (w_env W) (st_cache st)"
    using sees_ok [OF request(2) reachable_cacheInv [OF concurrent_reachable [OF request(1)]] assms(2)] .
  with request(3-5) show ?case by (intro writesFrom_request) auto
qed

text \<open>
  C18. However requests, calls of the cache, refreshes and time interleave, the writes sent to devices
  are those of some of the write requests received, in order, as asked for; each was allowed by
  the rules for its caller; and when the rules look at names, the decision was made under a
  nonempty name that the device itself gave the object, even if the snapshot it came from has
  been replaced or dropped since.
\<close>

theorem writes_authorized_interleaved:
  assumes "concurrent W S interval rs s writes" and "0 < interval"
  shows "\<exists>sent. map fst sent = writes
    \<and> subseq (map snd sent) (map snd (filter (\<lambda>(rt, r). rt = WriteProp) rs))
    \<and> (\<forall>((addr, obj, pid, v, priority), r) \<in> set sent.
        addr = resolveDevice S (hr_deviceId r) \<and> parseObjectRef r = Inr obj
        \<and> ParsePropertyIdentifier (hr_property r) = Some pid
        \<and> (\<exists>b. hr_Body r = Some b \<and> valueForWrite (w_far W) (Type obj) pid (wr_Value b) = Ok v \<and> priority = wr_Priority b)
        \<and> (\<exists>name result. result = Evaluate (w_formats W)
              \<lparr>req_Device = hr_deviceId r, req_ClientIP = clientIP S r, req_Operation = OperationWriteProperty,
                 req_TokenName = auth_TokenName (Authenticate (w_jwt W) (w_key W) (srv_authenticator S) (bearerToken r)),
                 req_JWTClaims = auth_Claims (Authenticate (w_jwt W) (w_key W) (srv_authenticator S) (bearerToken r)),
                 req_ObjectName = name\<rparr> (srv_rules S)
            \<and> result_Allowed result \<and> result_Permission result = PermissionReadWrite
            \<and> (if srv_needsObjectName S then name \<noteq> [] \<and> name \<in> givenNames (w_env W) addr obj else name = [])))"
  using concurrent_writes [OF assms]
  unfolding writesFrom_def mayWrite_rules [symmetric]
  by (elim ex_forward) (auto simp: asksFor_def split_beta)

text \<open>The witness: while a call of the cache enumerates a device, the operator's write goes out.\<close>

lemma writes_authorized_interleaved_witness:
  "\<exists>s e ws sent. concurrent silentWorld demoServer 1 [(WriteProp, demoPut ''10.0.0.1:5555'')] s ws
    \<and> sh_Calls s 0 = Some \<lparr>call_Host = ''plant'', call_Phase = Loads e\<rparr>
    \<and> map fst sent = ws \<and> ws = [(''10.0.0.9'', \<lparr>Type = 4, Instance = 1\<rparr>, PropPresentValue, EnumeratedValue 1, Some 8)]
    \<and> map snd sent = [demoPut ''10.0.0.1:5555'']"
proof -
  obtain s e where s: "(cacheStep (w_env silentWorld) 1)\<^sup>*\<^sup>* initShared s"
    "sh_Calls s 0 = Some \<lparr>call_Host = ''plant'', call_Phase = Loads e\<rparr>" by (rule firstCall_loading)
  from s(1) have "concurrent silentWorld demoServer 1 [] s []"
    by (induction rule: rtranclp_induct) (auto intro: concurrent.intros)
  note request = concurrent.request [OF this, of "\<lparr>st_tick = 0, st_cache = entriesOf 1 s, st_writes = []\<rparr>" WriteProp]
  let ?st = "\<lparr>st_tick = 0, st_cache = entriesOf 1 s, st_writes = []\<rparr>"
  from serve_sends [OF plant_authorized demo_asks, of silentWorld "''10.0.0.1:5555''" ?st] obtain resp st'
    where st': "serve silentWorld demoServer WriteProp (demoPut ''10.0.0.1:5555'') ?st = Some (resp, st')"
      "st_writes st' = [(''10.0.0.9'', \<lparr>Type = 4, Instance = 1\<rparr>, PropPresentValue, EnumeratedValue 1, Some 8)]" by auto
  have run: "concurrent silentWorld demoServer 1 [(WriteProp, demoPut ''10.0.0.1:5555'')] s (st_writes st')"
    using request [OF _ _ st'(1)] by (simp add: sees.now)
  from writes_authorized_interleaved [OF run] obtain sent where sent: "map fst sent = st_writes st'"
    "subseq (map snd sent) [demoPut ''10.0.0.1:5555'']" by auto
  with st'(2) obtain x where "sent = [x]" by (cases sent) auto
  with sent st'(2) s(2) run show ?thesis
    by (intro exI [of _ s] exI [of _ e] exI [of _ "st_writes st'"] exI [of _ sent]) (auto split: if_splits)
qed

end
