(* ===== verification/Api_Debug.thy ===== *)
theory Api_Debug
  imports Api_Middleware
begin

text \<open>
  The debug logging of \<^verbatim>\<open>internal/api/middleware.go\<close> (the flag \<^verbatim>\<open>-debugauth\<close>): the lines that it
  writes about the authentication of a request and the evaluation of the rules. The lemmas show
  that what it reports is what the server decides.
\<close>

section \<open>Log lines\<close>

text \<open>A line is a message with named attributes.\<close>

datatype attribute =
    StringAttr string
  | BoolAttr bool
  | IntAttr nat
  | IPAttr IP
  | DetailAttr Detail

type_synonym logLine = "string \<times> (string \<times> attribute) list"

text \<open>
  What a line takes from the request besides what the handlers use, and the quoting verb \<^verbatim>\<open>%q\<close> and
  \<^verbatim>\<open>json.Marshal\<close> of claims, which fails with \<open>None\<close>.
\<close>

record LogContext =
  lc_ReqID :: string
  lc_Method :: string
  lc_Path :: string
  lc_Quote :: "string \<Rightarrow> string"
  lc_Marshal :: "Claims \<Rightarrow> string option"

definition authenticationHint :: "HttpRequest \<Rightarrow> string" where
  "authenticationHint r =
    (if hr_Header r ''Authorization'' \<noteq> [] then
       ''the Authorization header doesn'' @ [CHR 0x27] @ ''t use the \"Bearer <token>\" scheme''
     else if hr_Header r ''Authentication'' \<noteq> [] then
       ''the token was sent in an Authentication header; it must be sent as Authorization: Bearer <token>''
     else ''the request has no Authorization header'')"

definition logAuthentication :: "LogContext \<Rightarrow> HttpRequest \<Rightarrow> caller \<Rightarrow> AuthResult \<Rightarrow> logLine" where
  "logAuthentication L r c res = (''auth debug: authentication'',
    [(''request'', StringAttr (lc_ReqID L)), (''method'', StringAttr (lc_Method L)), (''path'', StringAttr (lc_Path L)),
     (''client'', IPAttr (req_ClientIP (call_req c))), (''result'', DetailAttr (auth_Detail res))]
    @ (if call_bearer c = [] then [(''hint'', StringAttr (authenticationHint r))] else [])
    @ (case auth_Claims res of
         None \<Rightarrow> []
       | Some claims \<Rightarrow>
           (case lc_Marshal L claims of None \<Rightarrow> [] | Some b \<Rightarrow> [(''claims'', StringAttr b)])))"

text \<open>\<^verbatim>\<open>fmt.Sprintf("%s=%q: %s (actual %s)", ...)\<close>\<close>

definition conditionText :: "LogContext \<Rightarrow> ConditionTrace \<Rightarrow> string" where
  "conditionText L ct =
    (let cond = ct_Condition ct;
         mark = (if ct_Matched ct then ''match'' else ''no match'');
         target = cond_Type cond @ (if cond_Field cond \<noteq> [] then ''.'' @ cond_Field cond else [])
     in target @ ''='' @ lc_Quote L (cond_Value cond) @ '': '' @ mark @ '' (actual '' @ ct_Actual ct @ '')'')"

definition ruleLine :: "LogContext \<Rightarrow> nat \<Rightarrow> RuleTrace \<Rightarrow> logLine" where
  "ruleLine L i rt = (''auth debug: rule'',
    [(''request'', StringAttr (lc_ReqID L)), (''index'', IntAttr i), (''rule'', StringAttr (rule_Name (tr_Rule rt))),
     (''match'', StringAttr (rule_Match (tr_Rule rt))), (''applies'', BoolAttr (tr_Applies rt)),
     (''action'', StringAttr (rule_Action (tr_Rule rt))), (''permission'', StringAttr (rule_Permission (tr_Rule rt))),
     (''conditions'', StringAttr (Join ''; '' (map (conditionText L) (tr_Conditions rt))))])"

definition logAuthorization :: "LogContext \<Rightarrow> World \<Rightarrow> Server \<Rightarrow> caller \<Rightarrow> string \<Rightarrow> Operation \<Rightarrow> logLine list" where
  "logAuthorization L W S c name op =
    (let req = (call_req c)\<lparr>req_Operation := op, req_ObjectName := name\<rparr>;
         (result, trace) = Explain (w_formats W) req (srv_rules S);
         ok = (result_Allowed result
           \<and> (RequiredPermission op \<noteq> PermissionReadWrite \<or> result_Permission result = PermissionReadWrite))
     in map (\<lambda>(i, rt). ruleLine L i rt) (enumerate 0 trace)
        @ [(''auth debug: decision'',
            [(''request'', StringAttr (lc_ReqID L)), (''operation'', StringAttr op), (''device'', StringAttr (req_Device req)),
             (''allowed'', BoolAttr ok), (''decided by'', StringAttr (result_RuleName result))]
            @ (if name \<noteq> [] then [(''variable'', StringAttr name)] else [])
            @ (if result_Allowed result \<and> \<not> ok
               then [(''reason'', StringAttr (''rule allows only '' @ result_Permission result @ '', operation needs readwrite''))]
               else []))])"

lemma enumerate_map: "enumerate n (map f xs) = map (\<lambda>(i, x). (i, f x)) (enumerate n xs)"
  by (rule nth_equalityI) (simp_all add: nth_enumerate_eq)

lemma ruleLine_attributes:
  "map_of (snd (ruleLine L i rt)) ''index'' = Some (IntAttr i)"
  "map_of (snd (ruleLine L i rt)) ''rule'' = Some (StringAttr (rule_Name (tr_Rule rt)))"
  "map_of (snd (ruleLine L i rt)) ''applies'' = Some (BoolAttr (tr_Applies rt))"
  "map_of (snd (ruleLine L i rt)) ''conditions'' = Some (StringAttr (Join ''; '' (map (conditionText L) (tr_Conditions rt))))"
  by (simp_all add: ruleLine_def)

text \<open>
  C28. What \<^verbatim>\<open>-debugauth\<close> logs of an authorization is what decides it: one line for each rule that
  the evaluation looks at, in order, saying whether the rule applies and for each of its conditions whether
  it matches; then the decision, which says "allowed" exactly when the request is allowed, names
  the rule that decided, and gives a reason exactly when a readonly rule let a write down.
\<close>

theorem debug_log_true:
  "\<exists>lines decision. logAuthorization L W S c name op = lines @ [decision]
    \<and> (let req = (call_req c)\<lparr>req_Operation := op, req_ObjectName := name\<rparr>;
           rules = considered (w_formats W) req (srv_rules S);
           result = Evaluate (w_formats W) req (srv_rules S)
       in map (\<lambda>line. (map_of (snd line) ''index'', map_of (snd line) ''rule'', map_of (snd line) ''applies'')) lines
            = map (\<lambda>(i, r). (Some (IntAttr i), Some (StringAttr (rule_Name r)), Some (BoolAttr (ruleApplies (w_formats W) req r))))
                (enumerate 0 rules)
          \<and> map (\<lambda>line. map_of (snd line) ''conditions'') lines
            = map (\<lambda>r. Some (StringAttr (Join ''; '' (map (\<lambda>cond. conditionText L
                \<lparr>ct_Condition = cond, ct_Matched = matchCondition (w_formats W) cond req,
                   ct_Actual = actualValue (w_formats W) cond req\<rparr>) (rule_Conditions r))))) rules
          \<and> map_of (snd decision) ''allowed'' = Some (BoolAttr (allowed W S c name op))
          \<and> map_of (snd decision) ''decided by'' = Some (StringAttr (result_RuleName result))
          \<and> (map_of (snd decision) ''reason'' \<noteq> None \<longleftrightarrow> result_Allowed result \<and> \<not> allowed W S c name op))"
proof -
  let ?req = "(call_req c)\<lparr>req_Operation := op, req_ObjectName := name\<rparr>"
  let ?rules = "considered (w_formats W) ?req (srv_rules S)" and ?result = "Evaluate (w_formats W) ?req (srv_rules S)"
  let ?lines = "map (\<lambda>(i, rule). ruleLine L i (ruleTrace (w_formats W) ?req rule)) (enumerate 0 ?rules)"
  let ?decision = "last (logAuthorization L W S c name op)"
  have split: "logAuthorization L W S c name op = ?lines @ [?decision]"
    by (simp add: logAuthorization_def Explain_eq Let_def enumerate_map o_def case_prod_beta)
  have rules: "map (\<lambda>line. (map_of (snd line) ''index'', map_of (snd line) ''rule'', map_of (snd line) ''applies'')) ?lines
      = map (\<lambda>(i, r). (Some (IntAttr i), Some (StringAttr (rule_Name r)), Some (BoolAttr (ruleApplies (w_formats W) ?req r))))
          (enumerate 0 ?rules)"
    by (simp add: ruleLine_attributes ruleTrace_def o_def case_prod_beta)
  have "map (\<lambda>line. map_of (snd line) ''conditions'') ?lines
      = map (\<lambda>r. Some (StringAttr (Join ''; '' (map (\<lambda>cond. conditionText L (conditionTrace (w_formats W) ?req cond))
          (rule_Conditions r))))) (map snd (enumerate 0 ?rules))"
    by (simp add: ruleLine_attributes ruleTrace_def o_def case_prod_beta del: map_snd_enumerate)
  then have conds: "map (\<lambda>line. map_of (snd line) ''conditions'') ?lines
      = map (\<lambda>r. Some (StringAttr (Join ''; '' (map (\<lambda>cond. conditionText L
          \<lparr>ct_Condition = cond, ct_Matched = matchCondition (w_formats W) cond ?req,
             ct_Actual = actualValue (w_formats W) cond ?req\<rparr>) (rule_Conditions r))))) ?rules"
    by (simp only: map_snd_enumerate conditionTrace_def)
  have "map_of (snd ?decision) ''allowed'' = Some (BoolAttr (allowed W S c name op))"
    and "map_of (snd ?decision) ''decided by'' = Some (StringAttr (result_RuleName ?result))"
    and "map_of (snd ?decision) ''reason'' \<noteq> None \<longleftrightarrow> result_Allowed ?result \<and> \<not> allowed W S c name op"
    by (simp_all add: logAuthorization_def Explain_eq allowed_def Let_def)
  with split rules conds show ?thesis
    unfolding Let_def by (intro exI [of _ ?lines] exI [of _ ?decision] conjI)
qed

end
