(* ===== verification/Spec2Isabelle.thy ===== *)
theory Spec2Isabelle
  imports System_Theorems Bacnet_Runs Api_WriteBack Mock_Concurrency Timing_Theorems Authz_Theorems Config_Theorems Auth_Theorems Proxy_Theorems Api_Concurrency Api_Debug
begin

text \<open>
  A verification development for \<^verbatim>\<open>bacnet-ip-rest-proxy\<close>, a Go program that offers the objects of
  BACnet/IP devices over a REST API, behind authentication and authorization rules.

  \<^bold>\<open>The program and its parts.\<close> An HTTP request comes in at \<^verbatim>\<open>internal/api\<close>. It finds out who is calling
  (\<^verbatim>\<open>middleware.go\<close>, with \<^verbatim>\<open>internal/auth\<close> for the bearer credential), evaluates the rules of
  \<^verbatim>\<open>internal/authz\<close>, for rules about names with the variables of the device that \<^verbatim>\<open>varcache.go\<close> has
  enumerated, and then calls the BACnet client of \<^verbatim>\<open>internal/bacnet\<close>, which sends a request packet
  to the device and hands back the reply that its receive loop matched by address and invoke ID.
  \<^verbatim>\<open>internal/config\<close> reads the YAML file that all of this is set up from by
  \<^verbatim>\<open>cmd/bacnet-ip-rest-proxy\<close>. \<^verbatim>\<open>internal/bacnetmock\<close> is a device with an object store, against which
  the end-to-end theorems are stated.

  \<^bold>\<open>How Go is modelled.\<close> A function that returns \<^verbatim>\<open>(T, error)\<close> is a function into \<open>res\<close> (theory
  \<open>Prelude\<close>): \<open>Ok\<close>, \<open>Err\<close>, or \<open>Panic\<close> for an index, slice or nil access that fails, so that a theorem
  that a function is \<open>safe\<close> says that it does not panic. Integers of fixed width are words, \<^verbatim>\<open>int\<close> and
  durations are \<open>int\<close>, strings are lists of characters that stand for octets, floating-point numbers
  are their bit patterns (theory \<open>Go_Float\<close> computes on those with rounding to nearest even). Errors
  are values with the structure that \<^verbatim>\<open>errors.As\<close> and \<^verbatim>\<open>errors.Is\<close> can see; the texts of most are not
  modelled. Loops are recursion that terminates; the one loop of the program that may not end
  (the uint32 counter over an object list) is a partial function into \<open>option\<close>, whose \<open>None\<close> is
  not returning, and the theorems prove \<open>Some\<close>.

  \<^bold>\<open>The theories, and the code they model.\<close>

  \<^item> \<open>Prelude\<close> (outcomes, checked slices, big-endian octets, and the two locales that the codecs share:
    a decoder that stays within its input, and an encoder whose output decodes to what was encoded),
    \<open>Go_Text\<close>, \<open>Go_Strings\<close>, \<open>Go_Net\<close>, \<open>Go_IP\<close>, \<open>Go_Path\<close>, \<open>Go_Time\<close>, \<open>Go_Float\<close>: what the program uses of
    Go's standard library (UTF-8 and UTF-16, numbers and cutting, addresses and networks,
    \<^verbatim>\<open>path.Match\<close>, \<^verbatim>\<open>time.ParseDuration\<close>, float conversions).

  \<^item> \<open>Bacnet_Errors\<close>, \<open>Bacnet_Tag\<close>, \<open>Bacnet_Objects\<close>, \<open>Bacnet_Value\<close>, \<open>Bacnet_Services\<close>, \<open>Bacnet_Wire\<close>: the wire format
    (\<^verbatim>\<open>errors.go\<close>, \<^verbatim>\<open>tag.go\<close>, \<^verbatim>\<open>objects.go\<close>, \<^verbatim>\<open>value.go\<close>, \<^verbatim>\<open>services.go\<close>; \<^verbatim>\<open>apdu.go\<close>, \<^verbatim>\<open>npdu.go\<close>, \<^verbatim>\<open>bvlc.go\<close>).
    \<open>Bacnet_Value_Codec\<close> and \<open>Bacnet_Services_Codec\<close> hold the round trips.

  \<^item> \<open>Bacnet_Client\<close>, \<open>Bacnet_Requests\<close>: \<^verbatim>\<open>client.go\<close> as functions on the table of outstanding requests, and
    \<open>Bacnet_Concurrency\<close> as a step relation in which any number of requests, the receive loop and
    timeouts interleave. \<open>Bacnet_Runs\<close> is about whole runs of it: that requests return, and as the
    sequential loop does. \<open>Bacnet_Timing\<close> has the clock of a request: its timeout against its context's
    deadline, with timers that may be late.

  \<^item> \<open>Mock_Device\<close>, \<open>Mock_Server\<close>: the device of \<^verbatim>\<open>internal/bacnetmock\<close>; \<open>Bacnet_EndToEnd\<close> and \<open>Mock_EndToEnd\<close>: the
    client against it, octets included, and the device as the environment of an enumeration.
    \<open>Mock_Concurrency\<close>: its serve loop, with a goroutine for each packet.

  \<^item> \<open>Authz\<close> (\<^verbatim>\<open>types.go\<close>, \<^verbatim>\<open>engine.go\<close>; a locale states what the server relies on of a decision), \<open>Auth\<close> and \<open>Auth_OIDC\<close> (\<^verbatim>\<open>auth.go\<close>, \<^verbatim>\<open>oidc.go\<close>).

  \<^item> \<open>Api_Http\<close>, \<open>Api_Dto\<close>, \<open>Api_Loader\<close>, \<open>Api_Cache\<close>, \<open>Api_Middleware\<close>, \<open>Api_Handlers\<close>: \<^verbatim>\<open>httperr.go\<close>, \<^verbatim>\<open>dto.go\<close>,
    \<^verbatim>\<open>varcache.go\<close>, \<^verbatim>\<open>middleware.go\<close>, \<^verbatim>\<open>handlers.go\<close> and \<^verbatim>\<open>router.go\<close>. A handler is a function on the server's state
    that continues, answers or panics. \<open>Api_WriteBack\<close> puts the reading and the writing of values together. \<open>Api_Debug\<close> has the log lines of \<^verbatim>\<open>-debugauth\<close>. \<open>Api_Server\<close> has the histories of requests and refreshes, and
    \<open>Api_Device\<close> the enumeration of the mock device through all layers.

  \<^item> \<open>Api_Cache_Concurrency\<close>, \<open>Api_Cache_Theorems\<close>: the cache again, as a step relation in which any number of
    calls of \<^verbatim>\<open>get\<close>, the goroutine \<^verbatim>\<open>run\<close>, time and \<^verbatim>\<open>close\<close> interleave. Entries are shared by pointer: a
    refresh can drop one from the map that a call still loads, so what is serialized are the loads for
    one entry, not those for one address. A call that runs alone is the function \<open>get\<close> of \<open>Api_Cache\<close>.
    \<open>Api_Concurrency\<close>: the server whose requests share that cache.

  \<^item> \<open>Config\<close>, \<open>Config_Errors\<close>, \<open>Startup\<close>: \<^verbatim>\<open>config.go\<close>, \<^verbatim>\<open>errors.go\<close> and \<^verbatim>\<open>main.go\<close>.

  \<^item> \<open>Bacnet_Theorems\<close>, \<open>System_Theorems\<close>, \<open>Authz_Theorems\<close>, \<open>Auth_Theorems\<close>, \<open>Api_Theorems\<close>, \<open>Config_Theorems\<close>,
    \<open>Proxy_Theorems\<close>, \<open>Timing_Theorems\<close>, and also \<open>Bacnet_Runs\<close>, \<open>Api_WriteBack\<close>, \<open>Api_Cache_Theorems\<close>, \<open>Api_Concurrency\<close>, \<open>Api_Debug\<close> and
    \<open>Mock_Concurrency\<close>: the properties, each under its claim id.

  \<^bold>\<open>What the properties show.\<close> For the wire format: decoders never panic and stay within their input,
  and what is encoded decodes to itself, with the exceptions shown. For the client: a reply goes
  to the request it answers, invoke IDs are not shared, and a request returns within its retries, with the result that the
  sequential loop gives on what befell it; a request made for the API makes one retry at most, since
  its context lasts one attempt. For the device: it answers every packet, also concurrently, and its priority arrays work as BACnet says. For authorization:
  which rule decides, and what match modes, conditions and patterns mean. For authentication: what a recognized credential
  proves, where keys come from and how often they are fetched. For the API: a write reaches a device
  only for a caller who is allowed it under the name the device gave, hidden objects look absent, lists
  are exact, every request is answered, exactly some values can be written back as they were read, the cache returns only what a device gave and no call of it
  is stuck, and the debug log tells how the rules decided. For the configuration: what is accepted, how problems are
  located, and that the server runs as configured. For the whole path: enumeration, reads and writes
  over HTTP end in exactly what the device's store says.

  \<^bold>\<open>Bounds.\<close> Values nest at most sixteen levels (\<open>maxNesting\<close>, the code's own bound, and the fuel of the
  nested decoder). A packet's parameters are shorter than 65500 octets where a theorem sends them, so
  that the 16-bit BVLC length holds them; a reply fits 1476 octets or is an abort. Object lists are
  shorter than \<open>2 ^ 32 - 50\<close>, since the code's counter wraps beyond. Names are assumed to fit one reply
  (1400 octets) where an enumeration is said to find all of them. That every request returns is shown
  for runs in which its goroutine is not left waiting for ever, and what a deadline does to retries for timers that are late by
  less than the timeout.

  \<^bold>\<open>Parameters.\<close> What is not in the repository is an argument: the network (what happens in each attempt
  of a request), the resolver, the clock, the JWT library (with the documented promise that it returns
  claims only of a token it has verified with one of the keys and methods given), HTTP and JSON
  documents of OIDC issuers, URL parsing, the curve check of elliptic keys, the YAML decoder and
  its node tree, Go's quoting of strings and the printing of claims.

  \<^bold>\<open>Not modelled.\<close> Sockets, timers and signals themselves; logging, except for that of \<^verbatim>\<open>-debugauth\<close>; the matching of
  URLs to routes by the chi router (the routes are the type \<open>route\<close>); the static documentation pages; the
  JSON text of bodies (a body is the tree of Go values that is encoded). In the histories of
  \<open>Api_Server\<close>, requests come one after the other, and in \<open>Api_Concurrency\<close> each has its turn at once with
  what it found in the cache; what interleaves step by step are the client's requests
  (\<open>Bacnet_Concurrency\<close>), the calls of the cache (\<open>Api_Cache_Concurrency\<close>) and the packets that the
  device handles (\<open>Mock_Concurrency\<close>).
\<close>

end
